(* ===== verification/Prelude.thy ===== *)
theory Prelude
  imports Main "HOL-Library.Word"
begin

text \<open>
  Shared vocabulary of the development: the C integer types, the kernel monad (a state
  monad whose computations return, panic, go to sleep, spin or hang), its weakest
  precondition, loop combinators, byte arrays (physical memory and disk blocks are both
  functions from byte offsets to bytes) and little-endian codecs for the C integers that
  the kernel stores in them.
\<close>

unbundle bit_operations_syntax

named_theorems km_simps
named_theorems bytes_simps

section \<open>C types and the constants of param.h\<close>

type_synonym u8 = "8 word"
type_synonym u16 = "16 word"
type_synonym u32 = "32 word"
type_synonym u64 = "64 word"

definition NPROC :: nat where "NPROC = 64"
definition NCPU :: nat where "NCPU = 8"
definition NOFILE :: nat where "NOFILE = 16"
definition NFILE :: nat where "NFILE = 100"
definition NINODE :: nat where "NINODE = 50"
definition NDEV :: nat where "NDEV = 10"
definition ROOTDEV :: u32 where "ROOTDEV = 1"
definition MAXARG :: nat where "MAXARG = 32"
definition MAXOPBLOCKS :: nat where "MAXOPBLOCKS = 10"
definition LOGSIZE :: nat where "LOGSIZE = MAXOPBLOCKS * 3"
definition NBUF :: nat where "NBUF = MAXOPBLOCKS * 3"
definition FSSIZE :: nat where "FSSIZE = 2000"
definition MAXPATH :: nat where "MAXPATH = 128"

section \<open>Kernel objects that locks and wait channels refer to\<close>

text \<open>
  A spin lock and a wait channel are addresses of kernel objects in C; distinct objects
  have distinct addresses, so the model names the object.
\<close>

datatype sleepid = BufLock nat | InodeLock nat

datatype lockid =
    KmemLock | PidLock | WaitLock | ProcLock nat | BcacheLock | SleepLk sleepid
  | LogLock | ItableLock | FtableLock | PipeLock u64 | ConsLock | UartTxLock | PrLock
  | TicksLock | VdiskLock

datatype wchan =
    ChanProc nat | ChanSleep sleepid | ChanLog | ChanTicks | ChanPipeRead u64
  | ChanPipeWrite u64 | ChanConsR | ChanUartTxR | ChanDiskFree | ChanBuf nat

section \<open>The kernel monad\<close>

text \<open>
  A kernel routine run by one thread of control either returns, or stops: it panics, it
  has switched to the scheduler (the process table says whether it sleeps and on which
  channel), it spins on a spin lock that another hart holds, or it loops forever. A user program,
  which is modelled with the same combinators, may also end by \<^verbatim>\<open>exit\<close> or by a successful \<^verbatim>\<open>exec\<close>.
\<close>

datatype stop = Panic string | Switched | Spin lockid | Hang | Exited int | Replaced

datatype ('a, 's) outcome = Ret 'a 's | Stop stop 's

type_synonym ('a, 's) km = "'s \<Rightarrow> ('a, 's) outcome"

definition ret :: "'a \<Rightarrow> ('a, 's) km" where
  [km_simps]: "ret x s = Ret x s"

definition bind :: "('a, 's) km \<Rightarrow> ('a \<Rightarrow> ('b, 's) km) \<Rightarrow> ('b, 's) km" where
  [km_simps]: "bind m f s = (case m s of Ret a s' \<Rightarrow> f a s' | Stop e s' \<Rightarrow> Stop e s')"

definition seq :: "('a, 's) km \<Rightarrow> ('b, 's) km \<Rightarrow> ('b, 's) km" where
  [km_simps]: "seq m n s = (case m s of Ret a s' \<Rightarrow> n s' | Stop e s' \<Rightarrow> Stop e s')"

definition gets :: "('s \<Rightarrow> 'a) \<Rightarrow> ('a, 's) km" where
  [km_simps]: "gets f s = Ret (f s) s"

definition modify :: "('s \<Rightarrow> 's) \<Rightarrow> (unit, 's) km" where
  [km_simps]: "modify f s = Ret () (f s)"

definition panic :: "string \<Rightarrow> ('a, 's) km" where
  [km_simps]: "panic msg s = Stop (Panic msg) s"

definition whenk :: "bool \<Rightarrow> (unit, 's) km \<Rightarrow> (unit, 's) km" where
  [km_simps]: "whenk b m s = (if b then m s else Ret () s)"

text \<open>A \<^verbatim>\<open>for\<close> loop without early exit, and one whose body may leave with a result.\<close>

primrec forall_do :: "'i list \<Rightarrow> ('i \<Rightarrow> (unit, 's) km) \<Rightarrow> (unit, 's) km" where
  "forall_do [] f = ret ()"
| "forall_do (i # is) f = seq (f i) (forall_do is f)"

primrec for_until :: "'i list \<Rightarrow> ('i \<Rightarrow> ('r option, 's) km) \<Rightarrow> ('r option, 's) km" where
  "for_until [] f = ret None"
| "for_until (i # is) f =
     bind (f i) (\<lambda>r. case r of Some x \<Rightarrow> ret (Some x) | None \<Rightarrow> for_until is f)"

text \<open>
  The other C loops: the body says whether to go on (\<open>Inl\<close>) or to leave the loop (\<open>Inr\<close>).
  The number of iterations is bounded by fuel; a loop that runs out of it hangs, so a
  theorem that the loop returns is also one that the fuel is enough.
\<close>

primrec loop :: "nat \<Rightarrow> ('x \<Rightarrow> ('x + 'r, 's) km) \<Rightarrow> 'x \<Rightarrow> ('r, 's) km" where
  "loop 0 f x = (\<lambda>s. Stop Hang s)"
| "loop (Suc n) f x = bind (f x) (\<lambda>y. case y of Inl x' \<Rightarrow> loop n f x' | Inr r \<Rightarrow> ret r)"

section \<open>Weakest preconditions\<close>

text \<open>\<open>wp m Q s\<close>: from \<open>s\<close> the routine returns (it does not panic, sleep or hang) and
  the result satisfies \<open>Q\<close>.\<close>

definition wp :: "('a, 's) km \<Rightarrow> ('a \<Rightarrow> 's \<Rightarrow> bool) \<Rightarrow> 's \<Rightarrow> bool" where
  "wp m Q s = (case m s of Ret a s' \<Rightarrow> Q a s' | Stop e s' \<Rightarrow> False)"

lemma wp_ret [simp]: "wp (ret x) Q s = Q x s"
  by (simp add: wp_def ret_def)

lemma wp_bind [simp]: "wp (bind m f) Q s = wp m (\<lambda>a s'. wp (f a) Q s') s"
  by (simp add: wp_def bind_def split: outcome.splits)

lemma wp_seq [simp]: "wp (seq m n) Q s = wp m (\<lambda>a s'. wp n Q s') s"
  by (simp add: wp_def seq_def split: outcome.splits)

lemma wp_gets [simp]: "wp (gets f) Q s = Q (f s) s"
  by (simp add: wp_def gets_def)

lemma wp_modify [simp]: "wp (modify f) Q s = Q () (f s)"
  by (simp add: wp_def modify_def)

lemma wp_panic [simp]: "\<not> wp (panic msg) Q s"
  by (simp add: wp_def panic_def)

lemma wp_whenk [simp]: "wp (whenk b m) Q s = (if b then wp m Q s else Q () s)"
  by (simp add: wp_def whenk_def)

lemma wp_conseq:
  assumes "wp m Q s" and "\<And>a s'. Q a s' \<Longrightarrow> R a s'"
  shows "wp m R s"
  using assms by (auto simp: wp_def split: outcome.splits)

lemma wpI: "m s = Ret a s' \<Longrightarrow> Q a s' \<Longrightarrow> wp m Q s"
  by (simp add: wp_def)

lemma wp_Ret_iff: "m s = Ret a s' \<Longrightarrow> wp m Q s = Q a s'"
  by (simp add: wp_def)

lemma wpE:
  assumes "wp m Q s"
  obtains a s' where "m s = Ret a s'" and "Q a s'"
  using assms by (auto simp: wp_def split: outcome.splits)

lemma wp_forall_do_inv:
  assumes "I xs s"
    and "\<And>i is s. I (i # is) s \<Longrightarrow> wp (f i) (\<lambda>_ s'. I is s') s"
    and "\<And>s. I [] s \<Longrightarrow> Q () s"
  shows "wp (forall_do xs f) Q s"
  using assms(1)
proof (induction xs arbitrary: s)
  case Nil
  then show ?case by (simp add: assms(3))
next
  case (Cons i xs)
  from assms(2) [OF Cons.prems] show ?case
    by (auto intro: wp_conseq Cons.IH)
qed

lemma forall_do_append:
  "forall_do (xs @ ys) f s = seq (forall_do xs f) (forall_do ys f) s"
  by (induction xs arbitrary: s) (auto simp: km_simps split: outcome.splits)

lemma wp_loop:
  assumes "I x s" and "V x < n"
    and "\<And>x s. I x s \<Longrightarrow>
       wp (f x) (\<lambda>y s'. case y of Inl x' \<Rightarrow> I x' s' \<and> V x' < (V x :: nat) | Inr r \<Rightarrow> Q r s') s"
  shows "wp (loop n f x) Q s"
  using assms(1,2)
proof (induction n arbitrary: x s)
  case 0
  then show ?case by simp
next
  case (Suc n)
  from assms(3) [OF Suc.prems(1)] show ?case
    unfolding loop.simps wp_bind
    by (rule wp_conseq) (use Suc.IH Suc.prems(2) in \<open>auto split: sum.splits\<close>)
qed

lemma wp_for_until_inv:
  assumes "I xs s"
    and "\<And>i is s. I (i # is) s \<Longrightarrow>
       wp (f i) (\<lambda>r s'. case r of None \<Rightarrow> I is s' | Some x \<Rightarrow> Q (Some x) s') s"
    and "\<And>s. I [] s \<Longrightarrow> Q None s"
  shows "wp (for_until xs f) Q s"
  using assms(1)
proof (induction xs arbitrary: s)
  case Nil
  then show ?case by (simp add: assms(3))
next
  case (Cons i xs)
  from assms(2) [OF Cons.prems] show ?case
    unfolding for_until.simps wp_bind
    by (rule wp_conseq) (use Cons.IH in \<open>auto split: option.splits\<close>)
qed

section \<open>Byte arrays\<close>

text \<open>
  Physical memory is a byte array indexed by physical address, a disk block one indexed by
  the offset in the block.
\<close>

type_synonym bytes = "nat \<Rightarrow> u8"

definition rd :: "bytes \<Rightarrow> nat \<Rightarrow> nat \<Rightarrow> u8 list" where
  "rd m a n = map (\<lambda>i. m (a + i)) [0..<n]"

definition wr :: "bytes \<Rightarrow> nat \<Rightarrow> u8 list \<Rightarrow> bytes" where
  "wr m a bs = (\<lambda>x. if a \<le> x \<and> x < a + length bs then bs ! (x - a) else m x)"

lemma length_rd [simp]: "length (rd m a n) = n"
  by (simp add: rd_def)

lemma nth_rd [simp]: "i < n \<Longrightarrow> rd m a n ! i = m (a + i)"
  by (simp add: rd_def)

lemma rd_0 [simp]: "rd m a 0 = []"
  by (simp add: rd_def)

lemma rd_wr_same [simp]: "n = length bs \<Longrightarrow> rd (wr m a bs) a n = bs"
  by (auto intro!: nth_equalityI simp: wr_def)

lemma rd_wr_disjoint [simp]:
  "b + n \<le> a \<or> a + length bs \<le> b \<Longrightarrow> rd (wr m a bs) b n = rd m b n"
  by (auto intro!: nth_equalityI simp: wr_def)

lemma wr_outside: "x < a \<or> a + length bs \<le> x \<Longrightarrow> wr m a bs x = m x"
  by (auto simp: wr_def)

lemma wr_inside: "a \<le> x \<Longrightarrow> x < a + length bs \<Longrightarrow> wr m a bs x = bs ! (x - a)"
  by (auto simp: wr_def)

lemma wr_Nil [simp]: "wr m a [] = m"
  by (rule ext) (auto simp: wr_def)

lemma wr_wr_same: "length bs = length cs \<Longrightarrow> wr (wr m a bs) a cs = wr m a cs"
  by (auto simp: wr_def)

lemma wr_rd_id [simp]: "wr m a (rd m a n) = m"
  by (rule ext) (auto simp: wr_def)

lemma wr_append: "wr m a (bs @ cs) = wr (wr m a bs) (a + length bs) cs"
  by (rule ext) (auto simp: wr_def nth_append)

lemma rd_append: "rd m a (n + k) = rd m a n @ rd m (a + n) k"
  by (rule nth_equalityI) (auto simp: nth_append add.assoc)

lemma rd_cong: "(\<And>i. i < n \<Longrightarrow> m (a + i) = m' (b + i)) \<Longrightarrow> rd m a n = rd m' b n"
  by (auto intro!: nth_equalityI)

section \<open>Little-endian integers\<close>

primrec le_bytes :: "nat \<Rightarrow> 'a::len word \<Rightarrow> u8 list" where
  "le_bytes 0 w = []"
| "le_bytes (Suc n) w = ucast w # le_bytes n (drop_bit 8 w)"

primrec le_word :: "u8 list \<Rightarrow> 'a::len word" where
  "le_word [] = 0"
| "le_word (b # bs) = (ucast b OR push_bit 8 (le_word bs))"

lemma length_le_bytes [simp]: "length (le_bytes n w) = n"
  by (induction n arbitrary: w) auto

lemma bit_le_word:
  "bit (le_word bs :: 'a::len word) n \<longleftrightarrow>
     n < LENGTH('a) \<and> n div 8 < length bs \<and> bit (bs ! (n div 8)) (n mod 8)"
proof (induction bs arbitrary: n)
  case Nil
  then show ?case by simp
next
  case (Cons b bs)
  show ?case
  proof (cases "n < 8")
    case True
    then show ?thesis by (auto simp: bit_simps)
  next
    case False
    then obtain k where k: "n = k + 8" by (metis add.commute le_Suc_ex not_less)
    have d: "(k + 8) div 8 = Suc (k div 8)" by simp
    have b: "\<not> bit b (k + 8)" by (auto dest: bit_imp_le_length)
    show ?thesis
      using Cons.IH [of k] unfolding k d
      by (auto simp: bit_simps b d)
  qed
qed

lemma le_word_le_bytes: "le_word (le_bytes n w) = take_bit (8 * n) w"
proof (induction n arbitrary: w)
  case 0
  then show ?case by simp
next
  case (Suc n)
  show ?case
    by (rule bit_word_eqI) (auto simp: Suc bit_simps)
qed

lemma le_word_le_bytes_full:
  "LENGTH('a::len) \<le> 8 * n \<Longrightarrow> le_word (le_bytes n w) = (w :: 'a word)"
  by (simp add: le_word_le_bytes take_bit_word_eq_self)

lemma le_bytes_le_word:
  "8 * n \<le> LENGTH('a::len) \<Longrightarrow> length bs = n \<Longrightarrow> le_bytes n (le_word bs :: 'a word) = bs"
proof (induction n arbitrary: bs)
  case 0
  then show ?case by simp
next
  case (Suc n)
  then obtain c cs where bs: "bs = c # cs" and len: "length cs = n" by (cases bs) auto
  have lo: "ucast (le_word bs :: 'a word) = c"
    using Suc.prems by (intro bit_word_eqI) (auto simp: bs bit_simps bit_le_word)
  have hi: "drop_bit 8 (le_word bs :: 'a word) = le_word cs"
  proof (rule bit_word_eqI)
    fix k assume "k < LENGTH('a)"
    have "8 * n + 8 \<le> LENGTH('a)" using Suc.prems by simp
    moreover have "k div 8 < n \<Longrightarrow> k + 8 < 8 * n + 8" by linarith
    moreover have "\<not> bit c (8 + k)" by (auto dest: bit_imp_le_length)
    ultimately show "bit (drop_bit 8 (le_word bs :: 'a word)) k = bit (le_word cs :: 'a word) k"
      by (auto simp: bit_simps bit_le_word bs len)
  qed
  show ?case
    using Suc.IH [of cs] Suc.prems len by (simp add: lo hi bs [symmetric])
qed

definition load32 :: "bytes \<Rightarrow> nat \<Rightarrow> u32" where
  "load32 m a = le_word (rd m a 4)"

definition store32 :: "bytes \<Rightarrow> nat \<Rightarrow> u32 \<Rightarrow> bytes" where
  "store32 m a v = wr m a (le_bytes 4 v)"

definition load64 :: "bytes \<Rightarrow> nat \<Rightarrow> u64" where
  "load64 m a = le_word (rd m a 8)"

definition store64 :: "bytes \<Rightarrow> nat \<Rightarrow> u64 \<Rightarrow> bytes" where
  "store64 m a v = wr m a (le_bytes 8 v)"

definition load16 :: "bytes \<Rightarrow> nat \<Rightarrow> u16" where
  "load16 m a = le_word (rd m a 2)"

definition store16 :: "bytes \<Rightarrow> nat \<Rightarrow> u16 \<Rightarrow> bytes" where
  "store16 m a v = wr m a (le_bytes 2 v)"

lemma load_store_same [simp]:
  "load64 (store64 m a v) a = v"
  "load32 (store32 m a w) a = w"
  "load16 (store16 m a x) a = x"
  by (simp_all add: load64_def store64_def load32_def store32_def load16_def store16_def
      le_word_le_bytes_full)

lemma load64_store64_other [simp]:
  "b + 8 \<le> a \<or> a + 8 \<le> b \<Longrightarrow> load64 (store64 m a v) b = load64 m b"
  by (simp add: load64_def store64_def)

lemma load32_store32_other [simp]:
  "b + 4 \<le> a \<or> a + 4 \<le> b \<Longrightarrow> load32 (store32 m a v) b = load32 m b"
  by (simp add: load32_def store32_def)

lemma load16_store16_other [simp]:
  "b + 2 \<le> a \<or> a + 2 \<le> b \<Longrightarrow> load16 (store16 m a v) b = load16 m b"
  by (simp add: load16_def store16_def)

lemma load64_cong: "(\<And>i. i < 8 \<Longrightarrow> m (a + i) = m' (a + i)) \<Longrightarrow> load64 m a = load64 m' a"
  unfolding load64_def by (auto cong: rd_cong)

lemma store64_outside: "x < a \<or> a + 8 \<le> x \<Longrightarrow> store64 m a v x = m x"
  by (simp add: store64_def wr_outside)

lemma le_word_zeros [simp]: "le_word (replicate n 0) = 0"
  by (induction n) auto

lemma unat_lt64: "unat (a::u64) < 2 ^ 64"
proof -
  have "unat a < 2 ^ LENGTH(64)" by (rule unsigned_less)
  then show ?thesis by simp
qed

lemma unat_lt32: "unat (a::u32) < 2 ^ 32"
proof -
  have "unat a < 2 ^ LENGTH(32)" by (rule unsigned_less)
  then show ?thesis by simp
qed

lemma unat_add64: "unat a + unat b < 2 ^ 64 \<Longrightarrow> unat ((a::u64) + b) = unat a + unat b"
  by (simp add: unat_word_ariths)

lemma unat_sub64: "b \<le> a \<Longrightarrow> unat ((a::u64) - b) = unat a - unat b"
  by (rule unat_sub)

end
