(* ===== verification/Spinlock.thy ===== *)
theory Spinlock
  imports Prelude
begin

text \<open>
  spinlock.c and the interrupt-enable part of riscv.h. The state of the harts (one
  \<^verbatim>\<open>struct cpu\<close> and one \<^verbatim>\<open>sstatus\<close> register each) and all spin locks form the
  record \<open>machine\<close>; \<open>tp\<close> is the hart that executes, as the \<^verbatim>\<open>tp\<close> register is in
  the code. The routines act on the machine and are lifted to every later kernel state,
  which carries the machine in its field \<open>mach\<close>.
\<close>

section \<open>State\<close>

record spinlock =
  locked :: u32
  lname :: string
  lcpu :: "nat option"

record cpu =
  cproc :: "nat option"
  noff :: int
  intena :: bool

record machine =
  tp :: nat
  sstatus :: "nat \<Rightarrow> u64"
  cpus :: "nat \<Rightarrow> cpu"
  spin :: "lockid \<Rightarrow> spinlock"

record kbase =
  mach :: machine

definition on_mach :: "('a, machine) km \<Rightarrow> ('a, 'z kbase_scheme) km" where
  "on_mach f s =
     (case f (mach s) of
        Ret a m \<Rightarrow> Ret a (s\<lparr>mach := m\<rparr>)
      | Stop e m \<Rightarrow> Stop e (s\<lparr>mach := m\<rparr>))"

section \<open>Interrupt enable bit (riscv.h)\<close>

definition SSTATUS_SIE :: u64 where "SSTATUS_SIE = push_bit 1 1"

definition r_sstatus :: "machine \<Rightarrow> u64" where
  "r_sstatus m = sstatus m (tp m)"

definition w_sstatus :: "u64 \<Rightarrow> machine \<Rightarrow> machine" where
  "w_sstatus x m = m\<lparr>sstatus := (sstatus m)(tp m := x)\<rparr>"

definition intr_on :: "machine \<Rightarrow> machine" where
  "intr_on m = w_sstatus (r_sstatus m OR SSTATUS_SIE) m"

definition intr_off :: "machine \<Rightarrow> machine" where
  "intr_off m = w_sstatus (r_sstatus m AND NOT SSTATUS_SIE) m"

definition intr_get :: "machine \<Rightarrow> bool" where
  "intr_get m = (r_sstatus m AND SSTATUS_SIE \<noteq> 0)"

section \<open>spinlock.c\<close>

definition cpuid :: "machine \<Rightarrow> nat" where
  "cpuid m = tp m"

definition mycpu :: "machine \<Rightarrow> cpu" where
  "mycpu m = cpus m (cpuid m)"

definition set_mycpu :: "(cpu \<Rightarrow> cpu) \<Rightarrow> machine \<Rightarrow> machine" where
  "set_mycpu f m = m\<lparr>cpus := (cpus m)(tp m := f (cpus m (tp m)))\<rparr>"

definition set_spin :: "lockid \<Rightarrow> (spinlock \<Rightarrow> spinlock) \<Rightarrow> machine \<Rightarrow> machine" where
  "set_spin l f m = m\<lparr>spin := (spin m)(l := f (spin m l))\<rparr>"

definition initlock_m :: "lockid \<Rightarrow> string \<Rightarrow> machine \<Rightarrow> machine" where
  "initlock_m l name = set_spin l (\<lambda>k. k\<lparr>lname := name, locked := 0, lcpu := None\<rparr>)"

definition holding :: "lockid \<Rightarrow> machine \<Rightarrow> bool" where
  "holding l m = (locked (spin m l) \<noteq> 0 \<and> lcpu (spin m l) = Some (cpuid m))"

definition push_off :: "(unit, machine) km" where
  "push_off =
     bind (gets intr_get) (\<lambda>old.
     seq (modify intr_off)
     (bind (gets (\<lambda>m. noff (mycpu m))) (\<lambda>n.
      seq (whenk (n = 0) (modify (set_mycpu (\<lambda>c. c\<lparr>intena := old\<rparr>))))
          (modify (set_mycpu (\<lambda>c. c\<lparr>noff := noff c + 1\<rparr>))))))"

definition pop_off :: "(unit, machine) km" where
  "pop_off =
     bind (gets intr_get) (\<lambda>i.
     if i then panic ''pop_off - interruptible''
     else bind (gets (\<lambda>m. noff (mycpu m))) (\<lambda>n.
       if n < 1 then panic ''pop_off''
       else seq (modify (set_mycpu (\<lambda>c. c\<lparr>noff := noff c - 1\<rparr>)))
         (bind (gets mycpu) (\<lambda>c.
            whenk (noff c = 0 \<and> intena c) (modify intr_on)))))"

text \<open>The atomic swap of \<^verbatim>\<open>__sync_lock_test_and_set(&lk->locked, 1)\<close>.\<close>

definition test_and_set :: "lockid \<Rightarrow> (u32, machine) km" where
  "test_and_set l =
     bind (gets (\<lambda>m. locked (spin m l))) (\<lambda>old.
     seq (modify (set_spin l (\<lambda>k. k\<lparr>locked := 1\<rparr>))) (ret old))"

definition set_owner :: "lockid \<Rightarrow> (unit, machine) km" where
  "set_owner l = modify (\<lambda>m. set_spin l (\<lambda>k. k\<lparr>lcpu := Some (cpuid m)\<rparr>) m)"

definition clear_owner :: "lockid \<Rightarrow> (unit, machine) km" where
  "clear_owner l = modify (set_spin l (\<lambda>k. k\<lparr>lcpu := None\<rparr>))"

definition lock_release :: "lockid \<Rightarrow> (unit, machine) km" where
  "lock_release l = modify (set_spin l (\<lambda>k. k\<lparr>locked := 0\<rparr>))"

text \<open>The part of \<^verbatim>\<open>acquire\<close> before its spin loop, and the whole of it: a swap that
  returns a non-zero value leaves the hart spinning.\<close>

definition acquire_enter :: "lockid \<Rightarrow> (unit, machine) km" where
  "acquire_enter l =
     seq push_off
     (bind (gets (holding l)) (\<lambda>h. if h then panic ''acquire'' else ret ()))"

definition acquire_m :: "lockid \<Rightarrow> (unit, machine) km" where
  "acquire_m l =
     seq (acquire_enter l)
     (bind (test_and_set l) (\<lambda>old.
      if old \<noteq> 0 then (\<lambda>m. Stop (Spin l) m) else set_owner l))"

definition release_enter :: "lockid \<Rightarrow> (unit, machine) km" where
  "release_enter l =
     bind (gets (holding l)) (\<lambda>h. if \<not> h then panic ''release'' else clear_owner l)"

definition release_m :: "lockid \<Rightarrow> (unit, machine) km" where
  "release_m l = seq (release_enter l) (seq (lock_release l) pop_off)"

definition initlock :: "lockid \<Rightarrow> string \<Rightarrow> (unit, 'z kbase_scheme) km" where
  "initlock l name = on_mach (modify (initlock_m l name))"

definition acquire :: "lockid \<Rightarrow> (unit, 'z kbase_scheme) km" where
  "acquire l = on_mach (acquire_m l)"

definition release :: "lockid \<Rightarrow> (unit, 'z kbase_scheme) km" where
  "release l = on_mach (release_m l)"

section \<open>Closed forms for one hart\<close>

definition held :: "machine \<Rightarrow> lockid set" where
  "held m = {l. locked (spin m l) \<noteq> 0}"

text \<open>\<open>sane m\<close>: the nesting depth is not negative, interrupts are off while it is positive,
  a free lock records no hart, and a taken one holds the value 1.\<close>

definition sane :: "machine \<Rightarrow> bool" where
  "sane m \<longleftrightarrow> 0 \<le> noff (mycpu m) \<and> (0 < noff (mycpu m) \<longrightarrow> \<not> intr_get m)
     \<and> (\<forall>l. locked (spin m l) = 0 \<longrightarrow> lcpu (spin m l) = None)"

text \<open>The effect that a balanced critical section leaves behind: at depth 0 the saved
  interrupt state is the current one.\<close>

definition quiet :: "machine \<Rightarrow> machine" where
  "quiet m = (if noff (mycpu m) = 0 then set_mycpu (\<lambda>c. c\<lparr>intena := intr_get m\<rparr>) m else m)"

definition taken :: "lockid \<Rightarrow> machine \<Rightarrow> machine" where
  "taken l m = set_spin l (\<lambda>k. k\<lparr>locked := 1, lcpu := Some (tp m)\<rparr>)
     (set_mycpu (\<lambda>c. c\<lparr>noff := noff c + 1\<rparr>) (intr_off (quiet m)))"

lemma and_SIE_0_iff: "x AND SSTATUS_SIE = 0 \<longleftrightarrow> \<not> bit x 1"
proof -
  have "SSTATUS_SIE = 2 ^ 1" by (simp add: SSTATUS_SIE_def)
  then show ?thesis by (metis and_exp_eq_0_iff_not_bit)
qed

lemma intr_get_iff: "intr_get m \<longleftrightarrow> bit (sstatus m (tp m)) 1"
  by (simp add: intr_get_def r_sstatus_def and_SIE_0_iff)

lemma intr_get_off [simp]: "\<not> intr_get (intr_off m)"
  by (simp add: intr_get_iff intr_off_def w_sstatus_def r_sstatus_def SSTATUS_SIE_def bit_simps)

lemma intr_get_on [simp]: "intr_get (intr_on m)"
  by (simp add: intr_get_iff intr_on_def w_sstatus_def r_sstatus_def SSTATUS_SIE_def bit_simps)

lemma tp_frame [simp]:
  "tp (intr_off m) = tp m" "tp (intr_on m) = tp m" "tp (set_mycpu f m) = tp m"
  "tp (set_spin l g m) = tp m" "tp (quiet m) = tp m" "tp (taken l m) = tp m"
  by (simp_all add: intr_off_def intr_on_def w_sstatus_def set_mycpu_def set_spin_def quiet_def
      taken_def)

lemma spin_frame [simp]:
  "spin (intr_off m) = spin m" "spin (intr_on m) = spin m" "spin (set_mycpu f m) = spin m"
  "spin (quiet m) = spin m"
  by (simp_all add: intr_off_def intr_on_def w_sstatus_def set_mycpu_def quiet_def)

lemma cpus_frame [simp]:
  "cpus (intr_off m) = cpus m" "cpus (intr_on m) = cpus m" "cpus (set_spin l g m) = cpus m"
  by (simp_all add: intr_off_def intr_on_def w_sstatus_def set_spin_def)

lemma mycpu_simps [simp]:
  "mycpu (intr_off m) = mycpu m" "mycpu (intr_on m) = mycpu m"
  "mycpu (set_spin l g m) = mycpu m" "mycpu (set_mycpu f m) = f (mycpu m)"
  by (simp_all add: mycpu_def cpuid_def set_mycpu_def)

lemma intr_get_frame [simp]:
  "intr_get (set_mycpu f m) = intr_get m" "intr_get (set_spin l g m) = intr_get m"
  "intr_get (quiet m) = intr_get m"
  by (simp_all add: intr_get_iff set_mycpu_def set_spin_def quiet_def)

lemma spin_set_spin [simp]:
  "spin (set_spin l g m) k = (if k = l then g (spin m l) else spin m k)"
  by (simp add: set_spin_def)

lemma holding_iff: "holding l m \<longleftrightarrow> locked (spin m l) \<noteq> 0 \<and> lcpu (spin m l) = Some (tp m)"
  by (simp add: holding_def cpuid_def)

lemma held_frame [simp]: "held (quiet m) = held m" "held (taken l m) = insert l (held m)"
  by (auto simp: held_def taken_def)

lemma notin_held: "l \<notin> held m \<longleftrightarrow> locked (spin m l) = 0"
  by (simp add: held_def)

lemma intr_off_id: "\<not> intr_get m \<Longrightarrow> intr_off m = m"
proof -
  assume "\<not> intr_get m"
  then have "\<not> bit (sstatus m (tp m)) 1" by (simp add: intr_get_iff)
  then have "sstatus m (tp m) AND NOT (push_bit 1 1) = sstatus m (tp m)"
    by (intro bit_word_eqI) (auto simp: bit_simps)
  then show ?thesis
    by (simp add: intr_off_def w_sstatus_def r_sstatus_def SSTATUS_SIE_def)
qed

lemma intr_on_off: "intr_get m \<Longrightarrow> intr_on (intr_off m) = m"
proof -
  assume "intr_get m"
  then have "bit (sstatus m (tp m)) 1" by (simp add: intr_get_iff)
  then have "(sstatus m (tp m) AND NOT (push_bit 1 1)) OR push_bit 1 1 = sstatus m (tp m)"
    by (intro bit_word_eqI) (auto simp: bit_simps)
  then show ?thesis
    by (simp add: intr_off_def intr_on_def w_sstatus_def r_sstatus_def SSTATUS_SIE_def)
qed

lemma push_off_eq:
  "push_off m = Ret () (set_mycpu (\<lambda>c. c\<lparr>noff := noff c + 1\<rparr>) (intr_off (quiet m)))"
  by (auto simp: push_off_def km_simps quiet_def set_mycpu_def intr_off_def w_sstatus_def
      r_sstatus_def mycpu_def cpuid_def)

lemma acquire_m_free: "l \<notin> held m \<Longrightarrow> acquire_m l m = Ret () (taken l m)"
  by (simp add: acquire_m_def acquire_enter_def km_simps push_off_eq holding_iff notin_held
      test_and_set_def set_owner_def cpuid_def taken_def)
    (simp add: set_spin_def)

lemma acquire_m_spins:
  "l \<in> held m \<Longrightarrow> lcpu (spin m l) \<noteq> Some (tp m) \<Longrightarrow> \<exists>m'. acquire_m l m = Stop (Spin l) m'"
  by (simp add: acquire_m_def acquire_enter_def km_simps push_off_eq holding_iff held_def
      test_and_set_def)

text \<open>The state \<^verbatim>\<open>release\<close> leaves, and when it does not panic.\<close>

definition dropped :: "lockid \<Rightarrow> machine \<Rightarrow> machine" where
  "dropped l m =
     (let m1 = set_mycpu (\<lambda>c. c\<lparr>noff := noff c - 1\<rparr>)
                 (set_spin l (\<lambda>k. k\<lparr>lcpu := None, locked := 0\<rparr>) m)
      in if noff (mycpu m1) = 0 \<and> intena (mycpu m1) then intr_on m1 else m1)"

definition droppable :: "lockid \<Rightarrow> machine \<Rightarrow> bool" where
  "droppable l m \<longleftrightarrow> holding l m \<and> \<not> intr_get m \<and> 1 \<le> noff (mycpu m)"

lemma release_m_eq: "droppable l m \<Longrightarrow> release_m l m = Ret () (dropped l m)"
  by (simp add: release_m_def release_enter_def clear_owner_def lock_release_def pop_off_def
      km_simps droppable_def dropped_def Let_def)
    (simp add: set_spin_def)

lemma mycpu_taken [simp]: "noff (mycpu (taken l m)) = noff (mycpu m) + 1"
  "cproc (mycpu (taken l m)) = cproc (mycpu m)"
  "cproc (mycpu (quiet m)) = cproc (mycpu m)" "noff (mycpu (quiet m)) = noff (mycpu m)"
  by (auto simp: taken_def quiet_def)

lemma intr_get_taken [simp]: "\<not> intr_get (taken l m)"
  by (simp add: taken_def)

lemma sane_quiet [simp]: "sane m \<Longrightarrow> sane (quiet m)"
  by (auto simp: sane_def)

lemma sane_taken [simp]: "sane m \<Longrightarrow> sane (taken l m)"
  by (auto simp: sane_def taken_def)

lemma droppable_taken [simp]: "sane m \<Longrightarrow> droppable l (taken l m)"
  by (auto simp: droppable_def holding_iff sane_def taken_def)

lemma droppable_under [simp]:
  "sane m \<Longrightarrow> l \<noteq> p \<Longrightarrow> droppable l (taken p (taken l m))"
  by (auto simp: droppable_def holding_iff sane_def taken_def)

lemma quiet_quiet [simp]: "quiet (quiet m) = quiet m"
  by (simp add: quiet_def set_mycpu_def mycpu_def cpuid_def intr_get_iff)

lemma taken_quiet [simp]: "taken l (quiet m) = taken l m"
  by (simp add: taken_def)

lemma quiet_taken [simp]: "sane m \<Longrightarrow> quiet (taken l m) = taken l m"
  by (simp add: quiet_def sane_def)

lemma set_mycpu_noff_back:
  "set_mycpu (\<lambda>c. c\<lparr>noff := noff c - 1\<rparr>) (set_mycpu (\<lambda>c. c\<lparr>noff := noff c + 1\<rparr>) m) = m"
  by (simp add: set_mycpu_def)

lemma set_spin_back:
  "locked (spin m l) = 0 \<Longrightarrow> lcpu (spin m l) = None \<Longrightarrow>
     set_spin l (\<lambda>k. k\<lparr>lcpu := None, locked := 0\<rparr>)
       (set_spin l (\<lambda>k. k\<lparr>locked := 1, lcpu := Some h\<rparr>) m) = m"
proof -
  assume "locked (spin m l) = 0" "lcpu (spin m l) = None"
  then have "(spin m l)\<lparr>lcpu := None, locked := 0\<rparr> = spin m l" by (cases "spin m l") simp
  then show ?thesis by (simp add: set_spin_def)
qed

lemma dropped_taken [simp]:
  assumes "sane m" and "l \<notin> held m"
  shows "dropped l (taken l m) = quiet m"
proof -
  let ?m1 = "set_mycpu (\<lambda>c. c\<lparr>noff := noff c + 1\<rparr>) (intr_off (quiet m))"
  from assms have free: "locked (spin ?m1 l) = 0" "lcpu (spin ?m1 l) = None"
    by (simp_all add: sane_def notin_held)
  have undo: "set_mycpu (\<lambda>c. c\<lparr>noff := noff c - 1\<rparr>)
      (set_spin l (\<lambda>k. k\<lparr>lcpu := None, locked := 0\<rparr>) (taken l m)) = intr_off (quiet m)"
    unfolding taken_def by (simp only: set_spin_back [OF free] set_mycpu_noff_back)
  show ?thesis
  proof (cases "noff (mycpu m) = 0")
    case True
    then have "intena (mycpu (quiet m)) = intr_get (quiet m)" by (simp add: quiet_def)
    with True show ?thesis
      by (auto simp: dropped_def undo Let_def intr_on_off intr_off_id)
  next
    case False
    with assms(1) have "\<not> intr_get (quiet m)" by (auto simp: sane_def)
    with False show ?thesis
      by (simp add: dropped_def undo Let_def intr_off_id)
  qed
qed

lemma taken_commute: "sane m \<Longrightarrow> l \<noteq> p \<Longrightarrow> taken p (taken l m) = taken l (taken p m)"
  by (simp add: taken_def quiet_def sane_def intr_off_def w_sstatus_def r_sstatus_def
      set_mycpu_def set_spin_def mycpu_def cpuid_def fun_upd_twist)

lemma dropped_under [simp]:
  assumes "sane m" "l \<noteq> p" "l \<notin> held m"
  shows "dropped l (taken p (taken l m)) = taken p m"
proof -
  have "dropped l (taken p (taken l m)) = dropped l (taken l (taken p m))"
    using assms by (simp add: taken_commute)
  also have "\<dots> = quiet (taken p m)" using assms by simp
  finally show ?thesis using assms by simp
qed

lemma acquire_eq [km_simps]:
  "l \<notin> held (mach s) \<Longrightarrow> acquire l s = Ret () (s\<lparr>mach := taken l (mach s)\<rparr>)"
  by (simp add: acquire_def on_mach_def acquire_m_free)

lemma release_eq [km_simps]:
  "droppable l (mach s) \<Longrightarrow> release l s = Ret () (s\<lparr>mach := dropped l (mach s)\<rparr>)"
  by (simp add: release_def on_mach_def release_m_eq)

lemma wp_acquire: "l \<notin> held (mach s) \<Longrightarrow> wp (acquire l) Q s = Q () (s\<lparr>mach := taken l (mach s)\<rparr>)"
  by (simp add: wp_def acquire_eq)

lemma wp_release:
  "droppable l (mach s) \<Longrightarrow> wp (release l) Q s = Q () (s\<lparr>mach := dropped l (mach s)\<rparr>)"
  by (simp add: wp_def release_eq)

definition boot_machine :: machine where
  "boot_machine = \<lparr>tp = 0, sstatus = (\<lambda>_. 0),
     cpus = (\<lambda>_. \<lparr>cproc = None, noff = 0, intena = False\<rparr>),
     spin = (\<lambda>_. \<lparr>locked = 0, lname = [], lcpu = None\<rparr>)\<rparr>"

end
