(* ===== verification/Harts.thy ===== *)
theory Harts
  imports Spinlock
begin

text \<open>
  The primitive steps of \<^verbatim>\<open>acquire\<close> and \<^verbatim>\<open>release\<close> (theory \<open>Spinlock\<close>) run
  interleaved on all harts, with mutual exclusion and the interrupt discipline as
  invariants of every reachable state.
\<close>

section \<open>All harts, interleaved\<close>

text \<open>
  Each hart is between two instructions of the lock code: running, in the spin loop for a
  lock, past a successful swap and before recording itself as the owner, past clearing the
  owner and before the releasing store, or before the final \<^verbatim>\<open>pop_off\<close>. \<open>crit h\<close> is the
  set of locks whose \<^verbatim>\<open>acquire\<close> has returned on hart \<open>h\<close> and whose \<^verbatim>\<open>release\<close> has
  not been called.
\<close>

datatype hpc = Running | Spinning lockid | Won lockid | Leaving lockid | Popping

record harts =
  hm :: machine
  hpcs :: "nat \<Rightarrow> hpc"
  crit :: "nat \<Rightarrow> lockid set"

definition at :: "nat \<Rightarrow> machine \<Rightarrow> machine" where
  "at h m = m\<lparr>tp := h\<rparr>"

definition boot_harts :: harts where
  "boot_harts = \<lparr>hm = boot_machine, hpcs = (\<lambda>_. Running), crit = (\<lambda>_. {})\<rparr>"

inductive hart_step :: "harts \<Rightarrow> harts \<Rightarrow> bool" where
  enter: "hpcs s h = Running \<Longrightarrow> acquire_enter l (at h (hm s)) = Ret () m \<Longrightarrow>
    hart_step s (s\<lparr>hm := m, hpcs := (hpcs s)(h := Spinning l)\<rparr>)"
| spin: "hpcs s h = Spinning l \<Longrightarrow> test_and_set l (at h (hm s)) = Ret old m \<Longrightarrow> old \<noteq> 0 \<Longrightarrow>
    hart_step s (s\<lparr>hm := m\<rparr>)"
| win: "hpcs s h = Spinning l \<Longrightarrow> test_and_set l (at h (hm s)) = Ret 0 m \<Longrightarrow>
    hart_step s (s\<lparr>hm := m, hpcs := (hpcs s)(h := Won l)\<rparr>)"
| own: "hpcs s h = Won l \<Longrightarrow> set_owner l (at h (hm s)) = Ret () m \<Longrightarrow>
    hart_step s (s\<lparr>hm := m, hpcs := (hpcs s)(h := Running),
                   crit := (crit s)(h := insert l (crit s h))\<rparr>)"
| leave: "hpcs s h = Running \<Longrightarrow> release_enter l (at h (hm s)) = Ret () m \<Longrightarrow>
    hart_step s (s\<lparr>hm := m, hpcs := (hpcs s)(h := Leaving l),
                   crit := (crit s)(h := crit s h - {l})\<rparr>)"
| unlock: "hpcs s h = Leaving l \<Longrightarrow> lock_release l (at h (hm s)) = Ret () m \<Longrightarrow>
    hart_step s (s\<lparr>hm := m, hpcs := (hpcs s)(h := Popping)\<rparr>)"
| pop: "hpcs s h = Popping \<Longrightarrow> pop_off (at h (hm s)) = Ret () m \<Longrightarrow>
    hart_step s (s\<lparr>hm := m, hpcs := (hpcs s)(h := Running)\<rparr>)"
| enable: "hpcs s h = Running \<Longrightarrow> noff (cpus (hm s) h) = 0 \<Longrightarrow>
    hart_step s (s\<lparr>hm := intr_on (at h (hm s))\<rparr>)"
| disable: "hpcs s h = Running \<Longrightarrow> hart_step s (s\<lparr>hm := intr_off (at h (hm s))\<rparr>)"

inductive hart_reachable :: "harts \<Rightarrow> bool" where
  hinit: "hart_reachable boot_harts"
| hnext: "hart_reachable s \<Longrightarrow> hart_step s t \<Longrightarrow> hart_reachable t"

text \<open>A hart occupies a lock from the winning swap to the releasing store.\<close>

definition occupies :: "harts \<Rightarrow> nat \<Rightarrow> lockid \<Rightarrow> bool" where
  "occupies s h l \<longleftrightarrow> l \<in> crit s h \<or> hpcs s h = Won l \<or> hpcs s h = Leaving l"

definition excl_inv :: "harts \<Rightarrow> bool" where
  "excl_inv s \<longleftrightarrow>
     (\<forall>l h h'. occupies s h l \<longrightarrow> occupies s h' l \<longrightarrow> h = h') \<and>
     (\<forall>l. locked (spin (hm s) l) = 0 \<longleftrightarrow> (\<forall>h. \<not> occupies s h l)) \<and>
     (\<forall>l h. lcpu (spin (hm s) l) = Some h \<longleftrightarrow> l \<in> crit s h) \<and>
     (\<forall>l h. l \<in> crit s h \<longrightarrow> hpcs s h \<noteq> Won l \<and> hpcs s h \<noteq> Leaving l)"

definition depth_inv :: "harts \<Rightarrow> bool" where
  "depth_inv s \<longleftrightarrow>
     (\<forall>h. finite (crit s h)) \<and>
     (\<forall>h. noff (cpus (hm s) h) =
            int (card (crit s h)) + (if hpcs s h = Running then 0 else 1)) \<and>
     (\<forall>h. 0 < noff (cpus (hm s) h) \<longrightarrow> \<not> bit (sstatus (hm s) h) 1)"

text \<open>What each primitive does, read off at hart \<open>h\<close>.\<close>

definition others_same :: "nat \<Rightarrow> machine \<Rightarrow> machine \<Rightarrow> bool" where
  "others_same h m m' \<longleftrightarrow> (\<forall>k. k \<noteq> h \<longrightarrow> cpus m' k = cpus m k \<and> sstatus m' k = sstatus m k)"

lemma acquire_enter_effect:
  assumes "acquire_enter l (at h m) = Ret () m'"
  shows "spin m' = spin m" "others_same h m m'" "noff (cpus m' h) = noff (cpus m h) + 1"
    "\<not> bit (sstatus m' h) 1" "locked (spin m l) = 0 \<or> lcpu (spin m l) \<noteq> Some h"
proof -
  let ?m1 = "set_mycpu (\<lambda>c. c\<lparr>noff := noff c + 1\<rparr>) (intr_off (quiet (at h m)))"
  from assms have m': "m' = ?m1"
    and hold: "locked (spin m l) = 0 \<or> lcpu (spin m l) \<noteq> Some h"
    by (auto simp: acquire_enter_def km_simps push_off_eq holding_iff at_def quiet_def
        intr_off_def w_sstatus_def r_sstatus_def set_mycpu_def mycpu_def cpuid_def
        split: if_splits)
  show "spin m' = spin m" by (simp add: m' at_def)
  show "others_same h m m'" "noff (cpus m' h) = noff (cpus m h) + 1"
    by (auto simp: m' others_same_def at_def quiet_def set_mycpu_def intr_off_def w_sstatus_def
        r_sstatus_def)
  have "tp ?m1 = h" by (simp add: at_def)
  moreover have "\<not> intr_get ?m1" by simp
  ultimately show "\<not> bit (sstatus m' h) 1" by (simp add: m' intr_get_iff)
  show "locked (spin m l) = 0 \<or> lcpu (spin m l) \<noteq> Some h" by (rule hold)
qed

lemma test_and_set_effect:
  assumes "test_and_set l (at h m) = Ret old m'"
  shows "old = locked (spin m l)" "spin m' = (spin m)(l := (spin m l)\<lparr>locked := 1\<rparr>)"
    "cpus m' = cpus m" "sstatus m' = sstatus m"
  using assms by (auto simp: test_and_set_def km_simps at_def set_spin_def)

lemma set_owner_effect:
  assumes "set_owner l (at h m) = Ret () m'"
  shows "spin m' = (spin m)(l := (spin m l)\<lparr>lcpu := Some h\<rparr>)"
    "cpus m' = cpus m" "sstatus m' = sstatus m"
  using assms by (auto simp: set_owner_def km_simps at_def set_spin_def cpuid_def)

lemma release_enter_effect:
  assumes "release_enter l (at h m) = Ret () m'"
  shows "locked (spin m l) \<noteq> 0" "lcpu (spin m l) = Some h"
    "spin m' = (spin m)(l := (spin m l)\<lparr>lcpu := None\<rparr>)"
    "cpus m' = cpus m" "sstatus m' = sstatus m"
  using assms by (auto simp: release_enter_def clear_owner_def km_simps at_def set_spin_def
      holding_iff split: if_splits)

lemma lock_release_effect:
  assumes "lock_release l (at h m) = Ret () m'"
  shows "spin m' = (spin m)(l := (spin m l)\<lparr>locked := 0\<rparr>)"
    "cpus m' = cpus m" "sstatus m' = sstatus m"
  using assms by (auto simp: lock_release_def km_simps at_def set_spin_def)

lemma pop_off_effect:
  assumes "pop_off (at h m) = Ret () m'"
  shows "spin m' = spin m" "others_same h m m'" "noff (cpus m' h) = noff (cpus m h) - 1"
    "0 < noff (cpus m' h) \<longrightarrow> sstatus m' h = sstatus m h"
  using assms
  by (auto simp: pop_off_def km_simps others_same_def at_def set_mycpu_def mycpu_def cpuid_def
      intr_on_def w_sstatus_def r_sstatus_def split: if_splits)

lemmas lock_effects =
  acquire_enter_effect test_and_set_effect set_owner_effect release_enter_effect
  lock_release_effect pop_off_effect

lemma excl_inv_boot: "excl_inv boot_harts"
  by (simp add: excl_inv_def occupies_def boot_harts_def boot_machine_def)

lemma excl_invD:
  assumes "excl_inv s"
  shows "occupies s h l \<Longrightarrow> occupies s h' l \<Longrightarrow> h = h'"
    and "locked (spin (hm s) l) = 0 \<longleftrightarrow> (\<forall>h. \<not> occupies s h l)"
    and "lcpu (spin (hm s) l) = Some h \<longleftrightarrow> l \<in> crit s h"
    and "l \<in> crit s h \<Longrightarrow> hpcs s h \<noteq> Won l \<and> hpcs s h \<noteq> Leaving l"
  using assms unfolding excl_inv_def by blast+

lemma excl_invI:
  assumes "\<And>l h h'. occupies s h l \<Longrightarrow> occupies s h' l \<Longrightarrow> h = h'"
    and "\<And>l. locked (spin (hm s) l) = 0 \<longleftrightarrow> (\<forall>h. \<not> occupies s h l)"
    and "\<And>l h. lcpu (spin (hm s) l) = Some h \<longleftrightarrow> l \<in> crit s h"
    and "\<And>l h. l \<in> crit s h \<Longrightarrow> hpcs s h \<noteq> Won l \<and> hpcs s h \<noteq> Leaving l"
  shows "excl_inv s"
  unfolding excl_inv_def using assms by blast

text \<open>A step that changes who occupies no lock keeps the invariant.\<close>

lemma excl_inv_same:
  assumes inv: "excl_inv s"
    and occ: "\<And>k l. occupies t k l = occupies s k l"
    and lk: "\<And>l. locked (spin (hm t) l) = 0 \<longleftrightarrow> locked (spin (hm s) l) = 0"
    and ow: "\<And>l k. lcpu (spin (hm t) l) = Some k \<longleftrightarrow> l \<in> crit t k"
    and pc: "\<And>l k. l \<in> crit t k \<Longrightarrow> hpcs t k \<noteq> Won l \<and> hpcs t k \<noteq> Leaving l"
  shows "excl_inv t"
proof (rule excl_invI)
  show "k = k'" if "occupies t k l" "occupies t k' l" for l k k'
    using that excl_invD(1) [OF inv, of k l k'] by (simp add: occ)
  show "locked (spin (hm t) l) = 0 \<longleftrightarrow> (\<forall>k. \<not> occupies t k l)" for l
    by (simp add: occ lk excl_invD(2) [OF inv])
qed (simp_all add: ow pc)

lemma excl_inv_win:
  assumes pc: "hpcs s h = Spinning l" and tas: "test_and_set l (at h (hm s)) = Ret 0 m"
    and inv: "excl_inv s"
  shows "excl_inv (s\<lparr>hm := m, hpcs := (hpcs s)(h := Won l)\<rparr>)" (is "excl_inv ?t")
proof -
  note e = test_and_set_effect [OF tas]
  have none: "\<not> occupies s k l" for k using excl_invD(2) [OF inv, of l] e(1) by simp
  have occ: "occupies ?t k l' \<longleftrightarrow> occupies s k l' \<or> (k = h \<and> l' = l)" for k l'
    using pc by (auto simp: occupies_def)
  have lk: "locked (spin (hm ?t) l') = 0 \<longleftrightarrow> locked (spin (hm s) l') = 0 \<and> l' \<noteq> l" for l'
    by (simp add: e(2))
  have "l \<notin> crit s k" for k using none [of k] by (simp add: occupies_def)
  then have pcs: "l' \<in> crit ?t k \<Longrightarrow> hpcs ?t k \<noteq> Won l' \<and> hpcs ?t k \<noteq> Leaving l'" for k l'
    using excl_invD(4) [OF inv, of l' k] by auto
  have ow: "lcpu (spin (hm ?t) l') = Some k \<longleftrightarrow> l' \<in> crit ?t k" for l' k
    using excl_invD(3) [OF inv] by (simp add: e(2))
  show ?thesis
  proof (rule excl_invI)
    show "k = k'" if "occupies ?t k l'" "occupies ?t k' l'" for l' k k'
      using that none excl_invD(1) [OF inv, of k l' k'] unfolding occ by auto
    show "locked (spin (hm ?t) l') = 0 \<longleftrightarrow> (\<forall>k. \<not> occupies ?t k l')" for l'
      unfolding occ lk excl_invD(2) [OF inv, of l'] by auto
  qed (use ow pcs in auto)
qed

lemma excl_inv_unlock:
  assumes pc: "hpcs s h = Leaving l" and rel: "lock_release l (at h (hm s)) = Ret () m"
    and inv: "excl_inv s"
  shows "excl_inv (s\<lparr>hm := m, hpcs := (hpcs s)(h := Popping)\<rparr>)" (is "excl_inv ?t")
proof -
  note e = lock_release_effect [OF rel]
  have me: "occupies s h l" using pc by (simp add: occupies_def)
  have notin: "l \<notin> crit s h" using excl_invD(4) [OF inv, of l h] pc by blast
  have occ: "occupies ?t k l' \<longleftrightarrow> occupies s k l' \<and> \<not> (k = h \<and> l' = l)" for k l'
    using pc notin by (auto simp: occupies_def)
  have lk: "locked (spin (hm ?t) l') = 0 \<longleftrightarrow> locked (spin (hm s) l') = 0 \<or> l' = l" for l'
    by (simp add: e(1))
  have ow: "lcpu (spin (hm ?t) l') = Some k \<longleftrightarrow> l' \<in> crit ?t k" for l' k
    using excl_invD(3) [OF inv] by (simp add: e(1))
  have pcs: "l' \<in> crit ?t k \<Longrightarrow> hpcs ?t k \<noteq> Won l' \<and> hpcs ?t k \<noteq> Leaving l'" for k l'
    using excl_invD(4) [OF inv, of l' k] by auto
  show ?thesis
  proof (rule excl_invI)
    show "k = k'" if "occupies ?t k l'" "occupies ?t k' l'" for l' k k'
      using that excl_invD(1) [OF inv, of k l' k'] unfolding occ by auto
    show "locked (spin (hm ?t) l') = 0 \<longleftrightarrow> (\<forall>k. \<not> occupies ?t k l')" for l'
      using me excl_invD(1) [OF inv, of _ l h] unfolding occ lk excl_invD(2) [OF inv, of l'] by blast
  qed (use ow pcs in auto)
qed

lemma excl_inv_own:
  assumes pc: "hpcs s h = Won l" and own: "set_owner l (at h (hm s)) = Ret () m"
    and inv: "excl_inv s"
  shows "excl_inv (s\<lparr>hm := m, hpcs := (hpcs s)(h := Running),
                      crit := (crit s)(h := insert l (crit s h))\<rparr>)" (is "excl_inv ?t")
proof (rule excl_inv_same [OF inv])
  note e = set_owner_effect [OF own]
  have "occupies s h l" using pc by (simp add: occupies_def)
  then have only: "\<not> l \<in> crit s k" for k
    using excl_invD(1) [OF inv, of k l h] excl_invD(4) [OF inv, of l k] pc
    by (auto simp: occupies_def)
  show "occupies ?t k l' = occupies s k l'" for k l' using pc by (auto simp: occupies_def)
  show "locked (spin (hm ?t) l') = 0 \<longleftrightarrow> locked (spin (hm s) l') = 0" for l' by (simp add: e(1))
  show "lcpu (spin (hm ?t) l') = Some k \<longleftrightarrow> l' \<in> crit ?t k" for l' k
    using excl_invD(3) [OF inv, of l' k] only [of k] by (auto simp: e(1))
  show "hpcs ?t k \<noteq> Won l' \<and> hpcs ?t k \<noteq> Leaving l'" if "l' \<in> crit ?t k" for l' k
    using excl_invD(4) [OF inv, of l' k] that by (auto split: if_splits)
qed

lemma excl_inv_leave:
  assumes pc: "hpcs s h = Running" and rel: "release_enter l (at h (hm s)) = Ret () m"
    and inv: "excl_inv s"
  shows "excl_inv (s\<lparr>hm := m, hpcs := (hpcs s)(h := Leaving l),
                      crit := (crit s)(h := crit s h - {l})\<rparr>)" (is "excl_inv ?t")
proof (rule excl_inv_same [OF inv])
  note e = release_enter_effect [OF rel]
  have mine: "l \<in> crit s h" using e(2) excl_invD(3) [OF inv, of l h] by simp
  then have only: "l \<in> crit s k \<Longrightarrow> k = h" for k
    using excl_invD(1) [OF inv, of k l h] by (simp add: occupies_def)
  show "occupies ?t k l' = occupies s k l'" for k l'
    using pc mine by (auto simp: occupies_def)
  show "locked (spin (hm ?t) l') = 0 \<longleftrightarrow> locked (spin (hm s) l') = 0" for l' by (simp add: e(3))
  show "lcpu (spin (hm ?t) l') = Some k \<longleftrightarrow> l' \<in> crit ?t k" for l' k
    using excl_invD(3) [OF inv, of l' k] only [of k] by (auto simp: e(3))
  show "hpcs ?t k \<noteq> Won l' \<and> hpcs ?t k \<noteq> Leaving l'" if "l' \<in> crit ?t k" for l' k
    using excl_invD(4) [OF inv, of l' k] that by (auto split: if_splits)
qed

lemma excl_inv_step: "hart_step s t \<Longrightarrow> excl_inv s \<Longrightarrow> excl_inv t"
proof (induction rule: hart_step.induct)
  case (enter s h l m)
  note e = acquire_enter_effect [OF enter(2)]
  show ?case by (rule excl_inv_same [OF enter(3)])
      (use enter(1) e(1) excl_invD [OF enter(3)] in \<open>auto simp: occupies_def\<close>)
next
  case (spin s h l old m)
  note e = test_and_set_effect [OF spin(2)]
  show ?case by (rule excl_inv_same [OF spin(4)])
      (use spin(1,3) e excl_invD [OF spin(4)] in \<open>auto simp: occupies_def\<close>)
next
  case (win s h l m)
  then show ?case by (rule excl_inv_win)
next
  case (own s h l m)
  then show ?case by (rule excl_inv_own)
next
  case (leave s h l m)
  then show ?case by (rule excl_inv_leave)
next
  case (unlock s h l m)
  then show ?case by (rule excl_inv_unlock)
next
  case (pop s h m)
  note e = pop_off_effect [OF pop(2)]
  show ?case by (rule excl_inv_same [OF pop(3)])
      (use pop(1) e(1) excl_invD [OF pop(3)] in \<open>auto simp: occupies_def\<close>)
next
  case (enable s h)
  show ?case by (rule excl_inv_same [OF enable(3)])
      (use excl_invD [OF enable(3)] in \<open>auto simp: occupies_def at_def\<close>)
next
  case (disable s h)
  show ?case by (rule excl_inv_same [OF disable(2)])
      (use excl_invD [OF disable(2)] in \<open>auto simp: occupies_def at_def\<close>)
qed

lemma depth_inv_boot: "depth_inv boot_harts"
  by (simp add: depth_inv_def boot_harts_def boot_machine_def)

lemma depth_invD:
  assumes "depth_inv s"
  shows "finite (crit s h)"
    and "noff (cpus (hm s) h) = int (card (crit s h)) + (if hpcs s h = Running then 0 else 1)"
    and "0 < noff (cpus (hm s) h) \<Longrightarrow> \<not> bit (sstatus (hm s) h) 1"
  using assms unfolding depth_inv_def by blast+

text \<open>A step of hart \<open>h\<close> keeps the invariant if it does so at \<open>h\<close>.\<close>

lemma depth_inv_at:
  assumes inv: "depth_inv s" and oth: "others_same h (hm s) (hm t)"
    and pc: "\<And>k. k \<noteq> h \<Longrightarrow> hpcs t k = hpcs s k" and cr: "\<And>k. k \<noteq> h \<Longrightarrow> crit t k = crit s k"
    and h: "finite (crit t h)"
      "noff (cpus (hm t) h) = int (card (crit t h)) + (if hpcs t h = Running then 0 else 1)"
      "0 < noff (cpus (hm t) h) \<Longrightarrow> \<not> bit (sstatus (hm t) h) 1"
  shows "depth_inv t"
  unfolding depth_inv_def
proof (intro conjI allI impI)
  fix k
  show "finite (crit t k)" using h(1) cr [of k] depth_invD(1) [OF inv, of k] by (cases "k = h") auto
  show "noff (cpus (hm t) k) = int (card (crit t k)) + (if hpcs t k = Running then 0 else 1)"
    using h(2) cr [of k] pc [of k] oth depth_invD(2) [OF inv, of k]
    by (cases "k = h") (simp_all add: others_same_def)
  assume "0 < noff (cpus (hm t) k)"
  then show "\<not> bit (sstatus (hm t) k) 1"
    using h(3) oth depth_invD(3) [OF inv, of k] by (cases "k = h") (simp_all add: others_same_def)
qed

lemma others_same_refl:
  "cpus m' = cpus m \<Longrightarrow> sstatus m' = sstatus m \<Longrightarrow> others_same h m m'"
  by (simp add: others_same_def)

lemma depth_inv_step:
  "hart_step s t \<Longrightarrow> excl_inv s \<Longrightarrow> depth_inv s \<Longrightarrow> depth_inv t"
proof (induction rule: hart_step.induct)
  case (enter s h l m)
  note e = acquire_enter_effect [OF enter(2)] and d = depth_invD [OF enter(4), of h]
  show ?case by (rule depth_inv_at [OF enter(4), of h]) (use e d enter(1) in simp_all)
next
  case (spin s h l old m)
  note e = test_and_set_effect [OF spin(2)] and d = depth_invD [OF spin(5), of h]
  show ?case by (rule depth_inv_at [OF spin(5), of h])
      (use e d spin(1) in \<open>simp_all add: others_same_refl\<close>)
next
  case (win s h l m)
  note e = test_and_set_effect [OF win(2)] and d = depth_invD [OF win(4), of h]
  show ?case by (rule depth_inv_at [OF win(4), of h])
      (use e d win(1) in \<open>simp_all add: others_same_refl\<close>)
next
  case (own s h l m)
  note e = set_owner_effect [OF own(2)] and d = depth_invD [OF own(4), of h]
  have "l \<notin> crit s h" using excl_invD(4) [OF own(3), of l h] own(1) by blast
  then show ?case by (intro depth_inv_at [OF own(4), of h])
      (use e d own(1) in \<open>simp_all add: others_same_refl\<close>)
next
  case (leave s h l m)
  note e = release_enter_effect [OF leave(2)] and d = depth_invD [OF leave(4), of h]
  have l: "l \<in> crit s h" using e(2) excl_invD(3) [OF leave(3), of l h] by simp
  then have "int (card (crit s h)) = int (card (crit s h - {l})) + 1"
    using d(1) by (metis card_Suc_Diff1 of_nat_Suc add.commute)
  then show ?case by (intro depth_inv_at [OF leave(4), of h])
      (use e d leave(1) in \<open>simp_all add: others_same_refl\<close>)
next
  case (unlock s h l m)
  note e = lock_release_effect [OF unlock(2)] and d = depth_invD [OF unlock(4), of h]
  show ?case by (rule depth_inv_at [OF unlock(4), of h])
      (use e d unlock(1) in \<open>simp_all add: others_same_refl\<close>)
next
  case (pop s h m)
  note e = pop_off_effect [OF pop(2)] and d = depth_invD [OF pop(4), of h]
  show ?case by (rule depth_inv_at [OF pop(4), of h]) (use e d pop(1) in simp_all)
next
  case (enable s h)
  note d = depth_invD [OF enable(4), of h]
  show ?case by (rule depth_inv_at [OF enable(4), of h])
      (use d enable(1,2) in \<open>simp_all add: others_same_def at_def intr_on_def w_sstatus_def\<close>)
next
  case (disable s h)
  note d = depth_invD [OF disable(3), of h]
  show ?case by (rule depth_inv_at [OF disable(3), of h])
      (use d disable(1) in \<open>simp_all add: others_same_def at_def intr_off_def w_sstatus_def
        r_sstatus_def bit_simps\<close>)
qed

lemma reachable_invs: "hart_reachable s \<Longrightarrow> excl_inv s \<and> depth_inv s"
proof (induction rule: hart_reachable.induct)
  case hinit
  show ?case by (simp add: excl_inv_boot depth_inv_boot)
next
  case (hnext s t)
  then show ?case using excl_inv_step depth_inv_step by blast
qed

section \<open>Properties\<close>

lemma hart_reachable_holds:
  "\<exists>s. hart_reachable s \<and> hpcs s 0 = Running \<and> KmemLock \<in> crit s 0"
proof -
  let ?b = "boot_harts"
  obtain m1 where m1: "acquire_enter KmemLock (at 0 (hm ?b)) = Ret () m1"
    by (simp add: acquire_enter_def km_simps push_off_eq holding_iff at_def boot_harts_def
        boot_machine_def)
  let ?s1 = "?b\<lparr>hm := m1, hpcs := (hpcs ?b)(0 := Spinning KmemLock)\<rparr>"
  have s1: "hart_step ?b ?s1" by (rule hart_step.enter [OF _ m1]) (simp add: boot_harts_def)
  have "locked (spin m1 KmemLock) = 0"
    using acquire_enter_effect(1) [OF m1] by (simp add: boot_harts_def boot_machine_def)
  then obtain m2 where m2: "test_and_set KmemLock (at 0 (hm ?s1)) = Ret 0 m2"
    by (simp add: test_and_set_def km_simps at_def)
  let ?s2 = "?s1\<lparr>hm := m2, hpcs := (hpcs ?s1)(0 := Won KmemLock)\<rparr>"
  have s2: "hart_step ?s1 ?s2" by (rule hart_step.win [OF _ m2]) simp
  obtain m3 where m3: "set_owner KmemLock (at 0 (hm ?s2)) = Ret () m3"
    by (simp add: set_owner_def km_simps)
  let ?s3 = "?s2\<lparr>hm := m3, hpcs := (hpcs ?s2)(0 := Running),
                  crit := (crit ?s2)(0 := insert KmemLock (crit ?s2 0))\<rparr>"
  have s3: "hart_step ?s2 ?s3" by (rule hart_step.own [OF _ m3]) simp
  have "hart_reachable ?s3"
    by (intro hart_reachable.hnext [OF _ s3] hart_reachable.hnext [OF _ s2]
        hart_reachable.hnext [OF _ s1] hart_reachable.hinit)
  moreover have "hpcs ?s3 0 = Running" "KmemLock \<in> crit ?s3 0" by simp_all
  ultimately show ?thesis by blast
qed

text \<open>
  C2: in every interleaving of the instructions of \<^verbatim>\<open>acquire\<close> and \<^verbatim>\<open>release\<close> on the
  harts, at most one hart is between the return of \<^verbatim>\<open>acquire(lk)\<close> and the call of
  \<^verbatim>\<open>release(lk)\<close>, that hart is the one \<^verbatim>\<open>holding(lk)\<close> answers for, and its interrupts
  are off.
\<close>

theorem lock_mutual_exclusion:
  assumes "hart_reachable s" and "l \<in> crit s h"
  shows "(\<forall>h'. l \<in> crit s h' \<longrightarrow> h' = h) \<and> (\<forall>h'. holding l (at h' (hm s)) \<longleftrightarrow> h' = h)
    \<and> \<not> intr_get (at h (hm s))"
proof -
  from assms(1) have x: "excl_inv s" and d: "depth_inv s" using reachable_invs by blast+
  have one: "l \<in> crit s h' \<Longrightarrow> h' = h" for h'
    using excl_invD(1) [OF x, of h' l h] assms(2) by (simp add: occupies_def)
  have "occupies s h l" using assms(2) by (simp add: occupies_def)
  then have "locked (spin (hm s) l) \<noteq> 0" using excl_invD(2) [OF x, of l] by auto
  moreover have "lcpu (spin (hm s) l) = Some h" using excl_invD(3) [OF x, of l h] assms(2) by simp
  moreover have "card (crit s h) \<noteq> 0" using depth_invD(1) [OF d, of h] assms(2) by auto
  then have "\<not> bit (sstatus (hm s) h) 1"
    using depth_invD(2,3) [OF d, of h] by (simp split: if_splits)
  ultimately show ?thesis using one by (auto simp: holding_iff at_def intr_get_iff)
qed

theorem lock_mutual_exclusion_witness:
  "\<exists>s. hart_reachable s \<and> KmemLock \<in> crit s 0
     \<and> (\<forall>h'. KmemLock \<in> crit s h' \<longrightarrow> h' = 0) \<and> \<not> intr_get (at 0 (hm s))"
  using hart_reachable_holds lock_mutual_exclusion [of _ KmemLock 0] by blast

text \<open>
  C23: the lock code never panics when it is used in pairs: a hart that holds a lock
  can release it, and the \<^verbatim>\<open>pop_off\<close> that ends \<^verbatim>\<open>release\<close> finds interrupts off and a
  positive nesting depth.
\<close>

theorem release_never_panics:
  assumes "hart_reachable s"
  shows "(hpcs s h = Running \<and> l \<in> crit s h \<longrightarrow> (\<exists>m. release_enter l (at h (hm s)) = Ret () m))
    \<and> (hpcs s h = Popping \<longrightarrow> (\<exists>m. pop_off (at h (hm s)) = Ret () m))"
proof (intro conjI impI)
  from assms have x: "excl_inv s" and d: "depth_inv s" using reachable_invs by blast+
  assume "hpcs s h = Running \<and> l \<in> crit s h"
  then have "occupies s h l" and o: "lcpu (spin (hm s) l) = Some h"
    using excl_invD(3) [OF x, of l h] by (auto simp: occupies_def)
  then have "locked (spin (hm s) l) \<noteq> 0" using excl_invD(2) [OF x, of l] by auto
  with o show "\<exists>m. release_enter l (at h (hm s)) = Ret () m"
    by (simp add: release_enter_def clear_owner_def km_simps holding_iff at_def)
next
  from assms have d: "depth_inv s" using reachable_invs by blast
  assume "hpcs s h = Popping"
  then have "0 < noff (cpus (hm s) h)" and "\<not> bit (sstatus (hm s) h) 1"
    using depth_invD(2,3) [OF d, of h] by simp_all
  then show "\<exists>m. pop_off (at h (hm s)) = Ret () m"
    by (simp add: pop_off_def km_simps intr_get_iff at_def mycpu_def cpuid_def)
qed

theorem release_never_panics_witness:
  "\<exists>s m. hart_reachable s \<and> KmemLock \<in> crit s 0 \<and>
     release_enter KmemLock (at 0 (hm s)) = Ret () m"
  using hart_reachable_holds release_never_panics [of _ 0 KmemLock] by blast

end
