(* ===== verification/Kstring.thy ===== *)
theory Kstring
  imports Prelude
begin

text \<open>
  string.c: the memory routines act on a byte array (the physical memory, or the object the
  pointers point into), addresses being offsets into it. A C string is the list of bytes
  from the pointer on; the byte after the last one of the list reads as NUL (string
  literals carry their terminator implicitly). The copying string routines return the bytes
  they store, in order, starting at the destination.
\<close>

section \<open>Definitions\<close>

definition memset :: "nat \<Rightarrow> u8 \<Rightarrow> nat \<Rightarrow> bytes \<Rightarrow> bytes" where
  "memset dst c n m = fold (\<lambda>i m. m(dst + i := c)) [0..<n] m"

fun memcmp :: "nat \<Rightarrow> nat \<Rightarrow> nat \<Rightarrow> bytes \<Rightarrow> int" where
  "memcmp s1 s2 0 m = 0"
| "memcmp s1 s2 (Suc n) m =
     (if m s1 \<noteq> m s2 then uint (m s1) - uint (m s2) else memcmp (Suc s1) (Suc s2) n m)"

fun copy_up :: "nat \<Rightarrow> nat \<Rightarrow> nat \<Rightarrow> bytes \<Rightarrow> bytes" where
  "copy_up d s 0 m = m"
| "copy_up d s (Suc n) m = copy_up (Suc d) (Suc s) n (m(d := m s))"

fun copy_down :: "nat \<Rightarrow> nat \<Rightarrow> nat \<Rightarrow> bytes \<Rightarrow> bytes" where
  "copy_down d s 0 m = m"
| "copy_down d s (Suc n) m = copy_down d s n (m(d + n := m (s + n)))"

definition memmove :: "nat \<Rightarrow> nat \<Rightarrow> nat \<Rightarrow> bytes \<Rightarrow> bytes" where
  "memmove d s n m =
     (if n = 0 then m
      else if s < d \<and> s + n > d then copy_down d s n m
      else copy_up d s n m)"

definition memcpy :: "nat \<Rightarrow> nat \<Rightarrow> nat \<Rightarrow> bytes \<Rightarrow> bytes" where
  "memcpy d s n m = memmove d s n m"

text \<open>The byte a string pointer points at, and the pointer advanced by one.\<close>

definition deref :: "u8 list \<Rightarrow> u8" where
  "deref t = (case t of [] \<Rightarrow> 0 | c # _ \<Rightarrow> c)"

fun strncmp :: "u8 list \<Rightarrow> u8 list \<Rightarrow> nat \<Rightarrow> int" where
  "strncmp p q 0 = 0"
| "strncmp p q (Suc n) =
     (if deref p \<noteq> 0 \<and> deref p = deref q then strncmp (tl p) (tl q) n
      else uint (deref p) - uint (deref q))"

fun strncpy :: "u8 list \<Rightarrow> nat \<Rightarrow> u8 list" where
  "strncpy t 0 = []"
| "strncpy t (Suc n) =
     deref t # (if deref t \<noteq> 0 then strncpy (tl t) n else replicate n 0)"

fun safestrcpy :: "u8 list \<Rightarrow> nat \<Rightarrow> u8 list" where
  "safestrcpy t 0 = []"
| "safestrcpy t (Suc 0) = [0]"
| "safestrcpy t (Suc (Suc n)) =
     deref t # (if deref t \<noteq> 0 then safestrcpy (tl t) (Suc n) else [0])"

fun strlen :: "u8 list \<Rightarrow> nat" where
  "strlen [] = 0"
| "strlen (c # s) = (if c = 0 then 0 else Suc (strlen s))"

section \<open>Closed forms\<close>

lemma memset_apply:
  "memset dst c n m x = (if dst \<le> x \<and> x < dst + n then c else m x)"
proof (induction n)
  case 0
  then show ?case by (auto simp: memset_def)
next
  case (Suc n)
  then show ?case by (auto simp: memset_def)
qed

lemma memset_eq_wr: "memset dst c n m = wr m dst (replicate n c)"
  by (rule ext) (auto simp: memset_apply wr_def)

lemma copy_up_apply:
  "d \<le> s \<or> s + n \<le> d \<Longrightarrow>
     copy_up d s n m x = (if d \<le> x \<and> x < d + n then m (s + (x - d)) else m x)"
proof (induction n arbitrary: d s m)
  case 0
  then show ?case by auto
next
  case (Suc n)
  then have "copy_up (Suc d) (Suc s) n (m(d := m s)) x =
      (if Suc d \<le> x \<and> x < Suc d + n then (m(d := m s)) (Suc s + (x - Suc d)) else (m(d := m s)) x)"
    by (intro Suc.IH) auto
  with Suc.prems show ?case by (cases "x = d") (auto simp: Suc_diff_Suc)
qed

lemma copy_down_apply:
  "s \<le> d \<Longrightarrow>
     copy_down d s n m x = (if d \<le> x \<and> x < d + n then m (s + (x - d)) else m x)"
proof (induction n arbitrary: m)
  case 0
  then show ?case by auto
next
  case (Suc n)
  then have "copy_down d s n (m(d + n := m (s + n))) x =
      (if d \<le> x \<and> x < d + n then (m(d + n := m (s + n))) (s + (x - d)) else (m(d + n := m (s + n))) x)"
    by (intro Suc.IH)
  with Suc.prems show ?case by (simp del: fun_upd_apply) auto
qed

lemma memmove_apply:
  "memmove d s n m x = (if d \<le> x \<and> x < d + n then m (s + (x - d)) else m x)"
  by (auto simp: memmove_def copy_down_apply copy_up_apply)

lemma memmove_eq_wr: "memmove d s n m = wr m d (rd m s n)"
  by (rule ext) (auto simp: memmove_apply wr_def)

lemma length_strncpy [simp]: "length (strncpy t n) = n"
  by (induction t n rule: strncpy.induct) auto

lemma strncpy_idem: "strncpy (strncpy t n) n = strncpy t n"
proof (induction t n rule: strncpy.induct)
  case (2 t n)
  have "strncpy (replicate k 0) k = replicate k 0" for k
    by (cases k) (auto simp: deref_def)
  with 2 show ?case by (auto simp: deref_def)
qed simp

lemma uint_diff_0: "uint (a::u8) - uint b = 0 \<longleftrightarrow> a = b"
  by (simp add: word_uint_eq_iff)

lemma safestrcpy_length: "length (safestrcpy t n) \<le> n"
  by (induction t n rule: safestrcpy.induct) auto

lemma strlen_less: "0 \<in> set s \<Longrightarrow> strlen s < length s"
  by (induction s) auto

lemma strlen_le: "strlen s \<le> length s"
  by (induction s) auto

lemma strlen_nth: "i < strlen s \<Longrightarrow> s ! i \<noteq> 0"
  by (induction s arbitrary: i) (auto simp: nth_Cons split: nat.splits if_splits)

section \<open>Properties\<close>

text \<open>
  The destination ends up with the bytes the source had before the call, whatever
  the overlap of the two ranges, and no other byte changes.
\<close>

lemma memmove_correct:
  "rd (memmove d s n m) d n = rd m s n \<and> (\<forall>x. x < d \<or> d + n \<le> x \<longrightarrow> memmove d s n m x = m x)"
  by (auto simp: memmove_eq_wr wr_outside)

text \<open>
  \<^verbatim>\<open>strncmp\<close> answers equality exactly when \<^verbatim>\<open>strncpy\<close> stores the same bytes: the
  directory code may compare a name it is given with a stored, zero-padded one.
\<close>

lemma strncmp_0_iff_strncpy: "strncmp p q n = 0 \<longleftrightarrow> strncpy p n = strncpy q n"
proof (induction p q n rule: strncmp.induct)
  case (1 p q)
  then show ?case by simp
next
  case (2 p q n)
  then show ?case by (auto simp: uint_diff_0 word_uint_eq_iff)
qed

text \<open>\<^verbatim>\<open>safestrcpy\<close> always terminates the destination and copies a prefix of the source.\<close>

lemma safestrcpy_spec:
  "0 < n \<Longrightarrow> last (safestrcpy t n) = 0 \<and> strlen (safestrcpy t n) = min (strlen t) (n - 1)
     \<and> take (strlen (safestrcpy t n)) (safestrcpy t n) = take (min (strlen t) (n - 1)) t"
proof (induction t n rule: safestrcpy.induct)
  case (1 t)
  then show ?case by simp
next
  case (2 t)
  then show ?case by simp
next
  case (3 t n)
  have ne: "safestrcpy t' (Suc k) \<noteq> []" for t' k by (cases k) auto
  show ?case
  proof (cases t)
    case Nil
    then show ?thesis by (simp add: deref_def)
  next
    case (Cons c cs)
    with 3 ne [of cs n] show ?thesis by (auto simp: deref_def)
  qed
qed

end
