(* ===== verification/Memlayout.thy ===== *)
theory Memlayout
  imports Prelude
begin

text \<open>
  The address arithmetic of riscv.h and memlayout.h: page rounding, page-table indices and
  entries, and the fixed addresses of the kernel and user address spaces. Every macro is a
  function on 64-bit words, as in the code; the lemmas give its value as a number.
\<close>

section \<open>riscv.h\<close>

definition PGSIZE :: u64 where "PGSIZE = 4096"
definition PGSHIFT :: nat where "PGSHIFT = 12"

definition PGROUNDUP :: "u64 \<Rightarrow> u64" where
  "PGROUNDUP sz = (sz + PGSIZE - 1) AND NOT (PGSIZE - 1)"

definition PGROUNDDOWN :: "u64 \<Rightarrow> u64" where
  "PGROUNDDOWN a = a AND NOT (PGSIZE - 1)"

definition PTE_V :: u64 where "PTE_V = push_bit 0 1"
definition PTE_R :: u64 where "PTE_R = push_bit 1 1"
definition PTE_W :: u64 where "PTE_W = push_bit 2 1"
definition PTE_X :: u64 where "PTE_X = push_bit 3 1"
definition PTE_U :: u64 where "PTE_U = push_bit 4 1"

definition PA2PTE :: "u64 \<Rightarrow> u64" where
  "PA2PTE pa = push_bit 10 (drop_bit 12 pa)"

definition PTE2PA :: "u64 \<Rightarrow> u64" where
  "PTE2PA pte = push_bit 12 (drop_bit 10 pte)"

definition PTE_FLAGS :: "u64 \<Rightarrow> u64" where
  "PTE_FLAGS pte = pte AND 0x3FF"

definition PXMASK :: u64 where "PXMASK = 0x1FF"

definition PXSHIFT :: "nat \<Rightarrow> nat" where
  "PXSHIFT level = PGSHIFT + 9 * level"

definition PX :: "nat \<Rightarrow> u64 \<Rightarrow> u64" where
  "PX level va = drop_bit (PXSHIFT level) va AND PXMASK"

definition MAXVA :: u64 where "MAXVA = push_bit (9 + 9 + 9 + 12 - 1) 1"

definition SATP_SV39 :: u64 where "SATP_SV39 = push_bit 60 8"

definition MAKE_SATP :: "u64 \<Rightarrow> u64" where
  "MAKE_SATP pagetable = SATP_SV39 OR drop_bit 12 pagetable"

section \<open>memlayout.h\<close>

definition UART0 :: u64 where "UART0 = 0x10000000"
definition UART0_IRQ :: nat where "UART0_IRQ = 10"
definition VIRTIO0 :: u64 where "VIRTIO0 = 0x10001000"
definition VIRTIO0_IRQ :: nat where "VIRTIO0_IRQ = 1"
definition CLINT :: u64 where "CLINT = 0x2000000"
definition CLINT_MTIMECMP :: "nat \<Rightarrow> u64" where
  "CLINT_MTIMECMP hartid = CLINT + 0x4000 + 8 * of_nat hartid"
definition CLINT_MTIME :: u64 where "CLINT_MTIME = CLINT + 0xBFF8"
definition PLIC :: u64 where "PLIC = 0x0c000000"
definition PLIC_SENABLE :: "nat \<Rightarrow> u64" where
  "PLIC_SENABLE hart = PLIC + 0x2080 + of_nat hart * 0x100"
definition PLIC_SPRIORITY :: "nat \<Rightarrow> u64" where
  "PLIC_SPRIORITY hart = PLIC + 0x201000 + of_nat hart * 0x2000"
definition PLIC_SCLAIM :: "nat \<Rightarrow> u64" where
  "PLIC_SCLAIM hart = PLIC + 0x201004 + of_nat hart * 0x2000"
definition KERNBASE :: u64 where "KERNBASE = 0x80000000"
definition PHYSTOP :: u64 where "PHYSTOP = KERNBASE + 128 * 1024 * 1024"
definition TRAMPOLINE :: u64 where "TRAMPOLINE = MAXVA - PGSIZE"
definition KSTACK :: "nat \<Rightarrow> u64" where
  "KSTACK p = TRAMPOLINE - (of_nat p + 1) * 2 * PGSIZE"
definition TRAPFRAME :: u64 where "TRAPFRAME = TRAMPOLINE - PGSIZE"

section \<open>Numeric values\<close>

lemma PTE_bits: "PTE_V = 1" "PTE_R = 2" "PTE_W = 4" "PTE_X = 8" "PTE_U = 16"
  by (simp_all add: PTE_V_def PTE_R_def PTE_W_def PTE_X_def PTE_U_def)

lemma MAXVA_val: "MAXVA = 0x4000000000"
  by (simp add: MAXVA_def)

lemma PHYSTOP_val: "PHYSTOP = 0x88000000"
  by (simp add: PHYSTOP_def KERNBASE_def)

lemma TRAMPOLINE_val: "TRAMPOLINE = 0x3FFFFFF000"
  by (simp add: TRAMPOLINE_def MAXVA_val PGSIZE_def)

lemma TRAPFRAME_val: "TRAPFRAME = 0x3FFFFFE000"
  by (simp add: TRAPFRAME_def TRAMPOLINE_val PGSIZE_def)

lemma unat_PGSIZE [simp]: "unat PGSIZE = 4096"
  by (simp add: PGSIZE_def)

lemma mask12: "(PGSIZE - 1) = mask 12"
  by (simp add: PGSIZE_def mask_eq_exp_minus_1)

lemma and_not_mask12: "(x::u64) AND NOT (mask 12) = push_bit 12 (drop_bit 12 x)"
  by (rule bit_word_eqI) (auto simp: bit_simps)

lemma PGROUNDDOWN_eq: "PGROUNDDOWN a = push_bit 12 (drop_bit 12 a)"
  by (simp add: PGROUNDDOWN_def mask12 and_not_mask12)

lemma unat_push_drop12: "unat (push_bit 12 (drop_bit 12 (a::u64))) = unat a div 4096 * 4096"
proof -
  have "unat a div 4096 * 4096 < 2 ^ 64"
    using unat_lt64 [of a] by (simp add: le_less_trans [OF div_times_less_eq_dividend])
  moreover have "unat (push_bit 12 (drop_bit 12 a)) = take_bit 64 (push_bit 12 (drop_bit 12 (unat a)))"
    by (simp add: unsigned_push_bit_eq unat_drop_bit_eq)
  ultimately show ?thesis
    by (simp add: push_bit_eq_mult drop_bit_eq_div take_bit_eq_mod)
qed

lemma unat_PGROUNDDOWN: "unat (PGROUNDDOWN a) = unat a div 4096 * 4096"
  by (simp add: PGROUNDDOWN_eq unat_push_drop12)

lemma PGROUNDUP_eq: "PGROUNDUP a = PGROUNDDOWN (a + 4095)"
  by (simp add: PGROUNDUP_def PGROUNDDOWN_def PGSIZE_def add.commute)

lemma unat_PGROUNDUP:
  "unat a + 4095 < 2 ^ 64 \<Longrightarrow> unat (PGROUNDUP a) = (unat a + 4095) div 4096 * 4096"
  by (simp add: PGROUNDUP_eq unat_PGROUNDDOWN unat_word_ariths)

section \<open>Page-table entries\<close>

definition page_aligned :: "u64 \<Rightarrow> bool" where
  "page_aligned a \<longleftrightarrow> unat a mod 4096 = 0"

lemma page_aligned_PGROUNDDOWN [simp]: "page_aligned (PGROUNDDOWN a)"
  by (simp add: page_aligned_def unat_PGROUNDDOWN)

lemma page_aligned_PGROUNDUP [simp]: "page_aligned (PGROUNDUP a)"
  by (simp add: PGROUNDUP_eq)

lemma page_aligned_mod: "page_aligned a \<longleftrightarrow> a mod PGSIZE = 0"
proof -
  have "unat (a mod PGSIZE) = unat a mod 4096" by (simp add: unat_mod)
  then show ?thesis unfolding page_aligned_def by (metis unat_eq_0)
qed

lemma page_aligned_iff: "page_aligned a \<longleftrightarrow> push_bit 12 (drop_bit 12 a) = a"
proof -
  have "page_aligned a \<longleftrightarrow> unat a div 4096 * 4096 = unat a"
    unfolding page_aligned_def using div_mult_mod_eq [of "unat a" 4096] by linarith
  then show ?thesis by (metis unat_push_drop12 word_unat_eq_iff)
qed

lemma low10_mask: "(0x3FF::u64) = mask 10"
  by (simp add: mask_eq_exp_minus_1)

lemma PTE2PA_PA2PTE:
  assumes "page_aligned pa" "unat pa < 2 ^ 56" "f AND NOT 0x3FF = 0"
  shows "PTE2PA (PA2PTE pa OR f) = pa"
proof -
  have hi: "\<not> bit pa n" if "56 \<le> n" for n
  proof -
    have "pa = take_bit 56 pa"
      using assms(2) by (simp add: word_unat_eq_iff unsigned_take_bit_eq take_bit_nat_eq_self)
    then show ?thesis using that by (metis bit_take_bit_iff not_le)
  qed
  have lo: "\<not> bit f n" if "10 \<le> n" for n
  proof
    assume b: "bit f n"
    then have "bit (f AND NOT (mask 10)) n"
      using that by (auto simp: bit_simps dest: bit_imp_le_length)
    with assms(3) show False by (simp add: low10_mask)
  qed
  have al: "push_bit 12 (drop_bit 12 pa) = pa" using assms(1) by (simp add: page_aligned_iff)
  show ?thesis
  proof (rule bit_word_eqI)
    fix n assume n: "n < LENGTH(64)"
    have "bit pa n \<longleftrightarrow> 12 \<le> n \<and> bit pa n"
      using n by (subst (1) al [symmetric]) (auto simp: bit_simps)
    moreover have "bit (PTE2PA (PA2PTE pa OR f)) n \<longleftrightarrow> 12 \<le> n \<and> bit pa n"
      using n hi [of n] lo [of "n - 2"]
      by (auto simp: PTE2PA_def PA2PTE_def bit_simps)
    ultimately show "bit (PTE2PA (PA2PTE pa OR f)) n = bit pa n" by simp
  qed
qed

lemma PA2PTE_low: "PA2PTE pa AND 0x3FF = 0"
  unfolding PA2PTE_def low10_mask by (rule bit_word_eqI) (auto simp: bit_simps)

lemma page_aligned_PTE2PA [simp]: "page_aligned (PTE2PA pte)"
proof -
  have "push_bit 12 (drop_bit 12 (push_bit 12 x)) = push_bit 12 (x::u64)" for x
    by (rule bit_word_eqI) (auto simp: bit_simps)
  then show ?thesis by (simp add: page_aligned_iff PTE2PA_def)
qed

lemma PX_eq: "unat (PX level va) = unat va div 2 ^ (12 + 9 * level) mod 512"
proof -
  have "PX level va = take_bit 9 (drop_bit (PXSHIFT level) va)"
    by (simp add: PX_def PXMASK_def take_bit_eq_mask mask_eq_exp_minus_1)
  then have "unat (PX level va) = take_bit 9 (drop_bit (12 + 9 * level) (unat va))"
    by (simp only: unsigned_take_bit_eq unat_drop_bit_eq PXSHIFT_def PGSHIFT_def)
  then show ?thesis by (simp add: take_bit_eq_mod drop_bit_eq_div)
qed

lemma unat_PX_less: "unat (PX level va) < 512"
  by (simp add: PX_eq)

end
