(* ===== verification/Kalloc.thy ===== *)
theory Kalloc
  imports Spinlock Kstring Memlayout
begin

text \<open>
  kalloc.c: the physical page allocator. Physical memory is a byte array; a free page holds
  the address of the next free page in its first eight bytes, as \<^verbatim>\<open>struct run\<close> does.
  The linker symbols are fields that no routine writes.
\<close>

section \<open>State and operations\<close>

record linksyms =
  kend :: u64
  etext :: u64
  trampoline :: u64
  uservec :: u64
  userret :: u64
  usertrap_addr :: u64
  kernelvec :: u64
  forkret_addr :: u64

record kmem = kbase +
  syms :: linksyms
  mem :: bytes
  freelist :: u64

definition run_next :: "bytes \<Rightarrow> u64 \<Rightarrow> u64" where
  "run_next m r = load64 m (unat r)"

definition kfree :: "u64 \<Rightarrow> (unit, 'z kmem_scheme) km" where
  "kfree pa =
     bind (gets (\<lambda>s. kend (syms s))) (\<lambda>e.
     if pa mod PGSIZE \<noteq> 0 \<or> pa < e \<or> pa \<ge> PHYSTOP then panic ''kfree''
     else
       seq (modify (\<lambda>s. s\<lparr>mem := memset (unat pa) 1 (unat PGSIZE) (mem s)\<rparr>))
       (seq (acquire KmemLock)
       (seq (modify (\<lambda>s. s\<lparr>mem := store64 (mem s) (unat pa) (freelist s)\<rparr>))
       (seq (modify (\<lambda>s. s\<lparr>freelist := pa\<rparr>))
       (release KmemLock)))))"

definition kalloc :: "(u64, 'z kmem_scheme) km" where
  "kalloc =
     seq (acquire KmemLock)
     (bind (gets freelist) (\<lambda>r.
      seq (whenk (r \<noteq> 0) (modify (\<lambda>s. s\<lparr>freelist := run_next (mem s) r\<rparr>)))
      (seq (release KmemLock)
      (seq (whenk (r \<noteq> 0) (modify (\<lambda>s. s\<lparr>mem := memset (unat r) 5 (unat PGSIZE) (mem s)\<rparr>)))
      (ret r)))))"

text \<open>The loop frees at most one page for each page-sized step below \<open>pa_end\<close>; the fuel is
  that number of steps plus one.\<close>

definition freerange :: "u64 \<Rightarrow> u64 \<Rightarrow> (unit, 'z kmem_scheme) km" where
  "freerange pa_start pa_end =
     loop (unat pa_end div 4096 + 2)
       (\<lambda>p. if p + PGSIZE \<le> pa_end then seq (kfree p) (ret (Inl (p + PGSIZE)))
            else ret (Inr ()))
       (PGROUNDUP pa_start)"

definition kinit :: "(unit, 'z kmem_scheme) km" where
  "kinit = seq (initlock KmemLock ''kmem'')
     (bind (gets (\<lambda>s. kend (syms s))) (\<lambda>e. freerange e PHYSTOP))"

section \<open>The free list\<close>

text \<open>A page the allocator manages: aligned, after the kernel image, below \<^verbatim>\<open>PHYSTOP\<close>.\<close>

definition ram_page :: "linksyms \<Rightarrow> u64 \<Rightarrow> bool" where
  "ram_page y p \<longleftrightarrow> page_aligned p \<and> kend y \<le> p \<and> p < PHYSTOP \<and> p \<noteq> 0"

primrec free_chain :: "bytes \<Rightarrow> u64 \<Rightarrow> u64 list \<Rightarrow> bool" where
  "free_chain m p [] \<longleftrightarrow> p = 0"
| "free_chain m p (x # xs) \<longleftrightarrow> p = x \<and> free_chain m (run_next m x) xs"

definition kmem_inv :: "'z kmem_scheme \<Rightarrow> u64 list \<Rightarrow> bool" where
  "kmem_inv s xs \<longleftrightarrow>
     free_chain (mem s) (freelist s) xs \<and> distinct xs \<and> (\<forall>x \<in> set xs. ram_page (syms s) x)"

lemma ram_page_bound: "ram_page y p \<Longrightarrow> unat p + 4096 \<le> 0x88000000"
proof -
  assume "ram_page y p"
  then have m: "unat p mod 4096 = 0" and l: "unat p < 0x88000000"
    by (auto simp: ram_page_def page_aligned_def PHYSTOP_val word_less_nat_alt)
  define k where "k = unat p div 4096"
  have "unat p = 4096 * k" using m by (simp add: k_def mod_0_imp_dvd)
  with l show ?thesis by simp
qed

lemma pages_disjoint:
  assumes "page_aligned a" "page_aligned b" "a \<noteq> b"
  shows "unat a + 4096 \<le> unat b \<or> unat b + 4096 \<le> unat a"
proof -
  define x y where "x = unat a div 4096" and "y = unat b div 4096"
  have "unat a = 4096 * x" "unat b = 4096 * y"
    using assms(1,2) by (simp_all add: x_def y_def page_aligned_def mod_0_imp_dvd)
  moreover then have "x \<noteq> y" using assms(3) by (auto simp: word_unat_eq_iff)
  ultimately show ?thesis by arith
qed

text \<open>Bytes of other pages do not matter to the chain.\<close>

definition same_page :: "u64 \<Rightarrow> bytes \<Rightarrow> bytes \<Rightarrow> bool" where
  "same_page p m m' \<longleftrightarrow> (\<forall>i < 4096. m' (unat p + i) = m (unat p + i))"

lemma run_next_cong: "same_page p m m' \<Longrightarrow> run_next m' p = run_next m p"
  unfolding run_next_def same_page_def by (intro load64_cong) auto

lemma free_chain_cong:
  "\<forall>x \<in> set xs. same_page x m m' \<Longrightarrow> free_chain m' p xs = free_chain m p xs"
  by (induction xs arbitrary: p) (auto simp: run_next_cong)

lemma same_page_memset:
  "page_aligned p \<Longrightarrow> page_aligned q \<Longrightarrow> p \<noteq> q \<Longrightarrow> same_page p m (memset (unat q) c 4096 m)"
  using pages_disjoint [of p q] by (auto simp: same_page_def memset_apply)

lemma same_page_store64:
  "page_aligned p \<Longrightarrow> page_aligned q \<Longrightarrow> p \<noteq> q \<Longrightarrow> k + 8 \<le> 4096 \<Longrightarrow>
     same_page p m (store64 m (unat q + k) v)"
  using pages_disjoint [of p q] by (auto simp: same_page_def store64_def wr_def)

lemma same_page_trans: "same_page p m m' \<Longrightarrow> same_page p m' m'' \<Longrightarrow> same_page p m m''"
  by (simp add: same_page_def)

section \<open>Closed forms\<close>

definition free_page_mem :: "u64 \<Rightarrow> u64 \<Rightarrow> bytes \<Rightarrow> bytes" where
  "free_page_mem pa nxt m = store64 (memset (unat pa) 1 4096 m) (unat pa) nxt"

lemma kfree_eq:
  assumes "ram_page (syms s) pa" "KmemLock \<notin> held (mach s)" "sane (mach s)"
  shows "kfree pa s = Ret () (s\<lparr>mach := quiet (mach s),
            mem := free_page_mem pa (freelist s) (mem s), freelist := pa\<rparr>)"
  using assms
  by (auto simp: kfree_def km_simps ram_page_def page_aligned_mod free_page_mem_def)

lemma kfree_panics:
  "\<not> page_aligned pa \<or> pa < kend (syms s) \<or> PHYSTOP \<le> pa \<Longrightarrow> kfree pa s = Stop (Panic ''kfree'') s"
  by (auto simp: kfree_def km_simps page_aligned_mod)

lemma kalloc_eq:
  assumes "KmemLock \<notin> held (mach s)" "sane (mach s)"
  shows "kalloc s = (if freelist s = 0 then Ret 0 (s\<lparr>mach := quiet (mach s)\<rparr>)
     else Ret (freelist s) (s\<lparr>mach := quiet (mach s), freelist := run_next (mem s) (freelist s),
            mem := memset (unat (freelist s)) 5 4096 (mem s)\<rparr>))"
  using assms by (simp add: kalloc_def km_simps)

lemma kmem_inv_kfree:
  assumes "kmem_inv s xs" "ram_page (syms s) pa" "pa \<notin> set xs"
  shows "kmem_inv (s\<lparr>mach := m, mem := free_page_mem pa (freelist s) (mem s), freelist := pa\<rparr>)
           (pa # xs)"
proof -
  have "same_page x (mem s) (free_page_mem pa (freelist s) (mem s))" if "x \<in> set xs" for x
  proof -
    from that assms have "page_aligned x" "page_aligned pa" "x \<noteq> pa"
      by (auto simp: kmem_inv_def ram_page_def)
    then show ?thesis unfolding free_page_mem_def
      using same_page_store64 [of x pa 0]
      by (auto intro: same_page_trans [OF same_page_memset [of x pa]])
  qed
  then have "free_chain (free_page_mem pa (freelist s) (mem s)) (freelist s) xs"
    using assms(1) by (subst free_chain_cong [of xs "mem s"]) (auto simp: kmem_inv_def)
  moreover have "run_next (free_page_mem pa (freelist s) (mem s)) pa = freelist s"
    by (simp add: free_page_mem_def run_next_def)
  ultimately show ?thesis using assms by (auto simp: kmem_inv_def)
qed

lemma kmem_inv_kalloc:
  assumes "kmem_inv s (p # ps)"
  shows "freelist s = p" "p \<noteq> 0" "ram_page (syms s) p" "p \<notin> set ps"
    "kmem_inv (s\<lparr>mach := m, freelist := run_next (mem s) p, mem := memset (unat p) c 4096 (mem s)\<rparr>) ps"
proof -
  show "freelist s = p" "p \<noteq> 0" "ram_page (syms s) p" "p \<notin> set ps"
    using assms by (auto simp: kmem_inv_def ram_page_def)
  have "same_page x (mem s) (memset (unat p) c 4096 (mem s))" if "x \<in> set ps" for x
    using that assms by (intro same_page_memset) (auto simp: kmem_inv_def ram_page_def)
  then have "free_chain (memset (unat p) c 4096 (mem s)) (run_next (mem s) p) ps"
    using assms by (subst free_chain_cong [of ps "mem s"]) (auto simp: kmem_inv_def)
  then show "kmem_inv (s\<lparr>mach := m, freelist := run_next (mem s) p,
      mem := memset (unat p) c 4096 (mem s)\<rparr>) ps"
    using assms by (auto simp: kmem_inv_def)
qed

lemma kmem_inv_Nil: "kmem_inv s [] \<longleftrightarrow> freelist s = 0"
  by (simp add: kmem_inv_def)


section \<open>The allocator as an interface\<close>

text \<open>What a client of the allocator may rely on. \<open>pool s ps\<close> says that \<open>ps\<close> are the free pages
  of \<open>s\<close>, \<open>ready s\<close> that the caller may take the allocator's lock, and \<open>byte s a\<close> reads memory.\<close>

locale page_allocator =
  fixes alloc :: "(u64, 's) km" and free :: "u64 \<Rightarrow> (unit, 's) km"
    and pool :: "'s \<Rightarrow> u64 list \<Rightarrow> bool" and ready :: "'s \<Rightarrow> bool"
    and frame :: "'s \<Rightarrow> u64 \<Rightarrow> bool" and byte :: "'s \<Rightarrow> nat \<Rightarrow> u8"
  assumes alloc_empty: "ready s \<Longrightarrow> pool s [] \<Longrightarrow>
      \<exists>s'. alloc s = Ret 0 s' \<and> ready s' \<and> pool s' [] \<and> byte s' = byte s \<and> frame s' = frame s"
    and alloc_page: "ready s \<Longrightarrow> pool s (p # ps) \<Longrightarrow>
      \<exists>s'. alloc s = Ret p s' \<and> ready s' \<and> pool s' ps \<and> frame s' = frame s \<and>
        (\<forall>a. a < unat p \<or> unat p + 4096 \<le> a \<longrightarrow> byte s' a = byte s a)"
    and free_page: "ready s \<Longrightarrow> pool s ps \<Longrightarrow> frame s p \<Longrightarrow> p \<notin> set ps \<Longrightarrow>
      \<exists>s'. free p s = Ret () s' \<and> ready s' \<and> pool s' (p # ps) \<and> frame s' = frame s \<and>
        (\<forall>a. a < unat p \<or> unat p + 4096 \<le> a \<longrightarrow> byte s' a = byte s a)"
    and pool_frame: "pool s ps \<Longrightarrow> p \<in> set ps \<Longrightarrow> frame s p \<and> p \<noteq> 0"
    and pool_distinct: "pool s ps \<Longrightarrow> distinct ps"
begin

text \<open>A page that is freed and asked for again comes back, and the pool is what it was.\<close>

lemma free_then_alloc:
  assumes "ready s" "pool s ps" "frame s p" "p \<notin> set ps"
  shows "\<exists>s'. seq (free p) alloc s = Ret p s' \<and> ready s' \<and> pool s' ps"
proof -
  obtain s1 where "free p s = Ret () s1" "ready s1" "pool s1 (p # ps)"
    using free_page [OF assms] by blast
  moreover then obtain s2 where "alloc s1 = Ret p s2" "ready s2" "pool s2 ps"
    using alloc_page by blast
  ultimately show ?thesis by (simp add: km_simps)
qed

lemma alloc_then_free:
  assumes "ready s" "pool s (p # ps)"
  shows "\<exists>s'. bind alloc free s = Ret () s' \<and> ready s' \<and> pool s' (p # ps)"
proof -
  obtain s1 where s1: "alloc s = Ret p s1" "ready s1" "pool s1 ps" "frame s1 = frame s"
    using alloc_page [OF assms] by blast
  have "frame s1 p" "p \<notin> set ps"
    using s1 pool_frame [OF assms(2)] pool_distinct [OF assms(2)] by auto
  then show ?thesis using free_page [OF s1(2,3)] s1(1) by (auto simp: km_simps)
qed

text \<open>Allocating \<open>n\<close> times from a pool of at least \<open>n\<close> pages never fails and gives \<open>n\<close> distinct
  pages of the pool, in order.\<close>

primrec alloc_many :: "nat \<Rightarrow> (u64 list, 's) km" where
  "alloc_many 0 = ret []"
| "alloc_many (Suc n) = bind alloc (\<lambda>p. bind (alloc_many n) (\<lambda>ps. ret (p # ps)))"

lemma alloc_many_gives:
  "ready s \<Longrightarrow> pool s ps \<Longrightarrow> n \<le> length ps \<Longrightarrow>
    \<exists>s'. alloc_many n s = Ret (take n ps) s' \<and> ready s' \<and> pool s' (drop n ps)"
proof (induction n arbitrary: s ps)
  case (Suc n)
  then obtain p qs where ps: "ps = p # qs" by (cases ps) auto
  obtain s1 where s1: "alloc s = Ret p s1" "ready s1" "pool s1 qs"
    using Suc.prems ps alloc_page by blast
  then obtain s2 where "alloc_many n s1 = Ret (take n qs) s2" "ready s2" "pool s2 (drop n qs)"
    using Suc.IH [of s1 qs] Suc.prems(3) ps by auto
  then show ?case using s1(1) ps by (simp add: km_simps)
qed (simp add: km_simps)

lemma alloc_exhausted:
  assumes "ready s" "pool s ps"
  shows "\<exists>s'. bind (alloc_many (length ps)) (\<lambda>_. alloc) s = Ret 0 s' \<and> pool s' []"
proof -
  obtain s1 where "alloc_many (length ps) s = Ret ps s1" "ready s1" "pool s1 []"
    using alloc_many_gives [OF assms, of "length ps"] by auto
  then show ?thesis using alloc_empty [of s1] by (auto simp: km_simps)
qed

end

definition kmem_ready :: "'z kmem_scheme \<Rightarrow> bool" where
  "kmem_ready s \<longleftrightarrow> KmemLock \<notin> held (mach s) \<and> sane (mach s)"

lemma kmem_ready_quiet [simp]: "kmem_ready s \<Longrightarrow> kmem_ready (s\<lparr>mach := quiet (mach s)\<rparr>)"
  by (simp add: kmem_ready_def)

interpretation ka: page_allocator kalloc kfree kmem_inv kmem_ready "\<lambda>s. ram_page (syms s)" mem
proof (unfold_locales, goal_cases)
  case (1 s)
  then show ?case by (simp add: kalloc_eq kmem_ready_def kmem_inv_Nil)
next
  case (2 s p ps)
  then show ?case using kmem_inv_kalloc [OF 2(2)]
    by (simp add: kalloc_eq kmem_ready_def memset_apply)
next
  case (3 s ps p)
  then show ?case using kmem_inv_kfree [OF 3(2,3,4)]
    by (simp add: kfree_eq kmem_ready_def free_page_mem_def memset_apply store64_def wr_def)
next
  case (4 s ps p)
  then show ?case by (simp add: kmem_inv_def ram_page_def)
next
  case (5 s ps)
  then show ?case by (simp add: kmem_inv_def)
qed


section \<open>Booting the allocator\<close>

definition range_inv :: "linksyms \<Rightarrow> u64 \<Rightarrow> 'z kmem_scheme \<Rightarrow> bool" where
  "range_inv y p s \<longleftrightarrow> page_aligned p \<and> kend y \<le> p \<and> unat p \<le> 0x88000000 \<and> kmem_ready s
     \<and> syms s = y
     \<and> (\<exists>xs. kmem_inv s xs \<and> set xs = {q. ram_page y q \<and> q < p})"

lemma page_step:
  assumes "page_aligned p" "unat p + 4096 \<le> 0x88000000"
  shows "unat (p + 0x1000) = unat p + 4096" "page_aligned (p + 0x1000)"
    "q < p + 0x1000 \<and> page_aligned q \<longleftrightarrow> (q < p \<and> page_aligned q) \<or> q = p"
proof -
  show u: "unat (p + 0x1000) = unat p + 4096" using assms(2) by (simp add: unat_word_ariths)
  show "page_aligned (p + 0x1000)" using assms(1) by (simp add: page_aligned_def u)
  show "q < p + 0x1000 \<and> page_aligned q \<longleftrightarrow> (q < p \<and> page_aligned q) \<or> q = p"
    using pages_disjoint [of q p] assms(1) by (auto simp: word_less_nat_alt u)
qed

lemma range_inv_step:
  assumes "range_inv y p s" "p + PGSIZE \<le> PHYSTOP" "kend y \<noteq> 0"
  shows "wp (kfree p) (\<lambda>_ s'. range_inv y (p + PGSIZE) s') s"
    "unat (p + PGSIZE) = unat p + 4096" "unat p + 4096 \<le> 0x88000000"
proof -
  have l: "unat p \<le> 0x88000000" and al: "page_aligned p" using assms(1) by (auto simp: range_inv_def)
  have "unat (p + 0x1000) = unat p + 4096" using l by (simp add: unat_word_ariths)
  then show le: "unat p + 4096 \<le> 0x88000000"
    using assms(2) by (simp add: PGSIZE_def PHYSTOP_val word_le_nat_alt)
  note step = page_step [OF al le]
  then show "unat (p + PGSIZE) = unat p + 4096" by (simp add: PGSIZE_def)
  have "kend y \<le> p" using assms(1) by (simp add: range_inv_def)
  moreover then have "p \<noteq> 0" using assms(3) by (metis word_le_0_iff)
  moreover have "p < PHYSTOP" using le by (simp add: PHYSTOP_val word_less_nat_alt)
  ultimately have rp: "ram_page y p" using al by (simp add: ram_page_def)
  obtain xs where xs: "kmem_inv s xs" "set xs = {q. ram_page y q \<and> q < p}"
    using assms(1) by (auto simp: range_inv_def)
  have y: "syms s = y" "kmem_ready s" using assms(1) by (auto simp: range_inv_def)
  define s' where "s' = s\<lparr>mach := quiet (mach s), mem := free_page_mem p (freelist s) (mem s),
    freelist := p\<rparr>"
  have "kmem_inv s' (p # xs)" unfolding s'_def
    using xs rp y(1) by (intro kmem_inv_kfree) auto
  moreover have "ram_page y q \<and> q < p + 0x1000 \<longleftrightarrow> q = p \<or> ram_page y q \<and> q < p" for q
    using step(3) [of q] rp by (auto simp: ram_page_def)
  then have "set (p # xs) = {q. ram_page y q \<and> q < p + 0x1000}"
    by (simp add: xs(2) set_eq_iff)
  moreover have "kend y \<le> p + 0x1000"
    using assms(1) step(1) by (simp add: range_inv_def word_le_nat_alt)
  ultimately have "range_inv y (p + 0x1000) s'"
    unfolding range_inv_def using step(1,2) le y
    by (intro conjI exI [of _ "p # xs"]) (simp_all add: s'_def kmem_ready_def)
  moreover have "kfree p s = Ret () s'"
    unfolding s'_def by (rule kfree_eq) (use rp y in \<open>simp_all add: kmem_ready_def\<close>)
  ultimately show "wp (kfree p) (\<lambda>_ s'. range_inv y (p + PGSIZE) s') s"
    by (simp add: wp_def PGSIZE_def)
qed

lemma range_inv_stop:
  assumes "range_inv y p s" "\<not> p + PGSIZE \<le> PHYSTOP"
  shows "\<exists>xs. kmem_inv s xs \<and> set xs = {q. ram_page y q}"
proof -
  have l: "unat p \<le> 0x88000000" using assms(1) by (auto simp: range_inv_def)
  then have "unat (p + 0x1000) = unat p + 4096" by (simp add: unat_word_ariths)
  then have p: "0x88000000 < unat p + 4096"
    using assms(2) by (simp add: PGSIZE_def PHYSTOP_val word_le_nat_alt)
  have "ram_page y q \<and> q < p \<longleftrightarrow> ram_page y q" for q
    using ram_page_bound [of y q] p by (auto simp: word_less_nat_alt)
  then show ?thesis using assms(1) by (simp add: range_inv_def)
qed

lemma wp_freerange:
  assumes "range_inv y (PGROUNDUP e) s" "kend y \<noteq> 0"
  shows "wp (freerange e PHYSTOP)
    (\<lambda>_ s'. syms s' = y \<and> kmem_ready s' \<and> (\<exists>xs. kmem_inv s' xs \<and> set xs = {q. ram_page y q})) s"
  unfolding freerange_def
proof (rule wp_loop [where I = "range_inv y" and V = "\<lambda>p. (0x88000000 - unat p) div 4096"], goal_cases)
  case 1
  show ?case by (rule assms(1))
next
  case 2
  have "(0x88000000 - unat (PGROUNDUP e)) div 4096 \<le> unat PHYSTOP div 4096"
    by (rule div_le_mono) (simp add: PHYSTOP_val)
  then show ?case by simp
next
  case (3 p s)
  show ?case
  proof (cases "p + PGSIZE \<le> PHYSTOP")
    case True
    note st = range_inv_step [OF 3 True assms(2)]
    have "(0x88000000 - unat (p + PGSIZE)) div 4096 < (0x88000000 - unat p) div 4096"
      using st(2,3) by linarith
    then show ?thesis using True wp_conseq [OF st(1)] by simp
  next
    case False
    then show ?thesis using range_inv_stop [OF 3 False] 3 by (simp add: range_inv_def)
  qed
qed

lemma kmem_ready_initlock:
  "sane (mach s) \<Longrightarrow> kmem_ready (s\<lparr>mach := initlock_m KmemLock n (mach s)\<rparr>)"
  by (auto simp: kmem_ready_def initlock_m_def held_def sane_def set_spin_def mycpu_def cpuid_def
      intr_get_iff)

lemma unat_PGROUNDUP_kend:
  assumes "e \<le> PHYSTOP"
  shows "e \<le> PGROUNDUP e" "unat (PGROUNDUP e) \<le> 0x88000000"
    "page_aligned q \<Longrightarrow> e \<le> q \<Longrightarrow> PGROUNDUP e \<le> q"
proof -
  have e: "unat e \<le> 0x88000000" using assms by (simp add: PHYSTOP_val word_le_nat_alt)
  define k where "k = (unat e + 4095) div 4096"
  have u: "unat (PGROUNDUP e) = k * 4096" using e by (simp add: unat_PGROUNDUP k_def)
  have k: "unat e \<le> k * 4096" "k * 4096 \<le> unat e + 4095" unfolding k_def by linarith+
  then show "e \<le> PGROUNDUP e" by (simp add: word_le_nat_alt u)
  have "k \<le> (0x88000000 + 4095) div 4096" unfolding k_def using e by (intro div_le_mono) simp
  then show "unat (PGROUNDUP e) \<le> 0x88000000" unfolding u by simp
  assume "page_aligned q" "e \<le> q"
  then obtain j where "unat q = 4096 * j" "unat e \<le> unat q"
    by (auto simp: page_aligned_def word_le_nat_alt mod_eq_0_iff_dvd dvd_def)
  then have "k * 4096 < (j + 1) * 4096" using k by simp
  then have "k < j + 1" unfolding mult_less_cancel2 by simp
  then show "PGROUNDUP e \<le> q" unfolding word_le_nat_alt u \<open>unat q = 4096 * j\<close> by simp
qed

text \<open>C16: booting the allocator on an empty free list puts every page between the end of
  the kernel image and \<^verbatim>\<open>PHYSTOP\<close> on the free list, each exactly once, and the loop of
  \<^verbatim>\<open>freerange\<close> ends.\<close>

theorem kinit_frees_all:
  assumes "sane (mach s)" "freelist s = 0" "kend (syms s) \<noteq> 0" "kend (syms s) \<le> PHYSTOP"
  shows "\<exists>s' xs. kinit s = Ret () s' \<and> kmem_inv s' xs \<and> distinct xs
           \<and> set xs = {p. ram_page (syms s) p}"
proof -
  define s1 where "s1 = s\<lparr>mach := initlock_m KmemLock ''kmem'' (mach s)\<rparr>"
  have "ram_page (syms s) q \<Longrightarrow> PGROUNDUP (kend (syms s)) \<le> q" for q
    using unat_PGROUNDUP_kend(3) [OF assms(4)] by (simp add: ram_page_def)
  then have "{q. ram_page (syms s) q \<and> q < PGROUNDUP (kend (syms s))} = {}" by force
  then have "range_inv (syms s) (PGROUNDUP (kend (syms s))) s1"
    using assms unat_PGROUNDUP_kend [OF assms(4)] kmem_ready_initlock [OF assms(1)]
    by (auto simp: range_inv_def s1_def kmem_inv_Nil intro!: exI [of _ "[]"])
  from wp_freerange [OF this assms(3)] obtain s' xs
    where "freerange (kend (syms s)) PHYSTOP s1 = Ret () s'" "kmem_inv s' xs"
      "set xs = {p. ram_page (syms s) p}" by (auto elim!: wpE)
  then show ?thesis
    by (auto simp: kinit_def km_simps initlock_def on_mach_def s1_def ka.pool_distinct)
qed

definition boot_syms :: linksyms where
  "boot_syms = \<lparr>kend = 0x80022000, etext = 0x80008000, trampoline = 0x80007000,
     uservec = 0x80007000, userret = 0x8000709c, usertrap_addr = 0x80001d00,
     kernelvec = 0x80005b00, forkret_addr = 0x80001a40\<rparr>"

definition boot_kmem :: kmem where
  "boot_kmem = \<lparr>mach = boot_machine, syms = boot_syms,
     mem = (\<lambda>_. 0), freelist = 0\<rparr>"

lemma sane_boot [simp]: "sane boot_machine"
  by (simp add: sane_def boot_machine_def mycpu_def cpuid_def)

theorem kinit_frees_all_witness:
  "\<exists>s' xs. kinit boot_kmem = Ret () s' \<and> kmem_inv s' xs \<and> distinct xs
     \<and> set xs = {p. ram_page (syms boot_kmem) p}"
  by (rule kinit_frees_all) (simp_all add: boot_kmem_def boot_syms_def PHYSTOP_val)

text \<open>C27: on a ready allocator whose free pages are \<open>ps\<close>, \<^verbatim>\<open>kalloc\<close> hands out the
  pages of \<open>ps\<close> one by one, and once they are used up returns 0; a page given to \<^verbatim>\<open>kfree\<close>
  is the next one handed out, and the pool is then what it was.\<close>

theorem kalloc_kfree_pool:
  assumes "kmem_ready s" "kmem_inv s ps"
  shows "(\<exists>s'. kalloc s = Ret (case ps of [] \<Rightarrow> 0 | p # _ \<Rightarrow> p) s' \<and> kmem_ready s'
        \<and> kmem_inv s' (tl ps)
        \<and> (\<forall>a. (\<forall>p \<in> set ps. a < unat p \<or> unat p + 4096 \<le> a) \<longrightarrow> mem s' a = mem s a))
    \<and> (ram_page (syms s) p \<and> p \<notin> set ps \<longrightarrow>
        (\<exists>s'. seq (kfree p) kalloc s = Ret p s' \<and> kmem_inv s' ps))
    \<and> (\<not> page_aligned p \<or> p < kend (syms s) \<or> PHYSTOP \<le> p \<longrightarrow>
        kfree p s = Stop (Panic ''kfree'') s)"
proof (intro conjI impI)
  show "\<exists>s'. kalloc s = Ret (case ps of [] \<Rightarrow> 0 | p # _ \<Rightarrow> p) s' \<and> kmem_ready s'
        \<and> kmem_inv s' (tl ps)
        \<and> (\<forall>a. (\<forall>p \<in> set ps. a < unat p \<or> unat p + 4096 \<le> a) \<longrightarrow> mem s' a = mem s a)"
    using ka.alloc_empty [of s] ka.alloc_page [of s "hd ps" "tl ps"] assms
    by (cases ps) fastforce+
qed (use assms ka.free_then_alloc in \<open>blast intro: kfree_panics\<close>)+

theorem kalloc_kfree_pool_witness:
  "(\<exists>s'. seq (kfree 0x80023000) kalloc boot_kmem = Ret 0x80023000 s' \<and> kmem_inv s' [])
   \<and> (\<exists>s'. kalloc boot_kmem = Ret 0 s' \<and> kmem_inv s' [])"
proof -
  have "kmem_ready boot_kmem" "kmem_inv boot_kmem []" "ram_page (syms boot_kmem) 0x80023000"
    by (simp_all add: boot_kmem_def boot_syms_def kmem_ready_def kmem_inv_Nil ram_page_def page_aligned_def
      PHYSTOP_val held_def boot_machine_def sane_def mycpu_def cpuid_def)
  then show ?thesis using kalloc_kfree_pool [of boot_kmem "[]" "0x80023000"] by auto
qed

end
