(* ===== verification/Vm.thy ===== *)
theory Vm
  imports Kalloc
begin

text \<open>
  vm.c: the Sv39 page tables of the kernel and of the processes, in the byte-addressed
  memory of the page allocator. Results of type \<^verbatim>\<open>int\<close> are integers, addresses are 64-bit
  words (0 is the null pointer). A kernel buffer that \<^verbatim>\<open>copyout\<close> reads or \<^verbatim>\<open>copyin\<close> fills
  is a byte list. There is no model of the TLB: \<^verbatim>\<open>sfence_vma\<close> has no effect.
\<close>

record vmk = kmem +
  kernel_pagetable :: u64
  satp :: "nat \<Rightarrow> u64"

section \<open>Page table entries\<close>

definition ldpte :: "u64 \<Rightarrow> (u64, 'z kmem_scheme) km" where
  "ldpte a s = Ret (load64 (mem s) (unat a)) s"

definition stpte :: "u64 \<Rightarrow> u64 \<Rightarrow> (unit, 'z kmem_scheme) km" where
  "stpte a v s = Ret () (s\<lparr>mem := store64 (mem s) (unat a) v\<rparr>)"

definition on_mem :: "(bytes \<Rightarrow> bytes) \<Rightarrow> (unit, 'z kmem_scheme) km" where
  [km_simps]: "on_mem f s = Ret () (s\<lparr>mem := f (mem s)\<rparr>)"

text \<open>\<^verbatim>\<open>&pagetable[i]\<close>\<close>

definition pte_addr :: "u64 \<Rightarrow> u64 \<Rightarrow> u64" where
  "pte_addr pagetable i = pagetable + 8 * i"

section \<open>walk and mappages\<close>

primrec walk_from :: "nat \<Rightarrow> u64 \<Rightarrow> u64 \<Rightarrow> bool \<Rightarrow> (u64, 'z kmem_scheme) km" where
  "walk_from 0 pagetable va alloc = ret (pte_addr pagetable (PX 0 va))"
| "walk_from (Suc l) pagetable va alloc =
     bind (ldpte (pte_addr pagetable (PX (Suc l) va))) (\<lambda>pte.
     if pte AND PTE_V \<noteq> 0 then walk_from l (PTE2PA pte) va alloc
     else if \<not> alloc then ret 0
     else bind kalloc (\<lambda>child.
       if child = 0 then ret 0
       else seq (on_mem (memset (unat child) 0 (unat PGSIZE)))
         (seq (stpte (pte_addr pagetable (PX (Suc l) va)) (PA2PTE child OR PTE_V))
         (walk_from l child va alloc))))"

definition walk :: "u64 \<Rightarrow> u64 \<Rightarrow> bool \<Rightarrow> (u64, 'z kmem_scheme) km" where
  "walk pagetable va alloc =
     (if va \<ge> MAXVA then panic ''walk'' else walk_from 2 pagetable va alloc)"

definition walkaddr :: "u64 \<Rightarrow> u64 \<Rightarrow> (u64, 'z kmem_scheme) km" where
  "walkaddr pagetable va =
     (if va \<ge> MAXVA then ret 0
      else bind (walk pagetable va False) (\<lambda>pte.
        if pte = 0 then ret 0
        else bind (ldpte pte) (\<lambda>e.
          if e AND PTE_V = 0 then ret 0
          else if e AND PTE_U = 0 then ret 0
          else ret (PTE2PA e))))"

text \<open>The loop visits the pages from \<open>a\<close> to \<open>last\<close>; the fuel is their number, counted with
  wrap-around as the addition of the code does, plus one.\<close>

definition mappages :: "u64 \<Rightarrow> u64 \<Rightarrow> u64 \<Rightarrow> u64 \<Rightarrow> u64 \<Rightarrow> (int, 'z kmem_scheme) km" where
  "mappages pagetable va sz pa perm =
     (if sz = 0 then panic ''mappages: size''
      else
        let last = PGROUNDDOWN (va + sz - 1) in
        loop (unat (last - PGROUNDDOWN va) div 4096 + 2)
          (\<lambda>(a, pa).
            bind (walk pagetable a True) (\<lambda>pte.
            if pte = 0 then ret (Inr (-1))
            else bind (ldpte pte) (\<lambda>e.
              if e AND PTE_V \<noteq> 0 then panic ''mappages: remap''
              else seq (stpte pte (PA2PTE pa OR perm OR PTE_V))
                (if a = last then ret (Inr 0) else ret (Inl (a + PGSIZE, pa + PGSIZE))))))
          (PGROUNDDOWN va, pa))"

definition kvmmap :: "u64 \<Rightarrow> u64 \<Rightarrow> u64 \<Rightarrow> u64 \<Rightarrow> u64 \<Rightarrow> (unit, 'z kmem_scheme) km" where
  "kvmmap kpgtbl va pa sz perm =
     bind (mappages kpgtbl va sz pa perm) (\<lambda>r. if r \<noteq> 0 then panic ''kvmmap'' else ret ())"

section \<open>The kernel's page table\<close>

definition proc_mapstacks :: "u64 \<Rightarrow> (unit, 'z kmem_scheme) km" where
  "proc_mapstacks kpgtbl =
     forall_do [0..<NPROC] (\<lambda>p.
       bind kalloc (\<lambda>pa.
       if pa = 0 then panic ''kalloc''
       else kvmmap kpgtbl (KSTACK p) pa PGSIZE (PTE_R OR PTE_W)))"

definition kvmmake :: "(u64, 'z kmem_scheme) km" where
  "kvmmake =
     bind kalloc (\<lambda>kpgtbl.
     seq (on_mem (memset (unat kpgtbl) 0 (unat PGSIZE)))
     (seq (kvmmap kpgtbl UART0 UART0 PGSIZE (PTE_R OR PTE_W))
     (seq (kvmmap kpgtbl VIRTIO0 VIRTIO0 PGSIZE (PTE_R OR PTE_W))
     (seq (kvmmap kpgtbl PLIC PLIC 0x400000 (PTE_R OR PTE_W))
     (bind (gets syms) (\<lambda>y.
      seq (kvmmap kpgtbl KERNBASE KERNBASE (etext y - KERNBASE) (PTE_R OR PTE_X))
     (seq (kvmmap kpgtbl (etext y) (etext y) (PHYSTOP - etext y) (PTE_R OR PTE_W))
     (seq (kvmmap kpgtbl TRAMPOLINE (trampoline y) PGSIZE (PTE_R OR PTE_X))
     (seq (proc_mapstacks kpgtbl)
     (ret kpgtbl))))))))))"

definition kvminit :: "(unit, 'z vmk_scheme) km" where
  "kvminit = bind kvmmake (\<lambda>p. modify (\<lambda>s. s\<lparr>kernel_pagetable := p\<rparr>))"

definition w_satp :: "u64 \<Rightarrow> 'z vmk_scheme \<Rightarrow> 'z vmk_scheme" where
  "w_satp x s = s\<lparr>satp := (satp s)(tp (mach s) := x)\<rparr>"

definition kvminithart :: "(unit, 'z vmk_scheme) km" where
  "kvminithart = modify (\<lambda>s. w_satp (MAKE_SATP (kernel_pagetable s)) s)"

section \<open>User page tables\<close>

text \<open>The loop runs while \<open>a\<close> is below \<open>va + npages * PGSIZE\<close>, one page at a time.\<close>

definition uvmunmap :: "u64 \<Rightarrow> u64 \<Rightarrow> u64 \<Rightarrow> bool \<Rightarrow> (unit, 'z kmem_scheme) km" where
  "uvmunmap pagetable va npages do_free =
     (if va mod PGSIZE \<noteq> 0 then panic ''uvmunmap: not aligned''
      else loop (unat (va + npages * PGSIZE) div 4096 + 2)
        (\<lambda>a. if \<not> a < va + npages * PGSIZE then ret (Inr ())
          else bind (walk pagetable a False) (\<lambda>pte.
            if pte = 0 then panic ''uvmunmap: walk''
            else bind (ldpte pte) (\<lambda>e.
              if e AND PTE_V = 0 then panic ''uvmunmap: not mapped''
              else if PTE_FLAGS e = PTE_V then panic ''uvmunmap: not a leaf''
              else seq (whenk do_free (kfree (PTE2PA e)))
                (seq (stpte pte 0) (ret (Inl (a + PGSIZE)))))))
        va)"

definition uvmcreate :: "(u64, 'z kmem_scheme) km" where
  "uvmcreate =
     bind kalloc (\<lambda>pagetable.
     if pagetable = 0 then ret 0
     else seq (on_mem (memset (unat pagetable) 0 (unat PGSIZE))) (ret pagetable))"

definition uvmfirst :: "u64 \<Rightarrow> u8 list \<Rightarrow> u32 \<Rightarrow> (unit, 'z kmem_scheme) km" where
  "uvmfirst pagetable src sz =
     (if sz \<ge> 4096 then panic ''uvmfirst: more than a page''
      else bind kalloc (\<lambda>p.
        seq (on_mem (memset (unat p) 0 (unat PGSIZE)))
        (seq (mappages pagetable 0 PGSIZE p (PTE_W OR PTE_R OR PTE_X OR PTE_U))
        (on_mem (\<lambda>m. wr m (unat p) (take (unat sz) src))))))"

text \<open>\<open>npages\<close> is an \<^verbatim>\<open>int\<close> that is passed on as a \<^verbatim>\<open>uint64\<close>: it is cut to 32 bits and sign
  extended.\<close>

definition uvmdealloc :: "u64 \<Rightarrow> u64 \<Rightarrow> u64 \<Rightarrow> (u64, 'z kmem_scheme) km" where
  "uvmdealloc pagetable oldsz newsz =
     (if newsz \<ge> oldsz then ret oldsz
      else seq (whenk (PGROUNDUP newsz < PGROUNDUP oldsz)
          (let npages = (ucast ((PGROUNDUP oldsz - PGROUNDUP newsz) div PGSIZE) :: u32)
           in uvmunmap pagetable (PGROUNDUP newsz) (scast npages) True))
        (ret newsz))"

definition uvmalloc :: "u64 \<Rightarrow> u64 \<Rightarrow> u64 \<Rightarrow> u64 \<Rightarrow> (u64, 'z kmem_scheme) km" where
  "uvmalloc pagetable oldsz newsz xperm =
     (if newsz < oldsz then ret oldsz
      else
        let oldsz = PGROUNDUP oldsz in
        loop (unat newsz div 4096 + 2)
          (\<lambda>a. if \<not> a < newsz then ret (Inr newsz)
            else bind kalloc (\<lambda>p.
              if p = 0 then seq (uvmdealloc pagetable a oldsz) (ret (Inr 0))
              else seq (on_mem (memset (unat p) 0 (unat PGSIZE)))
                (bind (mappages pagetable a PGSIZE p (PTE_R OR PTE_U OR xperm)) (\<lambda>r.
                 if r \<noteq> 0
                 then seq (kfree p) (seq (uvmdealloc pagetable a oldsz) (ret (Inr 0)))
                 else ret (Inl (a + PGSIZE))))))
          oldsz)"

text \<open>Sv39 tables have three levels; the recursion of \<^verbatim>\<open>freewalk\<close> is bounded by a depth, and
  running out of it hangs.\<close>

primrec freewalk_at :: "nat \<Rightarrow> u64 \<Rightarrow> (unit, 'z kmem_scheme) km" where
  "freewalk_at 0 pagetable = (\<lambda>s. Stop Hang s)"
| "freewalk_at (Suc d) pagetable =
     seq (forall_do [0..<512] (\<lambda>i.
       bind (ldpte (pte_addr pagetable (of_nat i))) (\<lambda>pte.
       if pte AND PTE_V \<noteq> 0 \<and> pte AND (PTE_R OR PTE_W OR PTE_X) = 0
       then seq (freewalk_at d (PTE2PA pte)) (stpte (pte_addr pagetable (of_nat i)) 0)
       else if pte AND PTE_V \<noteq> 0 then panic ''freewalk: leaf''
       else ret ())))
     (kfree pagetable)"

definition freewalk :: "u64 \<Rightarrow> (unit, 'z kmem_scheme) km" where
  "freewalk pagetable = freewalk_at 4 pagetable"

definition uvmfree :: "u64 \<Rightarrow> u64 \<Rightarrow> (unit, 'z kmem_scheme) km" where
  "uvmfree pagetable sz =
     seq (whenk (sz > 0) (uvmunmap pagetable 0 (PGROUNDUP sz div PGSIZE) True))
     (freewalk pagetable)"

definition uvmcopy :: "u64 \<Rightarrow> u64 \<Rightarrow> u64 \<Rightarrow> (int, 'z kmem_scheme) km" where
  "uvmcopy old new sz =
     loop (unat sz div 4096 + 2)
       (\<lambda>i. if \<not> i < sz then ret (Inr 0)
         else bind (walk old i False) (\<lambda>pte.
           if pte = 0 then panic ''uvmcopy: pte should exist''
           else bind (ldpte pte) (\<lambda>e.
             if e AND PTE_V = 0 then panic ''uvmcopy: page not present''
             else
               let pa = PTE2PA e; flags = PTE_FLAGS e in
               bind kalloc (\<lambda>p.
               if p = 0 then seq (uvmunmap new 0 (i div PGSIZE) True) (ret (Inr (-1)))
               else seq (on_mem (memmove (unat p) (unat pa) (unat PGSIZE)))
                 (bind (mappages new i PGSIZE p flags) (\<lambda>r.
                  if r \<noteq> 0
                  then seq (kfree p)
                    (seq (uvmunmap new 0 (i div PGSIZE) True) (ret (Inr (-1))))
                  else ret (Inl (i + PGSIZE))))))))
       0"

definition uvmclear :: "u64 \<Rightarrow> u64 \<Rightarrow> (unit, 'z kmem_scheme) km" where
  "uvmclear pagetable va =
     bind (walk pagetable va False) (\<lambda>pte.
     if pte = 0 then panic ''uvmclear''
     else bind (ldpte pte) (\<lambda>e. stpte pte (e AND NOT PTE_U)))"

section \<open>Copying between kernel and user space\<close>

text \<open>Each turn of these loops moves at least one byte, so the length bounds their number.\<close>

definition copyout :: "u64 \<Rightarrow> u64 \<Rightarrow> u8 list \<Rightarrow> (int, 'z kmem_scheme) km" where
  "copyout pagetable dstva src =
     loop (length src + 1)
       (\<lambda>(dstva, src).
         if length src = 0 then ret (Inr 0)
         else
           let va0 = PGROUNDDOWN dstva in
           bind (walkaddr pagetable va0) (\<lambda>pa0.
           if pa0 = 0 then ret (Inr (-1))
           else
             let n = min (unat (PGSIZE - (dstva - va0))) (length src) in
             seq (on_mem (\<lambda>m. wr m (unat (pa0 + (dstva - va0))) (take n src)))
             (ret (Inl (va0 + PGSIZE, drop n src)))))
       (dstva, src)"

text \<open>\<^verbatim>\<open>copyin\<close> returns the bytes it stored in the kernel buffer together with the result.\<close>

definition copyin :: "u64 \<Rightarrow> u64 \<Rightarrow> nat \<Rightarrow> (int \<times> u8 list, 'z kmem_scheme) km" where
  "copyin pagetable srcva len =
     loop (len + 1)
       (\<lambda>(dst, srcva, len).
         if len = 0 then ret (Inr (0, dst))
         else
           let va0 = PGROUNDDOWN srcva in
           bind (walkaddr pagetable va0) (\<lambda>pa0.
           if pa0 = 0 then ret (Inr (-1, dst))
           else
             let n = min (unat (PGSIZE - (srcva - va0))) len in
             bind (gets (\<lambda>s. rd (mem s) (unat (pa0 + (srcva - va0))) n)) (\<lambda>bs.
             ret (Inl (dst @ bs, va0 + PGSIZE, len - n)))))
       ([], srcva, len)"

text \<open>The inner loop of \<^verbatim>\<open>copyinstr\<close>: at most \<open>n\<close> bytes from \<open>p\<close>, up to and with a zero byte.
  The result is the bytes stored and whether the zero byte was found.\<close>

primrec scan_str :: "bytes \<Rightarrow> nat \<Rightarrow> nat \<Rightarrow> u8 list \<times> bool" where
  "scan_str m p 0 = ([], False)"
| "scan_str m p (Suc n) =
     (if m p = 0 then ([0], True) else (let (bs, z) = scan_str m (Suc p) n in (m p # bs, z)))"

definition copyinstr :: "u64 \<Rightarrow> u64 \<Rightarrow> nat \<Rightarrow> (int \<times> u8 list, 'z kmem_scheme) km" where
  "copyinstr pagetable srcva mx =
     loop (mx + 1)
       (\<lambda>(dst, srcva, mx).
         if mx = 0 then ret (Inr (-1, dst))
         else
           let va0 = PGROUNDDOWN srcva in
           bind (walkaddr pagetable va0) (\<lambda>pa0.
           if pa0 = 0 then ret (Inr (-1, dst))
           else
             let n = min (unat (PGSIZE - (srcva - va0))) mx in
             bind (gets (\<lambda>s. scan_str (mem s) (unat (pa0 + (srcva - va0))) n)) (\<lambda>(bs, z).
             if z then ret (Inr (0, dst @ bs))
             else ret (Inl (dst @ bs, va0 + PGSIZE, mx - n)))))
       ([], srcva, mx)"

end
