(* ===== verification/Proc.thy ===== *)
theory Proc
  imports Vm
begin

text \<open>
  proc.c without the routines that use the file system: the process table, process
  identifiers, page tables of processes, \<^verbatim>\<open>sleep\<close>, \<^verbatim>\<open>wakeup\<close>, \<^verbatim>\<open>sched\<close>, the scheduler and
  \<^verbatim>\<open>kill\<close>. A process is named by its index in the table. The switch to another thread of
  control in \<^verbatim>\<open>swtch\<close> ends the run of a routine (\<open>Stop Switched\<close>); what the routine does after
  it is scheduled again is a definition of its own. A trap frame lies in the page of memory
  that \<^verbatim>\<open>p->trapframe\<close> points to.
\<close>

section \<open>The process table (proc.h)\<close>

record kcontext =
  ctx_ra :: u64
  ctx_sp :: u64
  ctx_s0 :: u64
  ctx_s1 :: u64
  ctx_s2 :: u64
  ctx_s3 :: u64
  ctx_s4 :: u64
  ctx_s5 :: u64
  ctx_s6 :: u64
  ctx_s7 :: u64
  ctx_s8 :: u64
  ctx_s9 :: u64
  ctx_s10 :: u64
  ctx_s11 :: u64

definition context0 :: kcontext where
  "context0 = \<lparr>ctx_ra = 0, ctx_sp = 0, ctx_s0 = 0, ctx_s1 = 0, ctx_s2 = 0, ctx_s3 = 0, ctx_s4 = 0,
     ctx_s5 = 0, ctx_s6 = 0, ctx_s7 = 0, ctx_s8 = 0, ctx_s9 = 0, ctx_s10 = 0, ctx_s11 = 0\<rparr>"

datatype procstate = UNUSED | USED | SLEEPING | RUNNABLE | RUNNING | ZOMBIE

record proc =
  p_state :: procstate
  p_chan :: "wchan option"
  p_killed :: bool
  p_xstate :: u32
  p_pid :: u32
  p_parent :: "nat option"
  p_kstack :: u64
  p_sz :: u64
  p_pagetable :: u64
  p_trapframe :: u64
  p_context :: kcontext
  p_ofile :: "nat \<Rightarrow> nat option"
  p_cwd :: "nat option"
  p_name :: "u8 list"

text \<open>The offsets of the fields of \<^verbatim>\<open>struct trapframe\<close> that the kernel uses.\<close>

abbreviation (input) TF_kernel_satp :: nat where "TF_kernel_satp \<equiv> 0"
abbreviation (input) TF_kernel_sp :: nat where "TF_kernel_sp \<equiv> 8"
abbreviation (input) TF_kernel_trap :: nat where "TF_kernel_trap \<equiv> 16"
abbreviation (input) TF_epc :: nat where "TF_epc \<equiv> 24"
abbreviation (input) TF_kernel_hartid :: nat where "TF_kernel_hartid \<equiv> 32"
abbreviation (input) TF_sp :: nat where "TF_sp \<equiv> 48"
abbreviation (input) TF_a0 :: nat where "TF_a0 \<equiv> 112"
abbreviation (input) TF_a1 :: nat where "TF_a1 \<equiv> 120"
abbreviation (input) TF_a7 :: nat where "TF_a7 \<equiv> 168"

definition TF_SIZE :: nat where "TF_SIZE = 288"

record procs = vmk +
  proctab :: "nat \<Rightarrow> proc"
  nextpid :: u32
  initproc :: "nat option"

definition pget :: "nat \<Rightarrow> (proc \<Rightarrow> 'a) \<Rightarrow> ('a, 'z procs_scheme) km" where
  [km_simps]: "pget p f = gets (\<lambda>s. f (proctab s p))"

definition pmod :: "nat \<Rightarrow> (proc \<Rightarrow> proc) \<Rightarrow> (unit, 'z procs_scheme) km" where
  [km_simps]: "pmod p f = modify (\<lambda>s. s\<lparr>proctab := (proctab s)(p := f (proctab s p))\<rparr>)"

definition tf_get :: "nat \<Rightarrow> nat \<Rightarrow> (u64, 'z procs_scheme) km" where
  [km_simps]: "tf_get p off = gets (\<lambda>s. load64 (mem s) (unat (p_trapframe (proctab s p)) + off))"

definition tf_set :: "nat \<Rightarrow> nat \<Rightarrow> u64 \<Rightarrow> (unit, 'z procs_scheme) km" where
  [km_simps]: "tf_set p off v =
     modify (\<lambda>s. s\<lparr>mem := store64 (mem s) (unat (p_trapframe (proctab s p)) + off) v\<rparr>)"

section \<open>Initialisation and the current process\<close>

definition procinit :: "(unit, 'z procs_scheme) km" where
  "procinit =
     seq (initlock PidLock ''nextpid'')
     (seq (initlock WaitLock ''wait_lock'')
     (forall_do [0..<NPROC] (\<lambda>p.
        seq (initlock (ProcLock p) ''proc'')
        (seq (pmod p (\<lambda>r. r\<lparr>p_state := UNUSED\<rparr>))
        (pmod p (\<lambda>r. r\<lparr>p_kstack := KSTACK p\<rparr>))))))"

definition myproc :: "(nat option, 'z kbase_scheme) km" where
  "myproc =
     seq (on_mach push_off)
     (bind (gets (\<lambda>s. cproc (mycpu (mach s)))) (\<lambda>p.
      seq (on_mach pop_off) (ret p)))"

text \<open>A routine that uses fields of \<^verbatim>\<open>myproc()\<close> faults when there is no current process; the
  fault ends in the panic of \<^verbatim>\<open>kerneltrap\<close>.\<close>

definition curproc :: "(nat, 'z kbase_scheme) km" where
  "curproc = bind myproc (\<lambda>p. case p of None \<Rightarrow> panic ''kerneltrap'' | Some i \<Rightarrow> ret i)"

definition allocpid :: "(u32, 'z procs_scheme) km" where
  "allocpid =
     seq (acquire PidLock)
     (bind (gets nextpid) (\<lambda>pid.
      seq (modify (\<lambda>s. s\<lparr>nextpid := nextpid s + 1\<rparr>))
      (seq (release PidLock) (ret pid))))"

section \<open>Page tables and process structures\<close>

definition proc_pagetable :: "nat \<Rightarrow> (u64, 'z procs_scheme) km" where
  "proc_pagetable p =
     bind uvmcreate (\<lambda>pagetable.
     if pagetable = 0 then ret 0
     else bind (gets (\<lambda>s. trampoline (syms s))) (\<lambda>tr.
       bind (mappages pagetable TRAMPOLINE PGSIZE tr (PTE_R OR PTE_X)) (\<lambda>r.
       if r < 0 then seq (uvmfree pagetable 0) (ret 0)
       else bind (pget p p_trapframe) (\<lambda>tf.
         bind (mappages pagetable TRAPFRAME PGSIZE tf (PTE_R OR PTE_W)) (\<lambda>r.
         if r < 0 then seq (uvmunmap pagetable TRAMPOLINE 1 False)
             (seq (uvmfree pagetable 0) (ret 0))
         else ret pagetable)))))"

definition proc_freepagetable :: "u64 \<Rightarrow> u64 \<Rightarrow> (unit, 'z kmem_scheme) km" where
  "proc_freepagetable pagetable sz =
     seq (uvmunmap pagetable TRAMPOLINE 1 False)
     (seq (uvmunmap pagetable TRAPFRAME 1 False)
     (uvmfree pagetable sz))"

definition freeproc :: "nat \<Rightarrow> (unit, 'z procs_scheme) km" where
  "freeproc p =
     bind (pget p p_trapframe) (\<lambda>tf.
     seq (whenk (tf \<noteq> 0) (kfree tf))
     (seq (pmod p (\<lambda>r. r\<lparr>p_trapframe := 0\<rparr>))
     (bind (pget p p_pagetable) (\<lambda>pt.
      bind (pget p p_sz) (\<lambda>sz.
      seq (whenk (pt \<noteq> 0) (proc_freepagetable pt sz))
      (pmod p (\<lambda>r. r\<lparr>p_pagetable := 0, p_sz := 0, p_pid := 0, p_parent := None,
         p_name := (p_name r)[0 := 0], p_chan := None, p_killed := False, p_xstate := 0,
         p_state := UNUSED\<rparr>)))))))"

text \<open>The scan for a free entry returns with the lock of the entry held.\<close>

definition find_unused :: "(nat option, 'z procs_scheme) km" where
  "find_unused = for_until [0..<NPROC] (\<lambda>p.
     seq (acquire (ProcLock p))
     (bind (pget p p_state) (\<lambda>st.
      if st = UNUSED then ret (Some p)
      else seq (release (ProcLock p)) (ret None))))"

definition allocproc :: "(nat option, 'z procs_scheme) km" where
  "allocproc =
     bind find_unused (\<lambda>found.
     case found of None \<Rightarrow> ret None
     | Some p \<Rightarrow>
         bind allocpid (\<lambda>pid.
         seq (pmod p (\<lambda>r. r\<lparr>p_pid := pid, p_state := USED\<rparr>))
         (bind kalloc (\<lambda>tf.
          seq (pmod p (\<lambda>r. r\<lparr>p_trapframe := tf\<rparr>))
          (if tf = 0 then seq (freeproc p) (seq (release (ProcLock p)) (ret None))
           else bind (proc_pagetable p) (\<lambda>pt.
             seq (pmod p (\<lambda>r. r\<lparr>p_pagetable := pt\<rparr>))
             (if pt = 0 then seq (freeproc p) (seq (release (ProcLock p)) (ret None))
              else bind (gets (\<lambda>s. forkret_addr (syms s))) (\<lambda>fr.
                seq (pmod p (\<lambda>r. r\<lparr>p_context :=
                       context0\<lparr>ctx_ra := fr, ctx_sp := p_kstack r + PGSIZE\<rparr>\<rparr>))
                (ret (Some p))))))))))"

text \<open>The argument is an \<^verbatim>\<open>int\<close>, added to a \<^verbatim>\<open>uint64\<close> after sign extension.\<close>

definition growproc :: "u32 \<Rightarrow> (int, 'z procs_scheme) km" where
  "growproc n =
     bind curproc (\<lambda>p.
     bind (pget p p_sz) (\<lambda>sz.
     bind (pget p p_pagetable) (\<lambda>pt.
     if 0 <s n then
       bind (uvmalloc pt sz (sz + scast n) PTE_W) (\<lambda>sz'.
       if sz' = 0 then ret (-1)
       else seq (pmod p (\<lambda>r. r\<lparr>p_sz := sz'\<rparr>)) (ret 0))
     else if n <s 0 then
       bind (uvmdealloc pt sz (sz + scast n)) (\<lambda>sz'.
       seq (pmod p (\<lambda>r. r\<lparr>p_sz := sz'\<rparr>)) (ret 0))
     else seq (pmod p (\<lambda>r. r\<lparr>p_sz := sz\<rparr>)) (ret 0))))"

section \<open>Scheduling\<close>

text \<open>The checks of \<^verbatim>\<open>sched\<close> up to the switch. The thread keeps \<open>intena\<close> in a local variable
  and writes it back when it runs again.\<close>

definition sched :: "(unit, 'z procs_scheme) km" where
  "sched =
     bind curproc (\<lambda>p.
     bind (gets (\<lambda>s. mach s)) (\<lambda>m.
     bind (pget p p_state) (\<lambda>st.
     if \<not> holding (ProcLock p) m then panic ''sched p->lock''
     else if noff (mycpu m) \<noteq> 1 then panic ''sched locks''
     else if st = RUNNING then panic ''sched running''
     else if intr_get m then panic ''sched interruptible''
     else (\<lambda>s. Stop Switched s))))"

definition sched_resume :: "bool \<Rightarrow> (unit, 'z kbase_scheme) km" where
  "sched_resume i = on_mach (modify (set_mycpu (\<lambda>c. c\<lparr>intena := i\<rparr>)))"

definition yield :: "(unit, 'z procs_scheme) km" where
  "yield =
     bind curproc (\<lambda>p.
     seq (acquire (ProcLock p))
     (seq (pmod p (\<lambda>r. r\<lparr>p_state := RUNNABLE\<rparr>))
     sched))"

definition yield_resume :: "nat \<Rightarrow> bool \<Rightarrow> (unit, 'z procs_scheme) km" where
  "yield_resume p i = seq (sched_resume i) (release (ProcLock p))"

definition sleep :: "wchan \<Rightarrow> lockid \<Rightarrow> (unit, 'z procs_scheme) km" where
  "sleep chan lk =
     bind curproc (\<lambda>p.
     seq (acquire (ProcLock p))
     (seq (release lk)
     (seq (pmod p (\<lambda>r. r\<lparr>p_chan := Some chan, p_state := SLEEPING\<rparr>))
     sched)))"

definition sleep_resume :: "nat \<Rightarrow> bool \<Rightarrow> lockid \<Rightarrow> (unit, 'z procs_scheme) km" where
  "sleep_resume p i lk =
     seq (sched_resume i)
     (seq (pmod p (\<lambda>r. r\<lparr>p_chan := None\<rparr>))
     (seq (release (ProcLock p))
     (acquire lk)))"

text \<open>A channel is an address; \<open>None\<close> is the null pointer.\<close>

definition wake_one :: "wchan option \<Rightarrow> nat \<Rightarrow> (unit, 'z procs_scheme) km" where
  "wake_one chan p =
     bind myproc (\<lambda>me.
     whenk (Some p \<noteq> me)
       (seq (acquire (ProcLock p))
       (bind (gets (\<lambda>s. proctab s p)) (\<lambda>r.
        seq (whenk (p_state r = SLEEPING \<and> p_chan r = chan)
               (pmod p (\<lambda>r. r\<lparr>p_state := RUNNABLE\<rparr>)))
        (release (ProcLock p))))))"

definition wakeup_at :: "wchan option \<Rightarrow> (unit, 'z procs_scheme) km" where
  "wakeup_at chan = forall_do [0..<NPROC] (wake_one chan)"

definition wakeup :: "wchan \<Rightarrow> (unit, 'z procs_scheme) km" where
  "wakeup chan = wakeup_at (Some chan)"

text \<open>One turn of the loop of \<^verbatim>\<open>scheduler\<close>: up to the switch to the process (the result says
  whether there was one), and what follows when the process has switched back.\<close>

definition sched_pick :: "nat \<Rightarrow> (bool, 'z procs_scheme) km" where
  "sched_pick p =
     seq (acquire (ProcLock p))
     (bind (pget p p_state) (\<lambda>st.
      if st = RUNNABLE
      then seq (pmod p (\<lambda>r. r\<lparr>p_state := RUNNING\<rparr>))
        (seq (on_mach (modify (set_mycpu (\<lambda>c. c\<lparr>cproc := Some p\<rparr>)))) (ret True))
      else seq (release (ProcLock p)) (ret False)))"

definition sched_back :: "nat \<Rightarrow> (unit, 'z kbase_scheme) km" where
  "sched_back p =
     seq (on_mach (modify (set_mycpu (\<lambda>c. c\<lparr>cproc := None\<rparr>))))
     (release (ProcLock p))"

definition scheduler_start :: "(unit, 'z kbase_scheme) km" where
  "scheduler_start =
     seq (on_mach (modify (set_mycpu (\<lambda>c. c\<lparr>cproc := None\<rparr>)))) (on_mach (modify intr_on))"

definition kill_one :: "u32 \<Rightarrow> nat \<Rightarrow> (int option, 'z procs_scheme) km" where
  "kill_one pid p =
     seq (acquire (ProcLock p))
     (bind (gets (\<lambda>s. proctab s p)) (\<lambda>r.
      if p_pid r = pid
      then seq (pmod p (\<lambda>r. r\<lparr>p_killed := True\<rparr>))
        (seq (whenk (p_state r = SLEEPING) (pmod p (\<lambda>r. r\<lparr>p_state := RUNNABLE\<rparr>)))
        (seq (release (ProcLock p)) (ret (Some 0))))
      else seq (release (ProcLock p)) (ret None)))"

definition kill :: "u32 \<Rightarrow> (int, 'z procs_scheme) km" where
  "kill pid =
     bind (for_until [0..<NPROC] (kill_one pid)) (\<lambda>r.
     case r of Some x \<Rightarrow> ret x | None \<Rightarrow> ret (-1))"

definition setkilled :: "nat \<Rightarrow> (unit, 'z procs_scheme) km" where
  "setkilled p =
     seq (acquire (ProcLock p))
     (seq (pmod p (\<lambda>r. r\<lparr>p_killed := True\<rparr>))
     (release (ProcLock p)))"

definition killed :: "nat \<Rightarrow> (bool, 'z procs_scheme) km" where
  "killed p =
     seq (acquire (ProcLock p))
     (bind (pget p p_killed) (\<lambda>k.
      seq (release (ProcLock p)) (ret k)))"

section \<open>Copying to and from a user or a kernel address\<close>

text \<open>A destination in the kernel is an address of memory, or a local variable of the caller, whose
  contents the caller returns. A source in the kernel is a list of bytes.\<close>

datatype dest = UserTo u64 | KernTo u64 | KernBuf

datatype source = UserFrom u64 | KernFrom "u8 list"

definition either_copyout :: "dest \<Rightarrow> u8 list \<Rightarrow> (int, 'z procs_scheme) km" where
  "either_copyout d src =
     bind myproc (\<lambda>mp.
     case d of
       UserTo dst \<Rightarrow>
         (case mp of None \<Rightarrow> panic ''kerneltrap''
          | Some p \<Rightarrow> bind (pget p p_pagetable) (\<lambda>pt. copyout pt dst src))
     | KernTo dst \<Rightarrow> seq (on_mem (\<lambda>m. wr m (unat dst) src)) (ret 0)
     | KernBuf \<Rightarrow> ret 0)"

definition either_copyin :: "source \<Rightarrow> nat \<Rightarrow> (int \<times> u8 list, 'z procs_scheme) km" where
  "either_copyin d len =
     bind myproc (\<lambda>mp.
     case d of
       UserFrom src \<Rightarrow>
         (case mp of None \<Rightarrow> panic ''kerneltrap''
          | Some p \<Rightarrow> bind (pget p p_pagetable) (\<lambda>pt. copyin pt src len))
     | KernFrom bs \<Rightarrow> ret (0, take len bs))"

text \<open>Pointer arithmetic on destinations and sources.\<close>

primrec dest_add :: "dest \<Rightarrow> nat \<Rightarrow> dest" where
  "dest_add (UserTo a) n = UserTo (a + of_nat n)"
| "dest_add (KernTo a) n = KernTo (a + of_nat n)"
| "dest_add KernBuf n = KernBuf"

primrec source_add :: "source \<Rightarrow> nat \<Rightarrow> source" where
  "source_add (UserFrom a) n = UserFrom (a + of_nat n)"
| "source_add (KernFrom bs) n = KernFrom (drop n bs)"

end
