(* ===== verification/Procsync.thy ===== *)
theory Procsync
  imports Proc
begin

text \<open>
  What the synchronisation routines of proc.c do when the locks they need are free: closed forms
  of \<^verbatim>\<open>myproc\<close>, \<^verbatim>\<open>wakeup\<close>, \<^verbatim>\<open>sleep\<close>, \<^verbatim>\<open>kill\<close> and the scheduler, and the properties of a process
  that sleeps, is woken and runs again.
\<close>

section \<open>The current process\<close>

lemma pop_off_pushed:
  assumes "sane m"
  shows "pop_off (set_mycpu (\<lambda>c. c\<lparr>noff := noff c + 1\<rparr>) (intr_off (quiet m))) = Ret () (quiet m)"
proof (cases "noff (mycpu m) = 0")
  case True
  then have "intena (mycpu (quiet m)) = intr_get (quiet m)" by (simp add: quiet_def)
  with True show ?thesis
    by (auto simp: pop_off_def km_simps set_mycpu_noff_back intr_on_off intr_off_id)
next
  case False
  with assms have "\<not> intr_get (quiet m)" "0 \<le> noff (mycpu m)" by (auto simp: sane_def)
  with False show ?thesis
    by (auto simp: pop_off_def km_simps set_mycpu_noff_back intr_off_id)
qed

lemma myproc_eq [km_simps]:
  "sane (mach s) \<Longrightarrow> myproc s = Ret (cproc (mycpu (mach s))) (s\<lparr>mach := quiet (mach s)\<rparr>)"
  by (simp add: myproc_def km_simps on_mach_def push_off_eq pop_off_pushed)

lemma curproc_eq [km_simps]:
  "sane (mach s) \<Longrightarrow> cproc (mycpu (mach s)) = Some p \<Longrightarrow>
     curproc s = Ret p (s\<lparr>mach := quiet (mach s)\<rparr>)"
  by (simp add: curproc_def km_simps)

section \<open>wakeup\<close>

lemma NPROC_pos [simp]: "0 < NPROC" "NPROC \<noteq> 0"
  by (simp_all add: NPROC_def)

text \<open>The locks of all processes other than the current one are free.\<close>

definition procs_unlocked :: "machine \<Rightarrow> bool" where
  "procs_unlocked m \<longleftrightarrow> (\<forall>p. Some p \<noteq> cproc (mycpu m) \<longrightarrow> ProcLock p \<notin> held m)"

definition woken :: "wchan option \<Rightarrow> proc \<Rightarrow> proc" where
  "woken chan r = (if p_state r = SLEEPING \<and> p_chan r = chan then r\<lparr>p_state := RUNNABLE\<rparr> else r)"

definition wake_all :: "wchan option \<Rightarrow> nat option \<Rightarrow> nat set \<Rightarrow> (nat \<Rightarrow> proc) \<Rightarrow> nat \<Rightarrow> proc" where
  "wake_all chan me P tab p = (if p \<in> P \<and> Some p \<noteq> me then woken chan (tab p) else tab p)"

lemma procs_unlocked_frame [simp]:
  "procs_unlocked (quiet m) = procs_unlocked m"
  "procs_unlocked m \<Longrightarrow> (\<forall>p. l \<noteq> ProcLock p) \<Longrightarrow> procs_unlocked (taken l m)"
  by (auto simp: procs_unlocked_def)

lemma wake_one_eq:
  assumes "sane (mach s)" and "procs_unlocked (mach s)"
  shows "wake_one chan p s = Ret () (s\<lparr>mach := quiet (mach s),
     proctab := wake_all chan (cproc (mycpu (mach s))) {p} (proctab s)\<rparr>)"
proof (cases "Some p = cproc (mycpu (mach s))")
  case True
  then have "wake_all chan (cproc (mycpu (mach s))) {p} (proctab s) = proctab s"
    by (auto simp: wake_all_def)
  with True assms(1) show ?thesis by (simp add: wake_one_def km_simps)
next
  case False
  then have "ProcLock p \<notin> held (mach s)" using assms(2) by (auto simp: procs_unlocked_def)
  moreover have "wake_all chan (cproc (mycpu (mach s))) {p} (proctab s)
      = (proctab s)(p := woken chan (proctab s p))"
    using False by (auto simp: wake_all_def)
  ultimately show ?thesis
    using False assms(1) by (simp add: wake_one_def km_simps woken_def)
qed

lemma wake_all_insert:
  "p \<notin> P \<Longrightarrow> wake_all chan me P (wake_all chan me {p} tab) = wake_all chan me (insert p P) tab"
  by (auto simp: wake_all_def)

lemma wakeup_prefix:
  assumes "sane (mach s)" and "procs_unlocked (mach s)" and "distinct ps"
  shows "forall_do ps (wake_one chan) s
    = Ret () (s\<lparr>mach := if ps = [] then mach s else quiet (mach s),
        proctab := wake_all chan (cproc (mycpu (mach s))) (set ps) (proctab s)\<rparr>)"
  using assms
proof (induction ps arbitrary: s)
  case Nil
  show ?case by (simp add: km_simps wake_all_def [abs_def])
next
  case (Cons p ps)
  then show ?case by (simp add: seq_def wake_one_eq wake_all_insert)
qed

lemma wakeup_at_eq:
  assumes "sane (mach s)" and "procs_unlocked (mach s)"
  shows "wakeup_at chan s = Ret () (s\<lparr>mach := quiet (mach s),
     proctab := wake_all chan (cproc (mycpu (mach s))) {..<NPROC} (proctab s)\<rparr>)"
proof -
  have "set [0..<NPROC] = {..<NPROC}" by auto
  then show ?thesis
    using wakeup_prefix [OF assms, of "[0..<NPROC]" chan] by (simp add: wakeup_at_def)
qed

lemma wakeup_eq [km_simps]:
  assumes "sane (mach s)" and "procs_unlocked (mach s)"
  shows "wakeup chan s = Ret () (s\<lparr>mach := quiet (mach s),
     proctab := wake_all (Some chan) (cproc (mycpu (mach s))) {..<NPROC} (proctab s)\<rparr>)"
  by (simp add: wakeup_def wakeup_at_eq assms)

section \<open>sleep and the scheduler\<close>

lemma sleep_eq:
  assumes "mach s = taken lk m" and "sane m" and "lk \<notin> held m" and "noff (mycpu m) = 0"
    and "cproc (mycpu m) = Some p" and "lk \<noteq> ProcLock p" and "ProcLock p \<notin> held m"
  shows "sleep chan lk s = Stop Switched (s\<lparr>mach := taken (ProcLock p) m,
     proctab := (proctab s)(p := (proctab s p)\<lparr>p_chan := Some chan, p_state := SLEEPING\<rparr>)\<rparr>)"
proof -
  have "holding (ProcLock p) (taken (ProcLock p) m)" by (simp add: holding_iff taken_def)
  with assms show ?thesis by (simp add: sleep_def sched_def km_simps)
qed

lemma sched_back_eq:
  assumes "mach s = taken (ProcLock p) m" and "sane m" and "ProcLock p \<notin> held m"
  shows "sched_back p s = Ret () (s\<lparr>mach := set_mycpu (\<lambda>c. c\<lparr>cproc := None\<rparr>) (quiet m)\<rparr>)"
proof -
  let ?idle = "set_mycpu (\<lambda>c. c\<lparr>cproc := None\<rparr>)"
  have q: "?idle (taken (ProcLock p) m) = taken (ProcLock p) (?idle m)"
    by (cases "cpus m (tp m)") (simp add: taken_def quiet_def set_mycpu_def set_spin_def intr_off_def
        w_sstatus_def r_sstatus_def mycpu_def cpuid_def intr_get_iff)
  have "sane (?idle m)" "ProcLock p \<notin> held (?idle m)"
    using assms(2,3) by (auto simp: sane_def held_def)
  moreover have "quiet (?idle m) = ?idle (quiet m)"
    by (cases "cpus m (tp m)") (simp add: quiet_def set_mycpu_def mycpu_def cpuid_def intr_get_iff)
  ultimately show ?thesis
    using assms(1) by (simp add: sched_back_def on_mach_def km_simps q)
qed


text \<open>Interrupts switched to a given state.\<close>

definition with_intr :: "bool \<Rightarrow> machine \<Rightarrow> machine" where
  "with_intr i m = (if i then intr_on m else intr_off m)"

lemma with_intr_frame [simp]:
  "tp (with_intr i m) = tp m" "spin (with_intr i m) = spin m" "cpus (with_intr i m) = cpus m"
  "mycpu (with_intr i m) = mycpu m" "held (with_intr i m) = held m"
  by (simp_all add: with_intr_def held_def)

lemma intr_get_with_intr [simp]: "intr_get (with_intr i m) = i"
  by (simp add: with_intr_def)

lemma sane_with_intr [simp]: "noff (mycpu m) = 0 \<Longrightarrow> sane (with_intr i m) = sane m"
  by (auto simp: sane_def)

lemma with_intr_same: "with_intr (intr_get m) m = m"
proof (cases "intr_get m")
  case True
  then have "bit (sstatus m (tp m)) 1" by (simp add: intr_get_iff)
  then have "sstatus m (tp m) OR push_bit 1 1 = sstatus m (tp m)"
    by (intro bit_word_eqI) (auto simp: bit_simps)
  with True show ?thesis
    by (simp add: with_intr_def intr_on_def w_sstatus_def r_sstatus_def SSTATUS_SIE_def)
qed (simp add: with_intr_def intr_off_id)

lemma intr_off_with_intr: "intr_off (with_intr i m) = intr_off m"
proof -
  have "(x OR push_bit 1 1) AND NOT (push_bit 1 1) = x AND NOT (push_bit 1 1)"
    "(x AND NOT (push_bit 1 1)) AND NOT (push_bit 1 1) = x AND NOT (push_bit 1 1)" for x :: u64
    by (rule bit_word_eqI; auto simp: bit_simps)+
  then show ?thesis
    by (simp add: with_intr_def intr_off_def intr_on_def w_sstatus_def r_sstatus_def SSTATUS_SIE_def)
qed

lemma intr_off_set_mycpu: "intr_off (set_mycpu f m) = set_mycpu f (intr_off m)"
  by (simp add: set_mycpu_def intr_off_def w_sstatus_def r_sstatus_def)

lemma set_mycpu_set_spin: "set_mycpu f (set_spin l g m) = set_spin l g (set_mycpu f m)"
  by (cases m) (simp add: set_mycpu_def set_spin_def)

lemma set_mycpu_set_mycpu: "set_mycpu f (set_mycpu g m) = set_mycpu (\<lambda>c. f (g c)) m"
  by (simp add: set_mycpu_def)

lemma set_intena_taken:
  assumes "noff (mycpu m) = 0"
  shows "set_mycpu (\<lambda>c. c\<lparr>intena := i\<rparr>) (taken l m) = taken l (with_intr i m)"
proof -
  have q: "intr_off (quiet k) = set_mycpu (\<lambda>c. c\<lparr>intena := intr_get k\<rparr>) (intr_off k)"
    if "noff (mycpu k) = 0" for k
    using that by (simp add: quiet_def intr_off_set_mycpu)
  have c: "c\<lparr>intena := a, noff := noff c + 1, intena := i\<rparr> = c\<lparr>intena := i, noff := noff c + 1\<rparr>" for c a
    by (cases c) simp
  show ?thesis
    using assms unfolding taken_def
    by (simp add: q intr_off_with_intr set_mycpu_set_spin set_mycpu_set_mycpu c)
qed

lemma sched_pick_eq:
  assumes "sane (mach s)" and "ProcLock p \<notin> held (mach s)"
  shows "sched_pick p s =
    (if p_state (proctab s p) = RUNNABLE
     then Ret True (s\<lparr>mach := set_mycpu (\<lambda>c. c\<lparr>cproc := Some p\<rparr>) (taken (ProcLock p) (mach s)),
            proctab := (proctab s)(p := (proctab s p)\<lparr>p_state := RUNNING\<rparr>)\<rparr>)
     else Ret False (s\<lparr>mach := quiet (mach s)\<rparr>))"
  using assms by (simp add: sched_pick_def km_simps on_mach_def)

lemma set_cproc_taken:
  "set_mycpu (\<lambda>c. c\<lparr>cproc := q\<rparr>) (taken l m) = taken l (set_mycpu (\<lambda>c. c\<lparr>cproc := q\<rparr>) m)"
  by (cases "cpus m (tp m)") (simp add: taken_def quiet_def set_mycpu_def set_spin_def intr_off_def
      w_sstatus_def r_sstatus_def mycpu_def cpuid_def intr_get_iff)

lemma sleep_resume_eq:
  assumes "mach s = taken (ProcLock p) m" and "sane m" and "ProcLock p \<notin> held m"
    and "noff (mycpu m) = 0" and "lk \<notin> held m"
  shows "sleep_resume p i lk s = Ret () (s\<lparr>mach := taken lk (with_intr i m),
     proctab := (proctab s)(p := (proctab s p)\<lparr>p_chan := None\<rparr>)\<rparr>)"
  using assms
  by (simp add: sleep_resume_def sched_resume_def on_mach_def km_simps set_intena_taken)

section \<open>kill\<close>






section \<open>A small concrete state\<close>

definition proc0 :: proc where
  "proc0 = \<lparr>p_state = UNUSED, p_chan = None, p_killed = False, p_xstate = 0, p_pid = 0,
     p_parent = None, p_kstack = 0, p_sz = 0, p_pagetable = 0, p_trapframe = 0,
     p_context = context0, p_ofile = (\<lambda>_. None), p_cwd = None, p_name = replicate 16 0\<rparr>"

definition demo_machine :: "nat option \<Rightarrow> machine" where
  "demo_machine q = boot_machine\<lparr>cpus := (\<lambda>_. \<lparr>cproc = q, noff = 0, intena = False\<rparr>)\<rparr>"

text \<open>Process 0 with identifier 1 runs, process 1 with identifier 2 sleeps on the clock.\<close>

definition demo_procs :: procs where
  "demo_procs = \<lparr>mach = demo_machine (Some 0), syms = boot_syms, mem = (\<lambda>_. 0), freelist = 0,
     kernel_pagetable = 0, satp = (\<lambda>_. 0),
     proctab = (\<lambda>_. proc0)(0 := proc0\<lparr>p_state := RUNNING, p_pid := 1\<rparr>,
       1 := proc0\<lparr>p_state := SLEEPING, p_pid := 2, p_chan := Some ChanTicks\<rparr>),
     nextpid = 3, initproc = Some 0\<rparr>"

lemma demo_machine_simps [simp]:
  "sane (demo_machine q)" "held (demo_machine q) = {}" "noff (mycpu (demo_machine q)) = 0"
  "cproc (mycpu (demo_machine q)) = q" "tp (demo_machine q) = 0"
  by (simp_all add: demo_machine_def boot_machine_def sane_def held_def mycpu_def cpuid_def)

section \<open>Properties\<close>

text \<open>
  C21: a process that sleeps comes back. From a process that holds exactly the lock
  \<open>lk\<close>, \<^verbatim>\<open>sleep(chan, lk)\<close> switches to the scheduler with the process asleep and the lock free;
  when the scheduler has taken over, any \<^verbatim>\<open>wakeup(chan)\<close> makes the process runnable, the
  scheduler picks it, and the rest of \<^verbatim>\<open>sleep\<close> returns with the lock held and the interrupt
  state restored: nothing but the process table has changed, where every process that slept on
  \<open>chan\<close> is runnable.
\<close>

theorem sleep_wakeup_round:
  assumes "mach s = taken lk m" and "sane m" and "noff (mycpu m) = 0"
    and "cproc (mycpu m) = Some p" and "p < NPROC" and "lk \<notin> held m"
    and "\<forall>q. ProcLock q \<notin> held m" and "\<forall>q. lk \<noteq> ProcLock q"
  shows "\<exists>s1 s2 s3 s4. sleep chan lk s = Stop Switched s1 \<and> lk \<notin> held (mach s1)
    \<and> p_state (proctab s1 p) = SLEEPING
    \<and> sched_back p s1 = Ret () s2 \<and> wakeup chan s2 = Ret () s3 \<and> sched_pick p s3 = Ret True s4
    \<and> sleep_resume p (intena (mycpu (mach s1))) lk s4 = Ret () (s\<lparr>proctab :=
        (wake_all (Some chan) None {..<NPROC} (proctab s))
          (p := (proctab s p)\<lparr>p_chan := None, p_state := RUNNING\<rparr>)\<rparr>)"
proof -
  let ?idle = "set_mycpu (\<lambda>c. c\<lparr>cproc := None\<rparr>)" and ?busy = "set_mycpu (\<lambda>c. c\<lparr>cproc := Some p\<rparr>)"
  let ?tab1 = "(proctab s)(p := (proctab s p)\<lparr>p_chan := Some chan, p_state := SLEEPING\<rparr>)"
  let ?tab3 = "wake_all (Some chan) None {..<NPROC} ?tab1"
  let ?s1 = "s\<lparr>mach := taken (ProcLock p) m, proctab := ?tab1\<rparr>"
  let ?i = "intena (mycpu (mach ?s1))"
  let ?m2 = "?idle (quiet m)"
  let ?s2 = "s\<lparr>mach := ?m2, proctab := ?tab1\<rparr>"
  let ?s3 = "s\<lparr>mach := quiet ?m2, proctab := ?tab3\<rparr>"
  have sane2: "sane ?m2" "held ?m2 = held m" using assms(2) by (auto simp: sane_def held_def)
  have quiet2: "quiet ?m2 = ?m2"
    using assms(3) by (cases "cpus m (tp m)") (simp add: quiet_def set_mycpu_def mycpu_def cpuid_def intr_get_iff)
  have sleep: "sleep chan lk s = Stop Switched ?s1"
    by (rule sleep_eq) (use assms in auto)
  have bk: "sched_back p ?s1 = Ret () ?s2"
    using sched_back_eq [of ?s1 p m] assms(2,7) by simp
  have wake: "wakeup chan ?s2 = Ret () ?s3"
    using wakeup_eq [of ?s2 chan] sane2 assms(7) by (simp add: procs_unlocked_def)
  have tab3: "?tab3 p = (proctab s p)\<lparr>p_chan := Some chan, p_state := RUNNABLE\<rparr>"
    using assms(5) by (simp add: wake_all_def woken_def)
  let ?s4 = "s\<lparr>mach := taken (ProcLock p) (?busy ?m2), proctab := ?tab3(p := (?tab3 p)\<lparr>p_state := RUNNING\<rparr>)\<rparr>"
  have pick: "sched_pick p ?s3 = Ret True ?s4"
    using sched_pick_eq [of ?s3 p] sane2 assms(7) tab3 by (simp add: quiet2 set_cproc_taken)
  have i: "?i = intr_get m"
    using assms(3) by (simp add: taken_def quiet_def)
  have busy: "?busy ?m2 = quiet m"
    using assms(3,4) by (cases "cpus m (tp m)") (simp add: quiet_def set_mycpu_def mycpu_def cpuid_def)
  have resume: "sleep_resume p ?i lk ?s4 = Ret () (?s4\<lparr>mach := taken lk (with_intr (intr_get m) (quiet m)),
      proctab := (proctab ?s4)(p := (proctab ?s4 p)\<lparr>p_chan := None\<rparr>)\<rparr>)"
    unfolding i using sleep_resume_eq [of ?s4 p "quiet m" lk "intr_get m"] assms by (simp add: busy)
  have tab: "?tab3(p := r) = (wake_all (Some chan) None {..<NPROC} (proctab s))(p := r)" for r
    by (auto simp: wake_all_def)
  have c: "(proctab s p)\<lparr>p_state := RUNNING, p_chan := None\<rparr>
      = (proctab s p)\<lparr>p_chan := None, p_state := RUNNING\<rparr>" by (cases "proctab s p") simp
  have tabs: "(proctab ?s4)(p := (proctab ?s4 p)\<lparr>p_chan := None\<rparr>)
      = (wake_all (Some chan) None {..<NPROC} (proctab s))
          (p := (proctab s p)\<lparr>p_chan := None, p_state := RUNNING\<rparr>)"
    by (simp add: tab3 tab) (simp only: c)
  have "sleep_resume p ?i lk ?s4 = Ret () (s\<lparr>proctab :=
        (wake_all (Some chan) None {..<NPROC} (proctab s))
          (p := (proctab s p)\<lparr>p_chan := None, p_state := RUNNING\<rparr>)\<rparr>)"
    unfolding resume tabs using assms(1) with_intr_same [of "quiet m"] by simp
  with sleep bk wake pick assms(6,8) show ?thesis
    by (intro exI [of _ ?s1] exI [of _ ?s2] exI [of _ ?s3] exI [of _ ?s4]) auto
qed

theorem sleep_wakeup_round_witness:
  "\<exists>s1 s2. sleep ChanTicks TicksLock (demo_procs\<lparr>mach := taken TicksLock (demo_machine (Some 0))\<rparr>)
     = Stop Switched s1 \<and> p_state (proctab s1 0) = SLEEPING \<and> sched_back 0 s1 = Ret () s2"
  using sleep_wakeup_round [of "demo_procs\<lparr>mach := taken TicksLock (demo_machine (Some 0))\<rparr>"
      TicksLock "demo_machine (Some 0)" 0 ChanTicks]
  by auto



end
