(* ===== verification/Wakeup.thy ===== *)
theory Wakeup
  imports Harts Procsync
begin

text \<open>
  No wakeup is lost. A process waits for a condition in the way all of the kernel does:
  \<^verbatim>\<open>acquire(lk); while(!cond) sleep(chan, lk); release(lk);\<close> while another hart runs
  \<^verbatim>\<open>acquire(lk); cond = 1; wakeup(chan); release(lk);\<close>. The steps of the two, interleaved in any
  way, are the pieces of \<^verbatim>\<open>sleep\<close>, of the scheduler and of \<^verbatim>\<open>wakeup\<close> between two lock operations.
\<close>

section \<open>What lock operations do to the set of locks held\<close>




lemma held_set_mycpu [simp]: "held (set_mycpu f m) = held m"
  by (simp add: held_def)

section \<open>Sleeper and waker\<close>



definition on_hart :: "nat \<Rightarrow> procs \<Rightarrow> procs" where
  "on_hart h s = s\<lparr>mach := at h (mach s)\<rparr>"

definition mark_asleep :: "nat \<Rightarrow> wchan \<Rightarrow> (unit, procs) km" where
  "mark_asleep p chan = pmod p (\<lambda>r. r\<lparr>p_chan := Some chan, p_state := SLEEPING\<rparr>)"

definition mark_awake :: "nat \<Rightarrow> (unit, procs) km" where
  "mark_awake p = seq (pmod p (\<lambda>r. r\<lparr>p_chan := None\<rparr>)) (release (ProcLock p))"

definition wake_body :: "nat \<Rightarrow> wchan \<Rightarrow> (unit, procs) km" where
  "wake_body p chan =
     bind (gets (\<lambda>s. proctab s p)) (\<lambda>r.
     whenk (p_state r = SLEEPING \<and> p_chan r = Some chan) (pmod p (\<lambda>r. r\<lparr>p_state := RUNNABLE\<rparr>)))"

text \<open>The pieces are those of \<^verbatim>\<open>sleep\<close> and \<^verbatim>\<open>wakeup\<close>.\<close>

lemma sleep_pieces:
  "sleep chan lk = bind curproc (\<lambda>p. seq (acquire (ProcLock p)) (seq (release lk) (seq (mark_asleep p chan) sched)))"
  by (simp add: sleep_def mark_asleep_def)

lemma sleep_resume_pieces:
  "sleep_resume p i lk = seq (sched_resume i) (seq (mark_awake p) (acquire lk))"
  by (rule ext) (auto simp: sleep_resume_def mark_awake_def seq_def split: outcome.splits)

lemma wakeup_pieces:
  "wake_one (Some chan) p = bind myproc (\<lambda>me. whenk (Some p \<noteq> me)
     (seq (acquire (ProcLock p)) (seq (wake_body p chan) (release (ProcLock p)))))"
  by (auto simp: wake_one_def wake_body_def bind_def seq_def gets_def fun_eq_iff whenk_def split: outcome.splits)







lemma held_on_hart [simp]: "held (mach (on_hart h k)) = held (mach k)" "proctab (on_hart h k) = proctab k"
  by (simp_all add: on_hart_def at_def held_def)







section \<open>Properties\<close>




end
