(* ===== verification/Pagetable.thy ===== *)
theory Pagetable
  imports Vm
begin

text \<open>
  The tree that a page table is. A table page is reached from the root by a path of at most
  two indices; the third index selects the entry for a page. A virtual page is named by its
  number, the virtual address divided by the page size. The lemmas say how the tree changes
  when an entry is written and when a new table page is linked.
\<close>

section \<open>Paths and entries\<close>

definition entry :: "bytes \<Rightarrow> u64 \<Rightarrow> nat \<Rightarrow> u64" where
  "entry m p i = load64 m (unat p + 8 * i)"

definition valid :: "u64 \<Rightarrow> bool" where
  "valid e \<longleftrightarrow> e AND PTE_V \<noteq> 0"

definition child :: "bytes \<Rightarrow> u64 \<Rightarrow> nat \<Rightarrow> u64 option" where
  "child m p i = (if valid (entry m p i) then Some (PTE2PA (entry m p i)) else None)"

primrec node :: "bytes \<Rightarrow> u64 \<Rightarrow> nat list \<Rightarrow> u64 option" where
  "node m pt [] = Some pt"
| "node m pt (i # is) = (case child m pt i of None \<Rightarrow> None | Some q \<Rightarrow> node m q is)"

definition okpath :: "nat list \<Rightarrow> bool" where
  "okpath q \<longleftrightarrow> length q \<le> 2 \<and> (\<forall>i \<in> set q. i < 512)"

definition tables :: "bytes \<Rightarrow> u64 \<Rightarrow> u64 set" where
  "tables m pt = {p. \<exists>q. okpath q \<and> node m pt q = Some p}"

definition pt_wf :: "linksyms \<Rightarrow> bytes \<Rightarrow> u64 \<Rightarrow> bool" where
  "pt_wf y m pt \<longleftrightarrow>
     (\<forall>p \<in> tables m pt. ram_page y p)
   \<and> (\<forall>q q' p. okpath q \<longrightarrow> okpath q' \<longrightarrow> node m pt q = Some p \<longrightarrow> node m pt q' = Some p \<longrightarrow> q = q')
   \<and> (\<forall>q i p c. okpath (q @ [i]) \<longrightarrow> node m pt q = Some p \<longrightarrow> child m p i = Some c \<longrightarrow>
        entry m p i = PA2PTE c OR PTE_V)"

definition path :: "nat \<Rightarrow> nat list" where
  "path v = [v div 2 ^ 18 mod 512, v div 2 ^ 9 mod 512]"

definition idx :: "nat \<Rightarrow> nat" where
  "idx v = v mod 512"

text \<open>The entry of virtual page \<open>v\<close>, 0 where a table page on its path is missing.\<close>

definition pte :: "bytes \<Rightarrow> u64 \<Rightarrow> nat \<Rightarrow> u64" where
  "pte m pt v = (case node m pt (path v) of None \<Rightarrow> 0 | Some p \<Rightarrow> entry m p (idx v))"

definition vpn :: "u64 \<Rightarrow> nat" where
  "vpn va = unat va div 4096"

abbreviation NVP :: nat where "NVP \<equiv> 2 ^ 26"

lemma node_snoc:
  "node m pt (q @ [i]) = (case node m pt q of None \<Rightarrow> None | Some p \<Rightarrow> child m p i)"
  by (induction q arbitrary: pt) (auto split: option.splits)

lemma node_append2:
  "node m pt (q @ [i, j]) = (case node m pt (q @ [i]) of None \<Rightarrow> None | Some p \<Rightarrow> child m p j)"
  using node_snoc [of m pt "q @ [i]" j] by simp

lemma okpath_Nil [simp]: "okpath []"
  by (simp add: okpath_def)

lemma okpath_snocD: "okpath (q @ [i]) \<Longrightarrow> okpath q \<and> i < 512"
  by (auto simp: okpath_def)

lemma okpath_path [simp]: "okpath (path v)"
  by (simp add: okpath_def path_def)

lemma idx_less [simp]: "idx v < 512"
  by (simp add: idx_def)

lemma valid_0 [simp]: "\<not> valid 0"
  by (simp add: valid_def)

lemma valid_or_V [simp]: "valid (e OR PTE_V)"
proof -
  have "bit ((e OR PTE_V) AND PTE_V) 0" by (simp add: PTE_V_def bit_simps)
  then show ?thesis by (auto simp: valid_def)
qed

lemma valid_or [simp]: "valid e \<Longrightarrow> valid (x OR e)"
proof -
  assume "valid e"
  then obtain n where "bit (e AND PTE_V) n" unfolding valid_def by (metis bit_eqI bit_0_eq bot_apply bot_bool_def)
  then have "bit ((x OR e) AND PTE_V) n" by (simp add: bit_simps)
  then show ?thesis by (auto simp: valid_def)
qed

lemma PTE2PA_link: "ram_page y c \<Longrightarrow> PTE2PA (PA2PTE c OR PTE_V) = c"
  using ram_page_bound [of y c]
  by (intro PTE2PA_PA2PTE) (auto simp: ram_page_def PTE_bits)

lemma path_inj:
  assumes "path v = path w" "idx v = idx w" "v < NVP" "w < NVP"
  shows "v = w"
proof -
  define a a' where "a = v div 512" and "a' = w div 512"
  have d: "v div 2 ^ 18 = a div 512" "w div 2 ^ 18 = a' div 512"
    by (simp_all add: a_def a'_def div_mult2_eq [symmetric])
  have "v div 2 ^ 18 < 512" "w div 2 ^ 18 < 512" using assms(3,4)
    by (auto intro!: less_mult_imp_div_less)
  then have "a div 512 = a' div 512" "a mod 512 = a' mod 512"
    using assms(1) d by (simp_all add: path_def a_def a'_def)
  then have "a = a'" by (metis div_mult_mod_eq)
  then show ?thesis using assms(2) unfolding idx_def a_def a'_def by (metis div_mult_mod_eq)
qed

lemma px_path:
  "path (vpn va) = [unat (PX 2 va), unat (PX 1 va)]" "idx (vpn va) = unat (PX 0 va)"
  by (simp_all add: path_def idx_def vpn_def PX_eq div_mult2_eq [symmetric])

lemma vpn_less: "va < MAXVA \<Longrightarrow> vpn va < NVP"
  by (simp add: vpn_def MAXVA_val word_less_nat_alt less_mult_imp_div_less)

lemma pt_wf_ram: "pt_wf y m pt \<Longrightarrow> okpath q \<Longrightarrow> node m pt q = Some p \<Longrightarrow> ram_page y p"
  unfolding pt_wf_def tables_def by blast

lemma pt_wf_inj:
  "pt_wf y m pt \<Longrightarrow> okpath q \<Longrightarrow> okpath q' \<Longrightarrow> node m pt q = Some p \<Longrightarrow> node m pt q' = Some p \<Longrightarrow>
    q = q'"
  unfolding pt_wf_def by blast

lemma pt_wf_entry:
  "pt_wf y m pt \<Longrightarrow> okpath (q @ [i]) \<Longrightarrow> node m pt q = Some p \<Longrightarrow> child m p i = Some c \<Longrightarrow>
     entry m p i = PA2PTE c OR PTE_V"
  unfolding pt_wf_def by blast

lemma pt_wf_entry_same:
  assumes "pt_wf y m pt" "okpath (q @ [i])" "node m pt q = Some p"
    and "entry m' p i = entry m p i" "child m' p i = Some c"
  shows "entry m' p i = PA2PTE c OR PTE_V"
  using pt_wf_entry [OF assms(1-3), of c] assms(4,5) by (simp add: child_def split: if_splits)

lemma pt_wfI:
  assumes "\<And>q p. okpath q \<Longrightarrow> node m pt q = Some p \<Longrightarrow> ram_page y p"
    and "\<And>q q' p. okpath q \<Longrightarrow> okpath q' \<Longrightarrow> node m pt q = Some p \<Longrightarrow> node m pt q' = Some p \<Longrightarrow>
      q = q'"
    and "\<And>q i p c. okpath (q @ [i]) \<Longrightarrow> node m pt q = Some p \<Longrightarrow> child m p i = Some c \<Longrightarrow>
      entry m p i = PA2PTE c OR PTE_V"
  shows "pt_wf y m pt"
  unfolding pt_wf_def tables_def using assms by blast

lemma tablesI: "okpath q \<Longrightarrow> node m pt q = Some p \<Longrightarrow> p \<in> tables m pt"
  unfolding tables_def by blast

lemma root_in_tables [simp]: "pt \<in> tables m pt"
  by (rule tablesI [of "[]"]) simp_all

lemma ram_page_unat:
  assumes "ram_page y p" "i < 512"
  shows "unat (p + 8 * of_nat i) = unat p + 8 * i"
proof -
  have b: "unat p + 4096 \<le> 0x88000000" by (rule ram_page_bound [OF assms(1)])
  have "unat (8 * of_nat i :: u64) = 8 * i"
    using assms(2) by (simp add: unat_word_ariths unat_of_nat)
  then show ?thesis using b assms(2) by (simp add: unat_word_ariths)
qed

lemma ram_page_pte_addr:
  assumes "ram_page y p"
  shows "unat (pte_addr p (PX l va)) = unat p + 8 * unat (PX l va)"
    "pte_addr p (PX l va) \<noteq> 0"
proof -
  have "p + 8 * PX l va = p + 8 * of_nat (unat (PX l va))" by simp
  then show u: "unat (pte_addr p (PX l va)) = unat p + 8 * unat (PX l va)"
    unfolding pte_addr_def using ram_page_unat [OF assms unat_PX_less] by metis
  have "p \<noteq> 0" using assms by (simp add: ram_page_def)
  then have "unat p \<noteq> 0" by (simp add: unat_eq_zero)
  then have "unat (pte_addr p (PX l va)) \<noteq> 0" unfolding u by simp
  then show "pte_addr p (PX l va) \<noteq> 0" by auto
qed

section \<open>Framing\<close>

lemma entry_cong: "same_page p m m' \<Longrightarrow> i < 512 \<Longrightarrow> entry m' p i = entry m p i"
  unfolding entry_def same_page_def by (intro load64_cong) (simp add: add.assoc)

lemma child_cong: "entry m' p i = entry m p i \<Longrightarrow> child m' p i = child m p i"
  by (simp add: child_def)

lemma node_frame:
  assumes "\<And>q p. okpath q \<Longrightarrow> length q \<le> 1 \<Longrightarrow> node m pt q = Some p \<Longrightarrow> same_page p m m'"
    and "okpath q"
  shows "node m' pt q = node m pt q"
  using assms(2)
proof (induction q rule: rev_induct)
  case (snoc i q)
  then have ok: "okpath q" "i < 512" "length q \<le> 1" by (auto simp: okpath_def)
  with snoc.IH show ?case
    by (auto simp: node_snoc split: option.splits intro!: child_cong entry_cong assms(1))
qed simp

lemma tables_frame:
  assumes "\<And>q p. okpath q \<Longrightarrow> length q \<le> 1 \<Longrightarrow> node m pt q = Some p \<Longrightarrow> same_page p m m'"
  shows "tables m' pt = tables m pt"
proof -
  have "node m' pt q = node m pt q" if "okpath q" for q
    by (rule node_frame) (use assms that in blast)+
  then show ?thesis unfolding tables_def by auto
qed

lemma frame_all:
  assumes "\<And>p. p \<in> tables m pt \<Longrightarrow> same_page p m m'"
  shows "okpath q \<Longrightarrow> node m' pt q = node m pt q" "tables m' pt = tables m pt"
    "pte m' pt v = pte m pt v"
proof -
  have a: "\<And>q p. okpath q \<Longrightarrow> length q \<le> 1 \<Longrightarrow> node m pt q = Some p \<Longrightarrow> same_page p m m'"
    using assms tablesI by blast
  then show n: "okpath q \<Longrightarrow> node m' pt q = node m pt q" for q
    by (rule node_frame)
  show "tables m' pt = tables m pt" by (rule tables_frame) (rule a)
  show "pte m' pt v = pte m pt v"
    using assms tablesI [OF okpath_path, of m pt v]
    by (auto simp: pte_def n [OF okpath_path] split: option.splits intro!: entry_cong)
qed

lemma pt_wf_frame:
  assumes "pt_wf y m pt" "\<And>p. p \<in> tables m pt \<Longrightarrow> same_page p m m'"
  shows "pt_wf y m' pt"
proof -
  note fr = frame_all [OF assms(2)]
  have en: "entry m' p i = PA2PTE c OR PTE_V"
    if "okpath (q @ [i])" "node m' pt q = Some p" "child m' p i = Some c" for q i p c
  proof -
    have q: "okpath q" "i < 512" using okpath_snocD [OF that(1)] by auto
    then have n: "node m pt q = Some p" using fr(1) that(2) by simp
    then have "entry m' p i = entry m p i"
      using entry_cong [OF assms(2) q(2)] tablesI [OF q(1) n] by blast
    then show ?thesis by (rule pt_wf_entry_same [OF assms(1) that(1) n _ that(3)])
  qed
  show ?thesis
    by (rule pt_wfI [OF pt_wf_ram [OF assms(1)] pt_wf_inj [OF assms(1)] en]) (simp_all add: fr(1))
qed

section \<open>Writing an entry of a last-level page\<close>

lemma store_entry_other_page:
  assumes "page_aligned p" "page_aligned r" "p \<noteq> r" "i < 512"
  shows "same_page p m (store64 m (unat r + 8 * i) e)"
  using assms by (intro same_page_store64) auto

lemma entry_store:
  "entry (store64 m (unat p + 8 * i) e) p j = (if j = i then e else entry m p j)"
  by (cases "j < i") (auto simp: entry_def)

lemma leaf_write:
  fixes e :: u64
  assumes wf: "pt_wf y m pt" and n: "node m pt (path v) = Some p" and v: "v < NVP"
  defines "m' \<equiv> store64 m (unat p + 8 * idx v) e"
  shows "okpath q \<Longrightarrow> node m' pt q = node m pt q" "tables m' pt = tables m pt" "pt_wf y m' pt"
    "w < NVP \<Longrightarrow> pte m' pt w = (if w = v then e else pte m pt w)"
proof -
  have rp: "ram_page y p" by (rule pt_wf_ram [OF wf okpath_path n])
  have other: "same_page r m m'" if "okpath q" "node m pt q = Some r" "q \<noteq> path v" for q r
  proof -
    have "r \<noteq> p" using pt_wf_inj [OF wf that(1) okpath_path that(2)] n that(3) by auto
    then show ?thesis unfolding m'_def
      using rp pt_wf_ram [OF wf that(1,2)] by (intro store_entry_other_page) (auto simp: ram_page_def)
  qed
  have up: "same_page r m m'" if "okpath q" "length q \<le> 1" "node m pt q = Some r" for q r
    using that by (intro other [of q]) (auto simp: path_def)
  show nd: "okpath q \<Longrightarrow> node m' pt q = node m pt q" for q
    by (rule node_frame) (rule up)
  show "tables m' pt = tables m pt" by (rule tables_frame) (rule up)
  have en: "entry m' r i = PA2PTE c OR PTE_V"
    if "okpath (q @ [i])" "node m' pt q = Some r" "child m' r i = Some c" for q i r c
  proof -
    have q: "okpath q" "i < 512" "length q \<le> 1" using that(1) by (auto simp: okpath_def)
    then have nq: "node m pt q = Some r" using nd that(2) by simp
    have "entry m' r i = entry m r i" by (rule entry_cong [OF up [OF q(1,3) nq] q(2)])
    then show ?thesis by (rule pt_wf_entry_same [OF wf that(1) nq _ that(3)])
  qed
  show "pt_wf y m' pt"
    by (rule pt_wfI [OF pt_wf_ram [OF wf] pt_wf_inj [OF wf] en]) (simp_all add: nd)
  show "pte m' pt w = (if w = v then e else pte m pt w)" if w: "w < NVP"
  proof (cases "path w = path v")
    case True
    have "idx w = idx v \<longleftrightarrow> w = v" using path_inj [OF True _ w v] by auto
    then show ?thesis using True n nd [OF okpath_path, of v]
      by (simp add: pte_def) (simp add: m'_def entry_store)
  next
    case False
    then have "same_page r m m'" if "node m pt (path w) = Some r" for r
      using other [OF okpath_path that] by blast
    then show ?thesis using False
      by (auto simp: pte_def nd split: option.splits intro!: entry_cong)
  qed
qed

section \<open>Linking a new table page\<close>

definition zero_page :: "bytes \<Rightarrow> u64 \<Rightarrow> bool" where
  "zero_page m p \<longleftrightarrow> (\<forall>i < 4096. m (unat p + i) = 0)"

lemma zero_page_entry:
  assumes "zero_page m p" "i < 512"
  shows "entry m p i = 0"
proof -
  have "rd m (unat p + 8 * i) 8 = replicate 8 0"
    using assms by (intro nth_equalityI) (auto simp: zero_page_def add.assoc)
  then show ?thesis by (simp add: entry_def load64_def numeral_eq_Suc)
qed

text \<open>\<open>m'\<close> is \<open>m\<close> with the empty page \<open>c\<close> linked as child \<open>i\<close> of the page \<open>p\<close> at path \<open>q\<close>.\<close>

definition linked :: "bytes \<Rightarrow> u64 \<Rightarrow> nat list \<Rightarrow> u64 \<Rightarrow> nat \<Rightarrow> u64 \<Rightarrow> bytes \<Rightarrow> bool" where
  "linked m pt q p i c m' \<longleftrightarrow>
     node m pt q = Some p \<and> okpath (q @ [i]) \<and> child m p i = None \<and> c \<notin> tables m pt
   \<and> zero_page m' c \<and> entry m' p i = PA2PTE c OR PTE_V \<and> PTE2PA (PA2PTE c OR PTE_V) = c
   \<and> (\<forall>r \<in> tables m pt. \<forall>j < 512. (r, j) \<noteq> (p, i) \<longrightarrow> entry m' r j = entry m r j)"

lemma linked_node:
  assumes wf: "pt_wf y m pt" and l: "linked m pt q p i c m'" and ok: "okpath k"
  shows "node m' pt k = (if k = q @ [i] then Some c else node m pt k)"
  using ok
proof (induction k rule: rev_induct)
  case Nil
  then show ?case by simp
next
  case (snoc j k)
  have k: "okpath k" "j < 512" using okpath_snocD [OF snoc.prems] by auto
  show ?case
  proof (cases "k = q @ [i]")
    case True
    have "node m pt (k @ [j]) = None"
      using l True by (simp add: node_append2 node_snoc linked_def)
    moreover have "child m' c j = None"
      using l zero_page_entry [of m' c j] k(2) by (simp add: child_def linked_def)
    ultimately show ?thesis using snoc.IH [OF k(1)] True by (simp add: node_append2)
  next
    case False
    then have nk: "node m' pt k = node m pt k" using snoc.IH [OF k(1)] by simp
    show ?thesis
    proof (cases "node m pt k")
      case None
      moreover have "k \<noteq> q" using None l by (auto simp: linked_def)
      ultimately show ?thesis using nk by (auto simp: node_snoc)
    next
      case (Some r)
      have r: "r = p \<longleftrightarrow> k = q"
        using l Some pt_wf_inj [OF wf k(1) _ Some, of q] okpath_snocD [of q i]
        by (auto simp: linked_def)
      have "entry m' r j = entry m r j" if "(r, j) \<noteq> (p, i)"
        using l that tablesI [OF k(1) Some] k(2) by (auto simp: linked_def)
      then have "child m' r j = child m r j" if "(r, j) \<noteq> (p, i)"
        using that child_cong by blast
      moreover have "child m' p i = Some c" using l by (simp add: child_def linked_def)
      ultimately show ?thesis using nk Some r by (auto simp: node_snoc)
    qed
  qed
qed

lemma linked_effects:
  assumes wf: "pt_wf y m pt" and l: "linked m pt q p i c m'" and c: "ram_page y c"
  shows "node m' pt (q @ [i]) = Some c" "tables m' pt = insert c (tables m pt)" "pt_wf y m' pt"
    "pte m' pt v = pte m pt v"
proof -
  note nd = linked_node [OF wf l]
  have qi: "okpath (q @ [i])" and cn: "c \<notin> tables m pt" and z: "zero_page m' c"
    and none: "node m pt (q @ [i]) = None"
    using l by (auto simp: linked_def node_snoc)
  show a: "node m' pt (q @ [i]) = Some c" using nd [OF qi] by simp
  have b: "node m' pt k = Some r \<longleftrightarrow> k = q @ [i] \<and> r = c \<or> node m pt k = Some r" if "okpath k" for k r
    using nd [OF that] none by auto
  show "tables m' pt = insert c (tables m pt)"
    unfolding tables_def using b qi by blast
  have inj: "k = k'" if "okpath k" "okpath k'" "node m' pt k = Some r" "node m' pt k' = Some r"
    for k k' r
    using b [OF that(1), of r] b [OF that(2), of r] that(3,4) cn pt_wf_inj [OF wf that(1,2), of r]
      tablesI [OF that(1), of m pt r] tablesI [OF that(2), of m pt r] by blast
  have en: "entry m' r j = PA2PTE d OR PTE_V"
    if "okpath (k @ [j])" "node m' pt k = Some r" "child m' r j = Some d" for k j r d
  proof (cases "(r, j) = (p, i)")
    case True
    then show ?thesis using l that(3) by (simp add: linked_def child_def)
  next
    case False
    have k: "okpath k" "j < 512" using okpath_snocD [OF that(1)] by auto
    have "k \<noteq> q @ [i]"
      using that(2,3) nd [OF k(1)] zero_page_entry [OF z k(2)] by (auto simp: child_def)
    then have nk: "node m pt k = Some r" using False nd [OF k(1)] that(2) by simp
    then have "entry m' r j = entry m r j"
      using l False k tablesI [OF k(1) nk] by (auto simp: linked_def)
    then show ?thesis by (rule pt_wf_entry_same [OF wf that(1) nk _ that(3)])
  qed
  show "pt_wf y m' pt"
  proof (rule pt_wfI [OF _ inj en])
    show "ram_page y r" if "okpath k" "node m' pt k = Some r" for k r
      using that(2) b [OF that(1), of r] c pt_wf_ram [OF wf that(1), of r] by auto
  qed
  show "pte m' pt v = pte m pt v"
  proof (cases "path v = q @ [i]")
    case True
    then show ?thesis using a none zero_page_entry [OF z idx_less] unfolding pte_def by simp
  next
    case False
    have "(r, idx v) \<noteq> (p, i)" if "node m pt (path v) = Some r" for r
    proof
      assume "(r, idx v) = (p, i)"
      then have "path v = q"
        using l pt_wf_inj [OF wf okpath_path _ that, of q] okpath_snocD [OF qi]
        by (simp add: linked_def)
      then have "length q = 2" by (simp add: path_def flip: \<open>path v = q\<close>)
      then show False using qi by (simp add: okpath_def)
    qed
    then show ?thesis using False l tablesI [OF okpath_path, of m pt v]
      by (auto simp: pte_def nd linked_def split: option.splits)
  qed
qed

end
