(* ===== verification/Walk.thy ===== *)
theory Walk
  imports Pagetable
begin

text \<open>
  What \<^verbatim>\<open>walk\<close>, \<^verbatim>\<open>walkaddr\<close>, \<^verbatim>\<open>mappages\<close> and \<^verbatim>\<open>uvmunmap\<close> do to the entries of a page table,
  to the pages it consists of and to the free list.
\<close>

section \<open>The invariant and the steps that keep it\<close>

definition vm_inv :: "'z kmem_scheme \<Rightarrow> u64 \<Rightarrow> u64 list \<Rightarrow> bool" where
  "vm_inv s pt ps \<longleftrightarrow>
     kmem_inv s ps \<and> pt_wf (syms s) (mem s) pt \<and> tables (mem s) pt \<inter> set ps = {}"

text \<open>\<open>s'\<close> differs from \<open>s\<close> only in the pages of the table and of the pool, some pages moved
  from the pool to the table, and the rest of the state is untouched.\<close>

definition vm_step ::
  "u64 \<Rightarrow> 'z kmem_scheme \<Rightarrow> u64 list \<Rightarrow> 'z kmem_scheme \<Rightarrow> u64 list \<Rightarrow> bool" where
  "vm_step pt s ps s' ps' \<longleftrightarrow>
     vm_inv s' pt ps' \<and> syms s' = syms s \<and> kmem.more s' = kmem.more s
   \<and> mach s' \<in> {mach s, quiet (mach s)}
   \<and> tables (mem s) pt \<subseteq> tables (mem s') pt
   \<and> tables (mem s') pt \<union> set ps' = tables (mem s) pt \<union> set ps
   \<and> (\<exists>k. ps' = drop k ps)
   \<and> (\<forall>d. page_aligned d \<and> d \<notin> tables (mem s) pt \<union> set ps \<longrightarrow> same_page d (mem s) (mem s'))"

lemma vm_step_refl: "vm_inv s pt ps \<Longrightarrow> vm_step pt s ps s ps"
  by (auto simp: vm_step_def same_page_def intro: exI [of _ 0])

lemma vm_step_trans:
  assumes "vm_step pt s ps s' ps'" "vm_step pt s' ps' s'' ps''"
  shows "vm_step pt s ps s'' ps''"
proof -
  have "\<exists>k. ps'' = drop k ps" using assms unfolding vm_step_def by (auto simp: drop_drop)
  moreover have "same_page d (mem s) (mem s'')"
    if "page_aligned d" "d \<notin> tables (mem s) pt \<union> set ps" for d
  proof -
    have "same_page d (mem s) (mem s')" using assms(1) that by (simp add: vm_step_def)
    moreover have "same_page d (mem s') (mem s'')"
      using assms that by (simp add: vm_step_def)
    ultimately show ?thesis by (rule same_page_trans)
  qed
  moreover have "mach s'' \<in> {mach s, quiet (mach s)}"
    using assms unfolding vm_step_def by auto
  ultimately show ?thesis using assms unfolding vm_step_def by auto
qed

lemma vm_step_inv: "vm_step pt s ps s' ps' \<Longrightarrow> vm_inv s' pt ps'"
  by (simp add: vm_step_def)

lemma vm_step_ready: "vm_step pt s ps s' ps' \<Longrightarrow> kmem_ready s \<Longrightarrow> kmem_ready s'"
  by (auto simp: vm_step_def kmem_ready_def)

lemma vm_invD:
  assumes "vm_inv s pt ps"
  shows "kmem_inv s ps" "pt_wf (syms s) (mem s) pt" "tables (mem s) pt \<inter> set ps = {}"
  using assms by (auto simp: vm_inv_def)

lemma vm_inv_pool:
  assumes "vm_inv s pt ps" "x \<in> set ps"
  shows "ram_page (syms s) x" "page_aligned x" "x \<notin> tables (mem s) pt"
  using assms by (auto simp: vm_inv_def kmem_inv_def ram_page_def)

section \<open>Reading\<close>

lemma ldpte_addr:
  "ram_page y p \<Longrightarrow> ldpte (pte_addr p (PX l va)) s = Ret (entry (mem s) p (unat (PX l va))) s"
  by (simp add: ldpte_def ram_page_pte_addr entry_def)

lemma stpte_addr:
  "ram_page y p \<Longrightarrow> stpte (pte_addr p (PX l va)) e s
     = Ret () (s\<lparr>mem := store64 (mem s) (unat p + 8 * unat (PX l va)) e\<rparr>)"
  by (simp add: stpte_def ram_page_pte_addr)

lemma okpath_PX: "length q \<le> 1 \<Longrightarrow> okpath q \<Longrightarrow> okpath (q @ [unat (PX l va)])"
  by (auto simp: okpath_def unat_PX_less)

lemma walk_from_look:
  assumes "pt_wf y (mem s) pt" "node (mem s) pt q = Some p" "okpath q" "length q + l \<le> 2"
  shows "walk_from l p va False s =
    Ret (case node (mem s) p (map (\<lambda>k. unat (PX k va)) (rev [1..<Suc l])) of
           None \<Rightarrow> 0 | Some r \<Rightarrow> pte_addr r (PX 0 va)) s"
  using assms(2-4)
proof (induction l arbitrary: p q)
  case 0
  then show ?case by (simp add: km_simps)
next
  case (Suc l)
  let ?i = "unat (PX (Suc l) va)"
  have rp: "ram_page y p" by (rule pt_wf_ram [OF assms(1) Suc.prems(2,1)])
  have ok: "okpath (q @ [?i])" using Suc.prems by (intro okpath_PX) auto
  show ?case
  proof (cases "child (mem s) p ?i")
    case None
    then show ?thesis using rp
      by (simp add: km_simps ldpte_addr child_def valid_def split: if_splits)
  next
    case (Some c)
    then have "node (mem s) pt (q @ [?i]) = Some c" using Suc.prems(1) by (simp add: node_snoc)
    from Suc.IH [OF this ok] Suc.prems(3) show ?thesis using rp Some
      by (simp add: km_simps ldpte_addr child_def valid_def split: if_splits)
  qed
qed

lemma walk_look:
  assumes "pt_wf y (mem s) pt" "va < MAXVA"
  shows "walk pt va False s =
    Ret (case node (mem s) pt (path (vpn va)) of None \<Rightarrow> 0 | Some r \<Rightarrow> pte_addr r (PX 0 va)) s"
proof -
  have "rev [1..<Suc 2] = [2, 1 :: nat]" "\<not> MAXVA \<le> va" using assms(2) by (simp_all add: upt_rec)
  then show ?thesis
    using assms walk_from_look [OF assms(1), of "[]" pt 2 va] by (simp add: walk_def px_path(1))
qed

lemma walkaddr_eq:
  assumes "pt_wf y (mem s) pt"
  shows "walkaddr pt va s = Ret (if va < MAXVA \<and> valid (pte (mem s) pt (vpn va))
      \<and> pte (mem s) pt (vpn va) AND PTE_U \<noteq> 0 then PTE2PA (pte (mem s) pt (vpn va)) else 0) s"
proof (cases "va < MAXVA")
  case True
  then have lt: "\<not> MAXVA \<le> va" by simp
  show ?thesis
  proof (cases "node (mem s) pt (path (vpn va))")
    case None
    then show ?thesis using True lt walk_look [OF assms True]
      by (simp add: walkaddr_def km_simps pte_def)
  next
    case (Some p)
    have "ram_page y p" by (rule pt_wf_ram [OF assms okpath_path Some])
    then show ?thesis using True lt Some walk_look [OF assms True]
      by (simp add: walkaddr_def km_simps ram_page_pte_addr ldpte_addr pte_def px_path(2) valid_def)
  qed
next
  case False
  then have "MAXVA \<le> va" by simp
  then show ?thesis using False by (simp add: walkaddr_def km_simps)
qed

section \<open>Growing the table\<close>

lemma zero_page_memset: "zero_page (memset (unat p) 0 4096 m) p"
  by (simp add: zero_page_def memset_apply)

lemma zero_page_cong: "same_page p m m' \<Longrightarrow> zero_page m p \<Longrightarrow> zero_page m' p"
  by (simp add: zero_page_def same_page_def)

text \<open>The memory after \<^verbatim>\<open>kalloc\<close> gave \<open>c\<close>, which was cleared and linked.\<close>

definition link_mem :: "u64 \<Rightarrow> u64 \<Rightarrow> nat \<Rightarrow> bytes \<Rightarrow> bytes" where
  "link_mem p c i m = store64 (memset (unat c) 0 4096 (memset (unat c) 5 4096 m))
     (unat p + 8 * i) (PA2PTE c OR PTE_V)"

lemma same_page_memset2:
  "page_aligned d \<Longrightarrow> page_aligned c \<Longrightarrow> d \<noteq> c \<Longrightarrow>
     same_page d m (memset (unat c) x 4096 (memset (unat c) y 4096 m))"
  by (rule same_page_trans [OF same_page_memset same_page_memset])

lemma link_mem_same:
  assumes "page_aligned d" "page_aligned c" "page_aligned p" "d \<noteq> c" "d \<noteq> p" "i < 512"
  shows "same_page d m (link_mem p c i m)"
  unfolding link_mem_def using assms
  by (auto intro!: same_page_trans [OF same_page_memset2 store_entry_other_page])

lemma linked_link_mem:
  assumes inv: "vm_inv s pt (c # ps)" and n: "node (mem s) pt q = Some p"
    and ok: "okpath (q @ [i])" and ch: "child (mem s) p i = None"
  shows "linked (mem s) pt q p i c (link_mem p c i (mem s))"
proof -
  let ?m = "mem s" and ?m2 = "memset (unat c) 0 4096 (memset (unat c) 5 4096 (mem s))"
  note wf = vm_invD(2) [OF inv]
  have rc: "ram_page (syms s) c" and cn: "c \<notin> tables ?m pt"
    using vm_invD [OF inv] by (auto simp: kmem_inv_def)
  have q: "okpath q" "i < 512" using okpath_snocD [OF ok] by auto
  have rp: "ram_page (syms s) p" by (rule pt_wf_ram [OF wf q(1) n])
  have pc: "p \<noteq> c" using cn tablesI [OF q(1) n] by auto
  have al: "page_aligned r \<and> r \<noteq> c" if "r \<in> tables ?m pt" for r
    using that wf cn by (auto simp: pt_wf_def ram_page_def)
  have "zero_page ?m2 c" by (rule zero_page_memset)
  then have z: "zero_page (link_mem p c i ?m) c"
    unfolding link_mem_def using rc rp pc q(2)
    by (auto simp: ram_page_def intro!: zero_page_cong [OF store_entry_other_page])
  have m2: "same_page r ?m ?m2" if "r \<in> tables ?m pt" for r
    using al [OF that] rc
    by (auto simp: ram_page_def intro!: same_page_memset2)
  have "entry (link_mem p c i ?m) r j = entry ?m r j"
    if r: "r \<in> tables ?m pt" and "j < 512" "(r, j) \<noteq> (p, i)" for r j
  proof (cases "r = p")
    case True
    then show ?thesis using that entry_cong [OF m2 [OF r]] by (simp add: link_mem_def entry_store)
  next
    case False
    then show ?thesis
      using that al [OF r] rc rp q(2) by (intro entry_cong link_mem_same) (auto simp: ram_page_def)
  qed
  then show ?thesis unfolding linked_def
    using n ok ch cn z PTE2PA_link [OF rc] by (simp add: link_mem_def entry_store)
qed

lemma vm_step_link:
  assumes inv: "vm_inv s pt (c # ps)" and n: "node (mem s) pt q = Some p"
    and ok: "okpath (q @ [i])" and ch: "child (mem s) p i = None"
  defines "s' \<equiv> s\<lparr>mach := quiet (mach s), freelist := run_next (mem s) c,
    mem := link_mem p c i (mem s)\<rparr>"
  shows "vm_step pt s (c # ps) s' ps" "node (mem s') pt (q @ [i]) = Some c"
    "pte (mem s') pt v = pte (mem s) pt v"
proof -
  note wf = vm_invD(2) [OF inv] and dj = vm_invD(3) [OF inv]
  note kv = kmem_inv_kalloc [OF vm_invD(1) [OF inv]]
  have q: "okpath q" "i < 512" using okpath_snocD [OF ok] by auto
  have rp: "ram_page (syms s) p" by (rule pt_wf_ram [OF wf q(1) n])
  have pt: "p \<in> tables (mem s) pt" by (rule tablesI [OF q(1) n])
  note eff = linked_effects [OF wf linked_link_mem [OF inv n ok ch] kv(3)]
  show "node (mem s') pt (q @ [i]) = Some c" "pte (mem s') pt v = pte (mem s) pt v"
    using eff(1,4) by (simp_all add: s'_def)
  have "same_page x (memset (unat c) 5 4096 (mem s)) (mem s')" if "x \<in> set ps" for x
  proof -
    have "ram_page (syms s) x" "x \<noteq> c" "x \<noteq> p"
      using vm_invD(1) [OF inv] that kv(4) dj pt by (auto simp: kmem_inv_def)
    then show ?thesis unfolding s'_def link_mem_def using kv(3) rp q(2)
      by (auto simp: ram_page_def intro!: same_page_trans [OF same_page_memset store_entry_other_page])
  qed
  then have "free_chain (mem s') (run_next (mem s) c) ps"
    using kv(5) [of 5 "mach s"]
    by (subst free_chain_cong [of ps "memset (unat c) 5 4096 (mem s)"]) (auto simp: kmem_inv_def)
  then have k: "kmem_inv s' ps"
    using vm_invD(1) [OF inv] by (simp add: kmem_inv_def s'_def)
  have fr: "same_page d (mem s) (mem s')"
    if "page_aligned d" "d \<notin> tables (mem s) pt \<union> set (c # ps)" for d
    using that pt kv(3) rp q(2) unfolding s'_def
    by (simp, intro link_mem_same) (auto simp: ram_page_def)
  have "vm_inv s' pt ps"
    using k eff(2,3) dj kv(4) by (auto simp: vm_inv_def s'_def)
  then show "vm_step pt s (c # ps) s' ps"
    unfolding vm_step_def using eff(2) fr by (auto simp: s'_def intro: exI [of _ 1])
qed


text \<open>One level of \<^verbatim>\<open>walk\<close>: it runs out of pages, or goes on from the child.\<close>

lemma walk_level:
  assumes inv: "vm_inv s pt ps" and rd: "kmem_ready s" and n: "node (mem s) pt q = Some p"
    and q: "okpath q" "length q \<le> 1"
  shows "(ps = [] \<and> (\<exists>s'. walk_from (Suc l) p va True s = Ret 0 s' \<and> vm_step pt s ps s' ps
            \<and> (\<forall>v. pte (mem s') pt v = pte (mem s) pt v)))
    \<or> (\<exists>s' ps' c. walk_from (Suc l) p va True s = walk_from l c va True s' \<and> vm_step pt s ps s' ps'
         \<and> node (mem s') pt (q @ [unat (PX (Suc l) va)]) = Some c
         \<and> (\<forall>v. pte (mem s') pt v = pte (mem s) pt v))"
proof -
  let ?i = "unat (PX (Suc l) va)"
  have rp: "ram_page (syms s) p" by (rule pt_wf_ram [OF vm_invD(2) [OF inv] q(1) n])
  have ok: "okpath (q @ [?i])" using q by (intro okpath_PX)
  have r: "KmemLock \<notin> held (mach s)" "sane (mach s)" using rd by (auto simp: kmem_ready_def)
  show ?thesis
  proof (cases "child (mem s) p ?i")
    case (Some c)
    then have "walk_from (Suc l) p va True s = walk_from l c va True s"
      using rp by (simp add: km_simps ldpte_addr child_def valid_def split: if_splits)
    moreover have "node (mem s) pt (q @ [?i]) = Some c" using n Some by (simp add: node_snoc)
    ultimately show ?thesis using vm_step_refl [OF inv] by blast
  next
    case None
    note w = rp None
    show ?thesis
    proof (cases ps)
      case Nil
      then have f: "freelist s = 0" using vm_invD(1) [OF inv] by (simp add: kmem_inv_Nil)
      define s' where "s' = s\<lparr>mach := quiet (mach s)\<rparr>"
      have "walk_from (Suc l) p va True s = Ret 0 s'" using w r f
        by (simp add: km_simps ldpte_addr child_def valid_def kalloc_eq s'_def split: if_splits)
      moreover have "vm_inv s' pt ps" using inv by (simp add: vm_inv_def kmem_inv_def s'_def)
      then have "vm_step pt s ps s' ps"
        by (auto simp: vm_step_def s'_def same_page_def intro: exI [of _ 0])
      ultimately show ?thesis using Nil by (auto simp: s'_def)
    next
      case (Cons c ps')
      note kv = kmem_inv_kalloc [OF vm_invD(1) [OF inv [unfolded Cons]]]
      note ln = vm_step_link [OF inv [unfolded Cons] n ok None]
      let ?s' = "s\<lparr>mach := quiet (mach s), freelist := run_next (mem s) c,
        mem := link_mem p c ?i (mem s)\<rparr>"
      have "walk_from (Suc l) p va True s = walk_from l c va True ?s'"
        using w r kv(1,2)
        by (simp add: km_simps ldpte_addr stpte_addr child_def valid_def kalloc_eq link_mem_def
            split: if_splits)
      then show ?thesis using ln Cons by blast
    qed
  qed
qed

lemma walk_alloc:
  assumes inv: "vm_inv s pt ps" and rd: "kmem_ready s" and va: "va < MAXVA"
  obtains s' where "walk pt va True s = Ret 0 s'" "vm_step pt s ps s' []"
      "\<And>v. pte (mem s') pt v = pte (mem s) pt v"
  | s' ps' p where "walk pt va True s = Ret (pte_addr p (PX 0 va)) s'" "vm_step pt s ps s' ps'"
      "node (mem s') pt (path (vpn va)) = Some p" "\<And>v. pte (mem s') pt v = pte (mem s) pt v"
proof -
  have "\<not> MAXVA \<le> va" using va by simp
  then have w: "walk pt va True s = walk_from (Suc (Suc 0)) pt va True s"
    by (simp add: walk_def numeral_2_eq_2)
  from walk_level [OF inv rd, of "[]" pt "Suc 0" va] consider
      s' where "ps = []" "walk pt va True s = Ret 0 s'" "vm_step pt s ps s' ps"
        "\<And>v. pte (mem s') pt v = pte (mem s) pt v"
    | s1 ps1 c where "walk pt va True s = walk_from (Suc 0) c va True s1" "vm_step pt s ps s1 ps1"
        "node (mem s1) pt [unat (PX 2 va)] = Some c" "\<And>v. pte (mem s1) pt v = pte (mem s) pt v"
    unfolding w by (fastforce simp: numeral_2_eq_2)
  then show ?thesis
  proof cases
    case 1
    then show ?thesis using that(1) by metis
  next
    case 2
    have ok: "okpath [unat (PX 2 va)]" by (simp add: okpath_def unat_PX_less)
    from walk_level [OF vm_step_inv [OF 2(2)] vm_step_ready [OF 2(2) rd] 2(3) ok, of 0 va] consider
      s' where "ps1 = []" "walk pt va True s = Ret 0 s'" "vm_step pt s1 ps1 s' ps1"
        "\<And>v. pte (mem s') pt v = pte (mem s1) pt v"
    | s' ps' p where "walk pt va True s = Ret (pte_addr p (PX 0 va)) s'" "vm_step pt s1 ps1 s' ps'"
        "node (mem s') pt (path (vpn va)) = Some p" "\<And>v. pte (mem s') pt v = pte (mem s1) pt v"
      unfolding 2(1) by (fastforce simp: km_simps px_path)
    then show ?thesis
    proof cases
      case 1
      then show ?thesis using that(1) [of s'] 2 vm_step_trans by metis
    next
      case (2 s' ps' p)
      then show ?thesis using that(2) [of p s' ps'] \<open>vm_step pt s ps s1 ps1\<close>
          \<open>\<And>v. pte (mem s1) pt v = pte (mem s) pt v\<close> vm_step_trans by metis
    qed
  qed
qed

end
