(* ===== verification/Mapping_pages.thy ===== *)
theory Mapping_pages
  imports Walk
begin

text \<open>
  What \<^verbatim>\<open>mappages\<close> and \<^verbatim>\<open>uvmunmap\<close> do to the entries of a page table.
\<close>

section \<open>Writing an entry\<close>

lemma vm_step_leaf:
  fixes e :: u64
  assumes inv: "vm_inv s pt ps" and n: "node (mem s) pt (path v) = Some p" and v: "v < NVP"
  defines "s' \<equiv> s\<lparr>mem := store64 (mem s) (unat p + 8 * idx v) e\<rparr>"
  shows "vm_step pt s ps s' ps" "w < NVP \<Longrightarrow> pte (mem s') pt w = (if w = v then e else pte (mem s) pt w)"
    "tables (mem s') pt = tables (mem s) pt"
proof -
  note lw = leaf_write [OF vm_invD(2) [OF inv] n v, where e = e]
  show "w < NVP \<Longrightarrow> pte (mem s') pt w = (if w = v then e else pte (mem s) pt w)"
    using lw(4) by (simp add: s'_def)
  show "tables (mem s') pt = tables (mem s) pt" using lw(2) by (simp add: s'_def)
  have rp: "ram_page (syms s) p" by (rule pt_wf_ram [OF vm_invD(2) [OF inv] okpath_path n])
  have pt: "p \<in> tables (mem s) pt" by (rule tablesI [OF okpath_path n])
  have fr: "same_page d (mem s) (mem s')" if "page_aligned d" "d \<noteq> p" for d
    using that rp unfolding s'_def by (auto simp: ram_page_def intro: store_entry_other_page)
  have "same_page x (mem s) (mem s')" if "x \<in> set ps" for x
    using fr vm_inv_pool(2,3) [OF inv that] pt by blast
  then have "free_chain (mem s') (freelist s) ps = free_chain (mem s) (freelist s) ps"
    by (intro free_chain_cong) blast
  then have "kmem_inv s' ps" using vm_invD(1) [OF inv] by (simp add: kmem_inv_def s'_def)
  then have "vm_inv s' pt ps" using lw(2,3) vm_invD(3) [OF inv] by (simp add: vm_inv_def s'_def)
  then show "vm_step pt s ps s' ps"
    unfolding vm_step_def using lw(2) fr pt by (auto simp: s'_def intro: exI [of _ 0])
qed

section \<open>mappages\<close>

text \<open>The entries after \<open>k\<close> pages from \<open>v0\<close> on have been mapped to consecutive physical pages.\<close>

definition mapped :: "bytes \<Rightarrow> u64 \<Rightarrow> nat \<Rightarrow> nat \<Rightarrow> u64 \<Rightarrow> u64 \<Rightarrow> bytes \<Rightarrow> bool" where
  "mapped m pt v0 k pa perm m' \<longleftrightarrow> (\<forall>v < NVP. pte m' pt v =
     (if v0 \<le> v \<and> v < v0 + k then PA2PTE (pa + of_nat (v - v0) * PGSIZE) OR perm OR PTE_V
      else pte m pt v))"

lemma mapped_0: "mapped m pt v0 0 pa perm m' \<longleftrightarrow> (\<forall>v < NVP. pte m' pt v = pte m pt v)"
  by (auto simp: mapped_def)

lemma mapped_cong:
  "(\<And>v. pte m'' pt v = pte m' pt v) \<Longrightarrow> mapped m pt v0 k pa perm m'' = mapped m pt v0 k pa perm m'"
  by (simp add: mapped_def)

definition map_inv ::
  "u64 \<Rightarrow> nat \<Rightarrow> nat \<Rightarrow> u64 \<Rightarrow> u64 \<Rightarrow> 'z kmem_scheme \<Rightarrow> u64 list \<Rightarrow> u64 \<times> u64 \<Rightarrow> 'z kmem_scheme \<Rightarrow> bool"
  where
  "map_inv pt v0 v1 pa perm s ps x s' \<longleftrightarrow> (\<exists>k ps'. vm_step pt s ps s' ps'
     \<and> unat (fst x) = (v0 + k) * 4096 \<and> v0 + k \<le> v1 \<and> snd x = pa + of_nat k * PGSIZE
     \<and> mapped (mem s) pt v0 k pa perm (mem s'))"

lemma page_va:
  assumes "unat a = v * 4096" "v < NVP"
  shows "a < MAXVA" "vpn a = v" "unat (a + PGSIZE) = (v + 1) * 4096"
proof -
  have "unat a < 0x4000000000" using assms by simp
  then show "a < MAXVA" by (simp add: MAXVA_val word_less_nat_alt)
  show "vpn a = v" using assms by (simp add: vpn_def)
  show "unat (a + PGSIZE) = (v + 1) * 4096"
    using assms by (simp add: unat_word_ariths PGSIZE_def)
qed

lemma mappages_body:
  assumes I: "map_inv pt v0 v1 pa perm s ps (a, pa') s1" and rd: "kmem_ready s"
    and v1: "v1 < NVP" and lst: "unat lst = v1 * 4096"
    and fresh: "\<And>v. v0 \<le> v \<Longrightarrow> v \<le> v1 \<Longrightarrow> \<not> valid (pte (mem s) pt v)"
  shows "wp (bind (walk pt a True) (\<lambda>pte.
            if pte = 0 then ret (Inr (-1))
            else bind (ldpte pte) (\<lambda>e.
              if e AND PTE_V \<noteq> 0 then panic ''mappages: remap''
              else seq (stpte pte (PA2PTE pa' OR perm OR PTE_V))
                (if a = lst then ret (Inr 0) else ret (Inl (a + PGSIZE, pa' + PGSIZE))))))
       (\<lambda>y s'. case y of
          Inl x' \<Rightarrow> map_inv pt v0 v1 pa perm s ps x' s' \<and> v1 - vpn (fst x') < v1 - vpn a
        | Inr r \<Rightarrow> \<exists>k ps'. vm_step pt s ps s' ps' \<and> mapped (mem s) pt v0 k pa perm (mem s')
            \<and> (r = 0 \<and> k = v1 - v0 + 1 \<or> r = (-1::int) \<and> k \<le> v1 - v0 \<and> ps' = [])) s1"
proof -
  obtain k ps1 where k: "vm_step pt s ps s1 ps1" "unat a = (v0 + k) * 4096" "v0 + k \<le> v1"
      "pa' = pa + of_nat k * PGSIZE" "mapped (mem s) pt v0 k pa perm (mem s1)"
    using I by (auto simp: map_inv_def)
  note a = page_va [OF k(2) le_less_trans [OF k(3) v1]]
  have vk: "v0 + k < NVP" using k(3) v1 by simp
  show ?thesis
  proof (rule walk_alloc [OF vm_step_inv [OF k(1)] vm_step_ready [OF k(1) rd] a(1)], goal_cases)
    case (1 s2)
    have "mapped (mem s) pt v0 k pa perm (mem s2)" using k(5) mapped_cong [OF 1(3)] by simp
    then have "\<exists>k ps'. vm_step pt s ps s2 ps' \<and> mapped (mem s) pt v0 k pa perm (mem s2)
        \<and> k \<le> v1 - v0 \<and> ps' = []"
      using vm_step_trans [OF k(1) 1(2)] k(3)
      by (intro exI [of _ k] exI [of _ "[]"]) simp
    then show ?case by (simp add: wp_def km_simps 1(1))
  next
    case (2 s2 ps2 p)
    have rp: "ram_page (syms s2) p"
      by (rule pt_wf_ram [OF vm_invD(2) [OF vm_step_inv [OF 2(2)]] okpath_path 2(3)])
    let ?e = "PA2PTE pa' OR perm OR PTE_V"
    define s3 where "s3 = s2\<lparr>mem := store64 (mem s2) (unat p + 8 * idx (v0 + k)) ?e\<rparr>"
    note lf = vm_step_leaf [OF vm_step_inv [OF 2(2)] 2(3) [unfolded a(2)] vk, where e = ?e]
    have st: "vm_step pt s ps s3 ps2" unfolding s3_def
      using vm_step_trans [OF vm_step_trans [OF k(1) 2(2)] lf(1)] .
    have "pte (mem s3) pt w = (if w = v0 + k then ?e else pte (mem s1) pt w)" if "w < NVP" for w
      using lf(2) [OF that] 2(4) by (simp add: s3_def)
    then have mp: "mapped (mem s) pt v0 (Suc k) pa perm (mem s3)"
      using k(4,5) by (auto simp: mapped_def less_Suc_eq)
    have "entry (mem s2) p (unat (PX 0 a)) = pte (mem s2) pt (v0 + k)"
      using 2(3) px_path(2) [of a] by (simp add: pte_def a(2))
    also have "\<dots> = pte (mem s) pt (v0 + k)" using 2(4) k(5) vk by (simp add: mapped_def)
    finally have "entry (mem s2) p (unat (PX 0 a)) = pte (mem s) pt (v0 + k)" .
    then have nv: "entry (mem s2) p (unat (PX 0 a)) AND PTE_V = 0"
      using fresh [of "v0 + k"] k(3) by (simp add: valid_def)
    have la: "a = lst \<longleftrightarrow> v0 + k = v1" using k(2) lst by (auto simp: word_unat_eq_iff)
    have "idx (v0 + k) = unat (PX 0 a)" using px_path(2) [of a] a(2) by simp
    then have e3: "s2\<lparr>mem := store64 (mem s2) (unat p + 8 * unat (PX 0 a)) ?e\<rparr> = s3"
      by (simp add: s3_def)
    note run = 2(1) nv e3 ram_page_pte_addr [OF rp] ldpte_addr [OF rp] stpte_addr [OF rp]
    show ?case
    proof (cases "v0 + k = v1")
      case True
      have "\<exists>j ps'. vm_step pt s ps s3 ps' \<and> mapped (mem s) pt v0 j pa perm (mem s3) \<and> j = v1 - v0 + 1"
        using st mp True by (intro exI [of _ "Suc k"] exI [of _ ps2]) simp
      then show ?thesis using la [THEN iffD2, OF True, symmetric]
        by (simp add: wp_def km_simps run)
    next
      case False
      have "vpn (a + PGSIZE) = Suc (v0 + k)" using a(3) by (simp add: vpn_def)
      moreover have "map_inv pt v0 v1 pa perm s ps (a + PGSIZE, pa' + PGSIZE) s3"
        unfolding map_inv_def using st mp a(3) k(3,4) False
        by (intro exI [of _ "Suc k"] exI [of _ ps2]) (simp add: algebra_simps)
      ultimately show ?thesis using la k(3) False a(2)
        by (simp add: wp_def km_simps run)
    qed
  qed
qed

lemma wp_mappages:
  assumes inv: "vm_inv s pt ps" and rd: "kmem_ready s"
    and sz: "sz \<noteq> 0" and top: "unat va + unat sz \<le> unat MAXVA"
    and fresh: "\<And>v. vpn va \<le> v \<Longrightarrow> v \<le> vpn (va + sz - 1) \<Longrightarrow> \<not> valid (pte (mem s) pt v)"
  shows "wp (mappages pt va sz pa perm) (\<lambda>r s'. \<exists>k ps'. vm_step pt s ps s' ps'
      \<and> mapped (mem s) pt (vpn va) k pa perm (mem s')
      \<and> (r = 0 \<and> k = vpn (va + sz - 1) - vpn va + 1
         \<or> r = (-1::int) \<and> k \<le> vpn (va + sz - 1) - vpn va \<and> ps' = [])) s"
proof -
  let ?v0 = "vpn va" and ?v1 = "vpn (va + sz - 1)"
  have "unat sz \<noteq> 0" using sz by (simp add: unat_eq_zero)
  then have ul: "unat (va + sz - 1) = unat va + unat sz - 1"
    using top by (simp add: unat_word_ariths MAXVA_val unat_sub_if')
  have v01: "?v0 \<le> ?v1" unfolding vpn_def ul using \<open>unat sz \<noteq> 0\<close> by (intro div_le_mono) simp
  have v1: "?v1 < NVP" unfolding vpn_def ul using top \<open>unat sz \<noteq> 0\<close>
    by (simp add: MAXVA_val less_mult_imp_div_less)
  have ua: "unat (PGROUNDDOWN va) = ?v0 * 4096" and lst: "unat (PGROUNDDOWN (va + sz - 1)) = ?v1 * 4096"
    by (simp_all add: unat_PGROUNDDOWN vpn_def)
  have I: "map_inv pt ?v0 ?v1 pa perm s ps (PGROUNDDOWN va, pa) s"
    unfolding map_inv_def using vm_step_refl [OF inv] v01 ua
    by (intro exI [of _ 0] exI [of _ ps]) (simp add: mapped_0)
  have "unat (PGROUNDDOWN (va + sz - 1) - PGROUNDDOWN va) = (?v1 - ?v0) * 4096"
    using v01 ua lst by (simp add: unat_sub word_le_nat_alt diff_mult_distrib)
  then have fuel: "?v1 - vpn (PGROUNDDOWN va)
      < unat (PGROUNDDOWN (va + sz - 1) - PGROUNDDOWN va) div 4096 + 2"
    using ua by (simp add: vpn_def)
  show ?thesis unfolding mappages_def Let_def if_not_P [OF sz]
  proof (rule wp_loop [where I = "map_inv pt ?v0 ?v1 pa perm s ps"
          and V = "\<lambda>x. ?v1 - vpn (fst x)", OF I], goal_cases)
    case 1
    then show ?case using fuel by simp
  next
    case (2 x s1)
    obtain a pa' where x: "x = (a, pa')" by (cases x)
    show ?case unfolding x prod.case fst_conv
      by (rule mappages_body [OF 2 [unfolded x] rd v1 lst fresh, unfolded fst_conv])
  qed
qed

end
