(* ===== verification/Uvm.thy ===== *)
theory Uvm
  imports Mapping_pages
begin

text \<open>
  User address spaces: \<^verbatim>\<open>uvmunmap\<close>, \<^verbatim>\<open>uvmdealloc\<close> and \<^verbatim>\<open>uvmalloc\<close>. Besides the table pages
  and the free pages there are data pages, to which the entries of the table point.
\<close>

section \<open>Steps that move pages between the pool, the table and the data pages\<close>

text \<open>From \<open>s\<close> to \<open>s'\<close> the pages \<open>D\<close> left the pool to become data pages.\<close>

definition vm_ext ::
  "u64 \<Rightarrow> 'z kmem_scheme \<Rightarrow> u64 list \<Rightarrow> 'z kmem_scheme \<Rightarrow> u64 list \<Rightarrow> u64 set \<Rightarrow> bool" where
  "vm_ext pt s ps s' ps' D \<longleftrightarrow>
     vm_inv s' pt ps' \<and> syms s' = syms s \<and> kmem.more s' = kmem.more s
   \<and> mach s' \<in> {mach s, quiet (mach s)}
   \<and> tables (mem s) pt \<subseteq> tables (mem s') pt
   \<and> tables (mem s') pt \<union> set ps' \<union> D = tables (mem s) pt \<union> set ps
   \<and> D \<inter> (tables (mem s') pt \<union> set ps') = {}
   \<and> (\<forall>d. page_aligned d \<and> d \<notin> tables (mem s) pt \<union> set ps \<longrightarrow> same_page d (mem s) (mem s'))"

text \<open>From \<open>s\<close> to \<open>s'\<close> data pages came back to the pool.\<close>

definition vm_drop ::
  "u64 \<Rightarrow> 'z kmem_scheme \<Rightarrow> u64 list \<Rightarrow> 'z kmem_scheme \<Rightarrow> u64 list \<Rightarrow> bool" where
  "vm_drop pt s ps s' ps' \<longleftrightarrow>
     vm_inv s' pt ps' \<and> syms s' = syms s \<and> kmem.more s' = kmem.more s
   \<and> mach s' \<in> {mach s, quiet (mach s)}
   \<and> tables (mem s') pt = tables (mem s) pt \<and> set ps \<subseteq> set ps'
   \<and> (\<forall>d. page_aligned d \<and> d \<notin> tables (mem s) pt \<union> set ps' \<longrightarrow> same_page d (mem s) (mem s'))"

lemma vm_step_ext: "vm_step pt s ps s' ps' \<Longrightarrow> vm_ext pt s ps s' ps' {}"
  by (simp add: vm_step_def vm_ext_def)

lemma vm_step_drop:
  "vm_step pt s ps s' ps' \<Longrightarrow> tables (mem s') pt = tables (mem s) pt \<Longrightarrow> ps' = ps \<Longrightarrow>
     vm_drop pt s ps s' ps'"
  by (simp add: vm_step_def vm_drop_def)

lemma vm_drop_refl: "vm_inv s pt ps \<Longrightarrow> vm_drop pt s ps s ps"
  by (simp add: vm_drop_def same_page_def)

lemma vm_drop_trans:
  assumes "vm_drop pt s ps s' ps'" "vm_drop pt s' ps' s'' ps''"
  shows "vm_drop pt s ps s'' ps''"
proof -
  have "same_page d (mem s) (mem s'')"
    if "page_aligned d" "d \<notin> tables (mem s) pt \<union> set ps''" for d
  proof (rule same_page_trans)
    show "same_page d (mem s) (mem s')" "same_page d (mem s') (mem s'')"
      using assms that unfolding vm_drop_def by blast+
  qed
  then show ?thesis using assms unfolding vm_drop_def by auto
qed

lemma vm_ext_trans:
  assumes "vm_ext pt s ps s' ps' D" "vm_ext pt s' ps' s'' ps'' E"
  shows "vm_ext pt s ps s'' ps'' (D \<union> E)"
proof -
  have "same_page d (mem s) (mem s'')"
    if "page_aligned d" "d \<notin> tables (mem s) pt \<union> set ps" for d
  proof (rule same_page_trans)
    show "same_page d (mem s) (mem s')" using assms(1) that unfolding vm_ext_def by blast
    have "d \<notin> tables (mem s') pt \<union> set ps'" using assms(1) that unfolding vm_ext_def by blast
    then show "same_page d (mem s') (mem s'')" using assms(2) that unfolding vm_ext_def by blast
  qed
  moreover have "tables (mem s'') pt \<union> set ps'' \<union> E = tables (mem s') pt \<union> set ps'"
    "tables (mem s') pt \<union> set ps' \<union> D = tables (mem s) pt \<union> set ps"
    "D \<inter> (tables (mem s') pt \<union> set ps') = {}" "E \<inter> (tables (mem s'') pt \<union> set ps'') = {}"
    using assms unfolding vm_ext_def by auto
  then have "tables (mem s'') pt \<union> set ps'' \<union> (D \<union> E) = tables (mem s) pt \<union> set ps"
    "(D \<union> E) \<inter> (tables (mem s'') pt \<union> set ps'') = {}" by blast+
  moreover have "tables (mem s) pt \<subseteq> tables (mem s'') pt"
    "mach s'' \<in> {mach s, quiet (mach s)}"
    using assms unfolding vm_ext_def by auto
  ultimately show ?thesis using assms unfolding vm_ext_def by auto
qed

lemma vm_drop_inv: "vm_drop pt s ps s' ps' \<Longrightarrow> vm_inv s' pt ps'"
  by (simp add: vm_drop_def)

lemma vm_ext_inv: "vm_ext pt s ps s' ps' D \<Longrightarrow> vm_inv s' pt ps'"
  by (simp add: vm_ext_def)

lemma vm_drop_ready: "vm_drop pt s ps s' ps' \<Longrightarrow> kmem_ready s \<Longrightarrow> kmem_ready s'"
  by (auto simp: vm_drop_def kmem_ready_def)

lemma vm_ext_ready: "vm_ext pt s ps s' ps' D \<Longrightarrow> kmem_ready s \<Longrightarrow> kmem_ready s'"
  by (auto simp: vm_ext_def kmem_ready_def)

lemma pte_same:
  assumes "\<And>d. d \<in> tables m pt \<Longrightarrow> same_page d m m'"
  shows "pte m' pt v = pte m pt v" "tables m' pt = tables m pt"
  using frame_all(2,3) [OF assms] by blast+

text \<open>Giving a data page back.\<close>

lemma kfree_data:
  assumes inv: "vm_inv s pt ps" and rd: "kmem_ready s" and pa: "ram_page (syms s) pa"
    and new: "pa \<notin> tables (mem s) pt" "pa \<notin> set ps"
  obtains s' where "kfree pa s = Ret () s'" "vm_drop pt s ps s' (pa # ps)"
    "\<And>v. pte (mem s') pt v = pte (mem s) pt v"
    "\<And>q. okpath q \<Longrightarrow> node (mem s') pt q = node (mem s) pt q"
proof -
  define s' where "s' = s\<lparr>mach := quiet (mach s), mem := free_page_mem pa (freelist s) (mem s),
      freelist := pa\<rparr>"
  have run: "kfree pa s = Ret () s'" unfolding s'_def
    by (rule kfree_eq) (use pa rd in \<open>auto simp: kmem_ready_def\<close>)
  have same: "same_page d (mem s) (mem s')" if "page_aligned d" "d \<noteq> pa" for d
    using that pa same_page_store64 [of d pa 0] unfolding s'_def free_page_mem_def
    by (auto simp: ram_page_def intro: same_page_trans [OF same_page_memset [of d pa]])
  have tb: "same_page d (mem s) (mem s')" if "d \<in> tables (mem s) pt" for d
    using that new(1) vm_invD(2) [OF inv] by (intro same) (auto simp: pt_wf_def ram_page_def)
  have "vm_inv s' pt (pa # ps)"
    using kmem_inv_kfree [OF vm_invD(1) [OF inv] pa new(2), of "quiet (mach s)"]
      pt_wf_frame [OF vm_invD(2) [OF inv] tb] pte_same(2) [OF tb] vm_invD(3) [OF inv] new(1)
    by (simp add: vm_inv_def s'_def)
  then have "vm_drop pt s ps s' (pa # ps)"
    unfolding vm_drop_def using pte_same(2) [OF tb] same by (auto simp: s'_def)
  then show ?thesis using that [OF run] pte_same(1) [OF tb] frame_all(1) [OF tb] by blast
qed

section \<open>uvmunmap\<close>

definition unmapped :: "bytes \<Rightarrow> u64 \<Rightarrow> nat \<Rightarrow> nat \<Rightarrow> bytes \<Rightarrow> bool" where
  "unmapped m pt v0 k m' \<longleftrightarrow> (\<forall>v < NVP. pte m' pt v =
     (if v0 \<le> v \<and> v < v0 + k then 0 else pte m pt v))"

text \<open>The data pages of \<open>k\<close> virtual pages from \<open>v0\<close> on.\<close>

definition data_pages :: "bytes \<Rightarrow> u64 \<Rightarrow> nat \<Rightarrow> nat \<Rightarrow> u64 list" where
  "data_pages m pt v0 k = map (\<lambda>v. PTE2PA (pte m pt v)) [v0..<v0 + k]"

text \<open>The range can be unmapped: every page is mapped by a leaf entry, and if its data page is to
  be freed, that page is in nobody else's use.\<close>

definition can_unmap :: "'z kmem_scheme \<Rightarrow> u64 \<Rightarrow> u64 list \<Rightarrow> nat \<Rightarrow> nat \<Rightarrow> bool \<Rightarrow> bool" where
  "can_unmap s pt ps v0 n do_free \<longleftrightarrow> v0 + n \<le> NVP
   \<and> (\<forall>v. v0 \<le> v \<and> v < v0 + n \<longrightarrow> valid (pte (mem s) pt v) \<and> PTE_FLAGS (pte (mem s) pt v) \<noteq> PTE_V)
   \<and> (do_free \<longrightarrow> distinct (data_pages (mem s) pt v0 n)
      \<and> (\<forall>p \<in> set (data_pages (mem s) pt v0 n). ram_page (syms s) p
          \<and> p \<notin> tables (mem s) pt \<and> p \<notin> set ps))"

definition freed_pool :: "bytes \<Rightarrow> u64 \<Rightarrow> nat \<Rightarrow> nat \<Rightarrow> bool \<Rightarrow> u64 list \<Rightarrow> u64 list" where
  "freed_pool m pt v0 k do_free ps = (if do_free then rev (data_pages m pt v0 k) @ ps else ps)"

definition unmap_inv ::
  "u64 \<Rightarrow> nat \<Rightarrow> nat \<Rightarrow> bool \<Rightarrow> 'z kmem_scheme \<Rightarrow> u64 list \<Rightarrow> u64 \<Rightarrow> 'z kmem_scheme \<Rightarrow> bool" where
  "unmap_inv pt v0 n df s ps a s' \<longleftrightarrow> (\<exists>k. unat a = (v0 + k) * 4096 \<and> k \<le> n
     \<and> vm_drop pt s ps s' (freed_pool (mem s) pt v0 k df ps) \<and> unmapped (mem s) pt v0 k (mem s'))"

lemma node_of_valid:
  "valid (pte m pt v) \<Longrightarrow> \<exists>p. node m pt (path v) = Some p \<and> entry m p (idx v) = pte m pt v"
  by (auto simp: pte_def split: option.splits)

lemma data_pages_Suc: "data_pages m pt v0 (Suc k) = data_pages m pt v0 k @ [PTE2PA (pte m pt (v0 + k))]"
  by (simp add: data_pages_def)

lemma data_pages_take:
  "k \<le> n \<Longrightarrow> set (data_pages m pt v0 k) \<subseteq> set (data_pages m pt v0 n)"
  by (auto simp: data_pages_def)

lemma data_pages_next:
  assumes "distinct (data_pages m pt v0 n)" "k < n"
  shows "PTE2PA (pte m pt (v0 + k)) \<in> set (data_pages m pt v0 n)"
    "PTE2PA (pte m pt (v0 + k)) \<notin> set (data_pages m pt v0 k)"
proof -
  show "PTE2PA (pte m pt (v0 + k)) \<in> set (data_pages m pt v0 n)"
    using assms(2) by (auto simp: data_pages_def)
  have "inj_on (\<lambda>v. PTE2PA (pte m pt v)) {v0..<v0 + n}"
    using assms(1) by (simp add: data_pages_def distinct_map)
  then show "PTE2PA (pte m pt (v0 + k)) \<notin> set (data_pages m pt v0 k)"
    using assms(2) by (auto simp: data_pages_def dest: inj_onD)
qed

text \<open>The conditional \<^verbatim>\<open>kfree\<close> of the loop body.\<close>

lemma unmap_free:
  assumes "vm_drop pt s ps s1 (freed_pool (mem s) pt v0 k df ps)" "can_unmap s pt ps v0 n df"
    and "k < n" "kmem_ready s1"
  obtains s2 where "whenk df (kfree (PTE2PA (pte (mem s) pt (v0 + k)))) s1 = Ret () s2"
    "vm_drop pt s1 (freed_pool (mem s) pt v0 k df ps) s2 (freed_pool (mem s) pt v0 (Suc k) df ps)"
    "\<And>v. pte (mem s2) pt v = pte (mem s1) pt v"
    "\<And>q. okpath q \<Longrightarrow> node (mem s2) pt q = node (mem s1) pt q"
proof (cases df)
  case True
  let ?pa = "PTE2PA (pte (mem s) pt (v0 + k))"
  have d: "distinct (data_pages (mem s) pt v0 n)" using assms(2) True by (simp add: can_unmap_def)
  note nx = data_pages_next [OF d assms(3)]
  have pa: "ram_page (syms s) ?pa" "?pa \<notin> tables (mem s) pt" "?pa \<notin> set ps"
    using assms(2) True nx(1) by (auto simp: can_unmap_def)
  have "ram_page (syms s1) ?pa" "?pa \<notin> tables (mem s1) pt"
      "?pa \<notin> set (freed_pool (mem s) pt v0 k df ps)"
    using pa nx(2) assms(1) True by (simp_all add: vm_drop_def freed_pool_def)
  from kfree_data [OF vm_drop_inv [OF assms(1)] assms(4) this] obtain s2
    where "kfree ?pa s1 = Ret () s2"
      "vm_drop pt s1 (freed_pool (mem s) pt v0 k df ps) s2 (?pa # freed_pool (mem s) pt v0 k df ps)"
      "\<And>v. pte (mem s2) pt v = pte (mem s1) pt v"
      "\<And>q. okpath q \<Longrightarrow> node (mem s2) pt q = node (mem s1) pt q" by blast
  then show ?thesis using that True by (simp add: km_simps freed_pool_def data_pages_Suc)
next
  case False
  then show ?thesis using that [of s1] vm_drop_refl [OF vm_drop_inv [OF assms(1)]]
    by (simp add: km_simps freed_pool_def)
qed


lemma uvmunmap_body:
  assumes I: "unmap_inv pt v0 n df s ps a s1" and ok: "can_unmap s pt ps v0 n df"
    and rd: "kmem_ready s" and lt: "unat a < (v0 + n) * 4096"
  shows "wp (bind (walk pt a False) (\<lambda>pte.
            if pte = 0 then panic ''uvmunmap: walk''
            else bind (ldpte pte) (\<lambda>e.
              if e AND PTE_V = 0 then panic ''uvmunmap: not mapped''
              else if PTE_FLAGS e = PTE_V then panic ''uvmunmap: not a leaf''
              else seq (whenk df (kfree (PTE2PA e)))
                (seq (stpte pte 0) (ret (Inl (a + PGSIZE)))))))
       (\<lambda>y s'. \<exists>a'. y = Inl a' \<and> unmap_inv pt v0 n df s ps a' s'
          \<and> v0 + n - vpn a' < v0 + n - vpn a) s1"
proof -
  obtain k where k: "unat a = (v0 + k) * 4096" "k < n"
      "vm_drop pt s ps s1 (freed_pool (mem s) pt v0 k df ps)" "unmapped (mem s) pt v0 k (mem s1)"
    using I lt by (auto simp: unmap_inv_def)
  have vk: "v0 + k < NVP" using k(2) ok by (simp add: can_unmap_def)
  note a = page_va [OF k(1) vk]
  note inv1 = vm_drop_inv [OF k(3)]
  let ?e = "pte (mem s) pt (v0 + k)"
  have e1: "pte (mem s1) pt (v0 + k) = ?e" using k(4) vk by (simp add: unmapped_def)
  have ve: "valid ?e" "PTE_FLAGS ?e \<noteq> PTE_V" using ok k(2) by (auto simp: can_unmap_def)
  obtain p where p: "node (mem s1) pt (path (v0 + k)) = Some p" "entry (mem s1) p (idx (v0 + k)) = ?e"
    using node_of_valid [of "mem s1" pt "v0 + k"] ve(1) e1 by auto
  have rp: "ram_page (syms s1) p" by (rule pt_wf_ram [OF vm_invD(2) [OF inv1] okpath_path p(1)])
  have px: "unat (PX 0 a) = idx (v0 + k)" using px_path(2) [of a] a(2) by simp
  obtain s2 where s2: "whenk df (kfree (PTE2PA ?e)) s1 = Ret () s2"
    "vm_drop pt s1 (freed_pool (mem s) pt v0 k df ps) s2 (freed_pool (mem s) pt v0 (Suc k) df ps)"
    "\<And>v. pte (mem s2) pt v = pte (mem s1) pt v"
    "node (mem s2) pt (path (v0 + k)) = Some p"
    using unmap_free [OF k(3) ok k(2) vm_drop_ready [OF k(3) rd]] p(1) by (metis okpath_path)
  define s3 where "s3 = s2\<lparr>mem := store64 (mem s2) (unat p + 8 * idx (v0 + k)) 0\<rparr>"
  note lf = vm_step_leaf [OF vm_drop_inv [OF s2(2)] s2(4) vk, where e = 0, folded s3_def]
  have "vm_drop pt s ps s3 (freed_pool (mem s) pt v0 (Suc k) df ps)"
    using vm_drop_trans [OF vm_drop_trans [OF k(3) s2(2)] vm_step_drop [OF lf(1,3) refl]] .
  moreover have "unmapped (mem s) pt v0 (Suc k) (mem s3)"
    using k(4) lf(2) s2(3) by (auto simp: unmapped_def less_Suc_eq)
  ultimately have I3: "unmap_inv pt v0 n df s ps (a + PGSIZE) s3"
    unfolding unmap_inv_def using a(3) k(2) by (intro exI [of _ "Suc k"]) simp
  have "v0 + n - vpn (a + PGSIZE) < v0 + n - vpn a"
    using a(2,3) k(2) by (simp add: vpn_def)
  moreover have "stpte (pte_addr p (PX 0 a)) 0 s2 = Ret () s3"
    using stpte_addr [OF rp, of 0 a 0 s2] by (simp add: s3_def px)
  ultimately show ?thesis
    using I3 ve s2(1) p walk_look [OF vm_invD(2) [OF inv1] a(1)]
    by (simp add: wp_def km_simps a(2) ram_page_pte_addr [OF rp] ldpte_addr [OF rp] px valid_def)
qed

lemma wp_uvmunmap:
  assumes inv: "vm_inv s pt ps" and rd: "kmem_ready s"
    and va: "unat va = v0 * 4096" and n: "unat npages = n" and ok: "can_unmap s pt ps v0 n df"
  shows "wp (uvmunmap pt va npages df) (\<lambda>_ s'.
     vm_drop pt s ps s' (freed_pool (mem s) pt v0 n df ps) \<and> unmapped (mem s) pt v0 n (mem s')) s"
proof -
  have nv: "v0 + n \<le> NVP" using ok by (simp add: can_unmap_def)
  have np: "unat (npages * PGSIZE) = n * 4096"
    using nv n by (simp add: unat_word_ariths PGSIZE_def)
  have bd: "unat (va + npages * PGSIZE) = (v0 + n) * 4096"
    using nv unat_add64 [of va "npages * PGSIZE"] unfolding va np by (simp add: add_mult_distrib)
  have al: "va mod PGSIZE = 0" using va page_aligned_mod [of va] by (simp add: page_aligned_def)
  have I: "unmap_inv pt v0 n df s ps va s" unfolding unmap_inv_def
    using va vm_drop_refl [OF inv]
    by (intro exI [of _ 0]) (auto simp: freed_pool_def data_pages_def unmapped_def)
  show ?thesis unfolding uvmunmap_def if_not_P [OF al [THEN not_not [THEN iffD2]]]
  proof (rule wp_loop [where I = "unmap_inv pt v0 n df s ps" and V = "\<lambda>a. v0 + n - vpn a", OF I],
      goal_cases)
    case 1
    then show ?case by (simp add: bd)
  next
    case (2 a s1)
    show ?case
    proof (cases "a < va + npages * PGSIZE")
      case True
      then have "unat a < (v0 + n) * 4096" using bd by (simp add: word_less_nat_alt)
      note b = uvmunmap_body [OF 2 ok rd this]
      show ?thesis using True by (simp only: not_True_eq_False if_False) (rule wp_conseq [OF b], auto)
    next
      case False
      then have "\<not> unat a < (v0 + n) * 4096" using bd by (simp add: word_less_nat_alt)
      then obtain k where "k = n" "vm_drop pt s ps s1 (freed_pool (mem s) pt v0 k df ps)"
          "unmapped (mem s) pt v0 k (mem s1)"
        using 2 by (fastforce simp: unmap_inv_def)
      then show ?thesis using False by simp
    qed
  qed
qed

end
