(* ===== verification/Uvmalloc.thy ===== *)
theory Uvmalloc
  imports Uvm
begin

text \<open>
  \<^verbatim>\<open>uvmdealloc\<close> and \<^verbatim>\<open>uvmalloc\<close>: growing an address space either maps fresh zeroed pages over
  the whole range or leaves every mapping and the set of pages as they were.
\<close>

section \<open>Composition\<close>

lemma vm_ext_drop:
  assumes "vm_ext pt s ps s1 ps1 D" "vm_drop pt s1 ps1 s2 ps2" "set ps2 = set ps1 \<union> E" "E \<subseteq> D"
  shows "vm_ext pt s ps s2 ps2 (D - E)"
proof -
  have "same_page d (mem s) (mem s2)"
    if "page_aligned d" "d \<notin> tables (mem s) pt \<union> set ps" for d
  proof (rule same_page_trans)
    show "same_page d (mem s) (mem s1)" using assms(1) that unfolding vm_ext_def by blast
    have "d \<notin> tables (mem s1) pt \<union> set ps2" using assms that unfolding vm_ext_def by blast
    then show "same_page d (mem s1) (mem s2)" using assms(2) that unfolding vm_drop_def by blast
  qed
  moreover have "tables (mem s1) pt \<union> set ps1 \<union> D = tables (mem s) pt \<union> set ps"
    "D \<inter> (tables (mem s1) pt \<union> set ps1) = {}" "tables (mem s2) pt = tables (mem s1) pt"
    using assms unfolding vm_ext_def vm_drop_def by auto
  then have "tables (mem s2) pt \<union> set ps2 \<union> (D - E) = tables (mem s) pt \<union> set ps"
    "(D - E) \<inter> (tables (mem s2) pt \<union> set ps2) = {}" using assms(3,4) by blast+
  moreover have "tables (mem s) pt \<subseteq> tables (mem s2) pt" "mach s2 \<in> {mach s, quiet (mach s)}"
    using assms unfolding vm_ext_def vm_drop_def by auto
  ultimately show ?thesis using assms unfolding vm_ext_def vm_drop_def by auto
qed

lemma same_page_sym: "same_page p m m' \<longleftrightarrow> same_page p m' m"
  by (auto simp: same_page_def)

text \<open>Taking a page for data and clearing it.\<close>

lemma kalloc_data:
  assumes inv: "vm_inv s pt (p # ps)" and rd: "kmem_ready s"
  obtains s1 s2 where "kalloc s = Ret p s1" "on_mem (memset (unat p) c 4096) s1 = Ret () s2"
    "vm_ext pt s (p # ps) s2 ps {p}" "\<And>i. i < 4096 \<Longrightarrow> mem s2 (unat p + i) = c"
    "\<And>v. pte (mem s2) pt v = pte (mem s) pt v" "p \<noteq> 0" "ram_page (syms s) p"
proof -
  note kv = kmem_inv_kalloc [OF vm_invD(1) [OF inv]]
  define s1 where "s1 = s\<lparr>mach := quiet (mach s), freelist := run_next (mem s) p,
    mem := memset (unat p) 5 4096 (mem s)\<rparr>"
  define s2 where "s2 = s1\<lparr>mem := memset (unat p) c 4096 (mem s1)\<rparr>"
  have r1: "kalloc s = Ret p s1"
    using rd kv(1,2) by (simp add: kalloc_eq kmem_ready_def s1_def)
  have r2: "on_mem (memset (unat p) c 4096) s1 = Ret () s2" by (simp add: on_mem_def s2_def)
  have al: "page_aligned p" using kv(3) by (simp add: ram_page_def)
  have fr: "same_page d (mem s) (mem s2)" if "page_aligned d" "d \<noteq> p" for d
    using same_page_memset2 [OF that(1) al that(2)] by (simp add: s2_def s1_def)
  have tb: "same_page d (mem s) (mem s2)" if "d \<in> tables (mem s) pt" for d
    using that vm_invD(2,3) [OF inv] by (intro fr) (auto simp: pt_wf_def ram_page_def)
  have "same_page x (mem s1) (mem s2)" if "x \<in> set ps" for x
    using that kv(4) al vm_inv_pool(2) [OF inv, of x]
    by (auto simp: s2_def intro!: same_page_memset)
  then have "free_chain (mem s2) (freelist s1) ps = free_chain (mem s1) (freelist s1) ps"
    by (intro free_chain_cong) blast
  then have "kmem_inv s2 ps"
    using kv(5) [of 5 "quiet (mach s)"] by (simp add: kmem_inv_def s2_def s1_def)
  then have "vm_inv s2 pt ps"
    using pt_wf_frame [OF vm_invD(2) [OF inv] tb] pte_same(2) [OF tb] vm_invD(3) [OF inv]
    by (simp add: vm_inv_def s2_def s1_def)
  then have "vm_ext pt s (p # ps) s2 ps {p}"
    unfolding vm_ext_def using pte_same(2) [OF tb] fr kv(4) vm_invD(3) [OF inv]
    by (auto simp: s2_def s1_def)
  moreover have "mem s2 (unat p + i) = c" if "i < 4096" for i
    using that by (simp add: s2_def memset_apply)
  ultimately show ?thesis using that r1 r2 pte_same(1) [OF tb] kv(2,3) by blast
qed

section \<open>uvmdealloc\<close>

lemma PGROUNDUP_aligned:
  assumes "unat a = v * 4096" "v \<le> NVP"
  shows "PGROUNDUP a = a"
proof -
  have "unat (PGROUNDUP a) = (v * 4096 + 4095) div 4096 * 4096"
    using assms by (subst unat_PGROUNDUP) simp_all
  also have "\<dots> = unat a" by (simp add: assms(1))
  finally show ?thesis by (simp add: word_unat_eq_iff)
qed

lemma scast_ucast_small:
  assumes "unat (x::u64) < 2 ^ 31"
  shows "scast (ucast x :: u32) = (x :: u64)"
proof (rule bit_word_eqI)
  have "take_bit 31 (unat x) = unat x" using assms by (rule take_bit_nat_eq_self)
  moreover have "bit (unat x) n" if "bit x n" for n using that by (simp add: bit_unsigned_iff)
  ultimately have hi: "n < 31" if "bit x n" for n
    using that by (metis bit_take_bit_iff)
  show "bit (scast (ucast x :: u32) :: u64) n \<longleftrightarrow> bit x n" if "n < LENGTH(64)" for n
    using that hi [of n] hi [of 31] by (auto simp: bit_signed_iff bit_unsigned_iff min_def)
qed


lemma wp_uvmdealloc:
  assumes inv: "vm_inv s pt ps" and rd: "kmem_ready s"
    and a: "unat a = (v0 + k) * 4096" and o: "unat old = v0 * 4096"
    and ok: "can_unmap s pt ps v0 k True"
  shows "wp (uvmdealloc pt a old) (\<lambda>_ s'.
     vm_drop pt s ps s' (freed_pool (mem s) pt v0 k True ps) \<and> unmapped (mem s) pt v0 k (mem s')) s"
proof (cases "k = 0")
  case True
  then have "old = a" using a o by (simp add: word_unat_eq_iff)
  then show ?thesis using True vm_drop_refl [OF inv]
    by (auto simp: uvmdealloc_def freed_pool_def data_pages_def unmapped_def)
next
  case False
  have nv: "v0 + k \<le> NVP" using ok by (simp add: can_unmap_def)
  have r: "PGROUNDUP a = a" "PGROUNDUP old = old"
    using PGROUNDUP_aligned [OF a] PGROUNDUP_aligned [OF o] nv by auto
  have lt: "old < a" "\<not> a \<le> old" using a o False by (simp_all add: word_less_nat_alt word_le_nat_alt)
  have "unat (a - old) = k * 4096"
    using lt a o by (simp add: unat_sub64 diff_mult_distrib [symmetric])
  then have n: "unat ((a - old) div PGSIZE) = k" by (simp add: unat_div)
  have sc: "scast (ucast ((a - old) div PGSIZE) :: u32) = (a - old) div PGSIZE"
    using n nv by (intro scast_ucast_small) simp
  show ?thesis using wp_uvmunmap [OF inv rd o n ok] lt
    by (simp add: uvmdealloc_def r Let_def sc)
qed

section \<open>uvmalloc\<close>

definition filled :: "bytes \<Rightarrow> u64 \<Rightarrow> nat \<Rightarrow> nat \<Rightarrow> (nat \<Rightarrow> u64) \<Rightarrow> u64 \<Rightarrow> bytes \<Rightarrow> bool" where
  "filled m pt v0 k f perm m' \<longleftrightarrow> (\<forall>v < NVP. pte m' pt v =
     (if v0 \<le> v \<and> v < v0 + k then PA2PTE (f v) OR perm OR PTE_V else pte m pt v))"

definition alloc_inv ::
  "u64 \<Rightarrow> nat \<Rightarrow> nat \<Rightarrow> u64 \<Rightarrow> 'z kmem_scheme \<Rightarrow> u64 list \<Rightarrow> nat \<Rightarrow> 'z kmem_scheme \<Rightarrow> u64 list \<Rightarrow> (nat \<Rightarrow> u64) \<Rightarrow> bool"
  where
  "alloc_inv pt v0 n perm s ps k s' ps' f \<longleftrightarrow> k \<le> n
     \<and> vm_ext pt s ps s' ps' (f ` {v0..<v0 + k}) \<and> inj_on f {v0..<v0 + k}
     \<and> (\<forall>v \<in> {v0..<v0 + k}. zero_page (mem s') (f v) \<and> ram_page (syms s) (f v))
     \<and> filled (mem s) pt v0 k f perm (mem s')"

text \<open>The permission bits that \<^verbatim>\<open>uvmalloc\<close> puts in an entry.\<close>

abbreviation uperm :: "u64 \<Rightarrow> u64" where
  "uperm xperm \<equiv> PTE_R OR PTE_U OR xperm"

lemma user_entry:
  assumes "ram_page y p" "xperm AND NOT 0x3FF = 0"
  shows "PTE2PA (PA2PTE p OR uperm xperm OR PTE_V) = p"
    "PTE_FLAGS (PA2PTE p OR uperm xperm OR PTE_V) \<noteq> PTE_V"
proof -
  have "(uperm xperm OR PTE_V) AND NOT 0x3FF = 0"
    using assms(2) by (simp add: bit.conj_disj_distrib2 PTE_bits)
  then show "PTE2PA (PA2PTE p OR uperm xperm OR PTE_V) = p"
    using assms(1) ram_page_bound [OF assms(1)]
    by (intro PTE2PA_PA2PTE) (auto simp: ram_page_def)
  have "bit (PTE_FLAGS (PA2PTE p OR uperm xperm OR PTE_V)) 1"
    by (simp add: PTE_FLAGS_def PTE_R_def PTE_V_def low10_mask bit_simps)
  moreover have "\<not> bit PTE_V 1" by (simp add: PTE_V_def bit_simps)
  ultimately show "PTE_FLAGS (PA2PTE p OR uperm xperm OR PTE_V) \<noteq> PTE_V" by metis
qed

lemma alloc_can_unmap:
  assumes I: "alloc_inv pt v0 n (uperm xperm) s ps k s1 ps1 f" and n: "v0 + n \<le> NVP"
    and x: "xperm AND NOT 0x3FF = 0"
  shows "data_pages (mem s1) pt v0 k = map f [v0..<v0 + k]" "can_unmap s1 pt ps1 v0 k True"
proof -
  have e: "pte (mem s1) pt v = PA2PTE (f v) OR uperm xperm OR PTE_V" and r: "ram_page (syms s) (f v)"
    if "v \<in> {v0..<v0 + k}" for v
    using that I n by (auto simp: alloc_inv_def filled_def)
  note ue = user_entry [OF r x]
  show d: "data_pages (mem s1) pt v0 k = map f [v0..<v0 + k]"
    unfolding data_pages_def by (rule map_cong) (simp_all add: e ue)
  have "f ` {v0..<v0 + k} \<inter> (tables (mem s1) pt \<union> set ps1) = {}" "syms s1 = syms s"
    "inj_on f {v0..<v0 + k}" "k \<le> n"
    using I by (auto simp: alloc_inv_def vm_ext_def)
  then show "can_unmap s1 pt ps1 v0 k True" unfolding can_unmap_def d
    using e ue(2) r n by (auto simp: distinct_map)
qed

text \<open>Undoing: all pages mapped so far are unmapped and freed again.\<close>

lemma alloc_undo:
  assumes I: "alloc_inv pt v0 n (uperm xperm) s ps k s1 ps1 f" and n: "v0 + n \<le> NVP"
    and x: "xperm AND NOT 0x3FF = 0"
    and rd: "kmem_ready s" and a: "unat a = (v0 + k) * 4096" and o: "unat old = v0 * 4096"
  shows "wp (seq (uvmdealloc pt a old) (ret r)) (\<lambda>r' s'. r' = r
    \<and> (\<exists>ps'. vm_ext pt s ps s' ps' {}) \<and> unmapped (mem s) pt v0 k (mem s')) s1"
proof -
  have ext: "vm_ext pt s ps s1 ps1 (f ` {v0..<v0 + k})" and fl: "filled (mem s) pt v0 k f (uperm xperm) (mem s1)"
    using I by (auto simp: alloc_inv_def)
  note cu = alloc_can_unmap [OF I n x]
  note w = wp_uvmdealloc [OF vm_ext_inv [OF ext] vm_ext_ready [OF ext rd] a o cu(2)]
  have "set (freed_pool (mem s1) pt v0 k True ps1) = set ps1 \<union> f ` {v0..<v0 + k}"
    by (auto simp: freed_pool_def cu(1))
  note ed = vm_ext_drop [OF ext _ this subset_refl]
  show ?thesis
    unfolding wp_seq wp_ret
    by (rule wp_conseq [OF w]) (use ed fl in \<open>auto simp: unmapped_def filled_def\<close>)
qed


text \<open>What \<^verbatim>\<open>uvmalloc\<close> may return: all \<open>n\<close> pages are there, or none is.\<close>

definition alloc_result ::
  "u64 \<Rightarrow> nat \<Rightarrow> nat \<Rightarrow> u64 \<Rightarrow> 'z kmem_scheme \<Rightarrow> u64 list \<Rightarrow> u64 \<Rightarrow> u64 \<Rightarrow> 'z kmem_scheme \<Rightarrow> bool" where
  "alloc_result pt v0 n perm s ps newsz r s' \<longleftrightarrow>
     r = newsz \<and> (\<exists>ps' f. alloc_inv pt v0 n perm s ps n s' ps' f)
   \<or> r = 0 \<and> (\<exists>k ps'. k \<le> n \<and> vm_ext pt s ps s' ps' {} \<and> unmapped (mem s) pt v0 k (mem s'))"

lemma zero_page_frame:
  "zero_page m p \<Longrightarrow> same_page p m m' \<Longrightarrow> zero_page m' p"
  using zero_page_cong by blast

lemma alloc_zero_kept:
  assumes I: "alloc_inv pt v0 n perm s ps k s1 ps1 f" and e: "vm_ext pt s1 ps1 s2 ps2 E"
    and v: "v \<in> {v0..<v0 + k}"
  shows "zero_page (mem s2) (f v)"
proof (rule zero_page_frame)
  show "zero_page (mem s1) (f v)" using I v by (simp add: alloc_inv_def)
  have "page_aligned (f v)" using I v by (simp add: alloc_inv_def ram_page_def)
  moreover have "f v \<notin> tables (mem s1) pt \<union> set ps1"
    using I v unfolding alloc_inv_def vm_ext_def by blast
  ultimately show "same_page (f v) (mem s1) (mem s2)" using e unfolding vm_ext_def by blast
qed

lemma alloc_inv_carry:
  assumes I: "alloc_inv pt v0 n perm s ps k s1 ps1 f" and e: "vm_ext pt s1 ps1 s2 ps2 {}"
    and p: "\<And>v. v < NVP \<Longrightarrow> pte (mem s2) pt v = pte (mem s1) pt v"
  shows "alloc_inv pt v0 n perm s ps k s2 ps2 f"
proof -
  have "vm_ext pt s ps s1 ps1 (f ` {v0..<v0 + k})" using I by (simp add: alloc_inv_def)
  from vm_ext_trans [OF this e] have "vm_ext pt s ps s2 ps2 (f ` {v0..<v0 + k})" by simp
  then show ?thesis using I p alloc_zero_kept [OF I e]
    by (simp add: alloc_inv_def filled_def)
qed

text \<open>One more page has been taken and mapped.\<close>

lemma alloc_inv_Suc:
  assumes I: "alloc_inv pt v0 n perm s ps k s1 (p # ps1) f" and kn: "k < n" and n: "v0 + n \<le> NVP"
    and e: "vm_ext pt s1 (p # ps1) s2 ps1 {p}" "zero_page (mem s2) p" "ram_page (syms s1) p"
      "\<And>v. pte (mem s2) pt v = pte (mem s1) pt v"
    and m: "vm_step pt s2 ps1 s3 ps3" "mapped (mem s2) pt (v0 + k) 1 p perm (mem s3)"
  shows "alloc_inv pt v0 n perm s ps (Suc k) s3 ps3 (f(v0 + k := p))"
proof -
  let ?f = "f(v0 + k := p)" and ?D = "f ` {v0..<v0 + k}"
  have ext: "vm_ext pt s ps s1 (p # ps1) ?D" and inj: "inj_on f {v0..<v0 + k}"
    and z: "\<And>v. v \<in> {v0..<v0 + k} \<Longrightarrow> zero_page (mem s1) (f v) \<and> ram_page (syms s) (f v)"
    and fl: "filled (mem s) pt v0 k f perm (mem s1)"
    using I by (auto simp: alloc_inv_def)
  have D: "?D \<inter> (tables (mem s1) pt \<union> set (p # ps1)) = {}" and y: "syms s1 = syms s"
    using ext by (auto simp: vm_ext_def)
  have img: "?f ` {v0..<v0 + Suc k} = ?D \<union> {p}" by auto
  have "vm_ext pt s ps s3 ps3 (?D \<union> {p} \<union> {})"
    using vm_ext_trans [OF vm_ext_trans [OF ext e(1)] vm_step_ext [OF m(1)]] .
  then have x: "vm_ext pt s ps s3 ps3 (?f ` {v0..<v0 + Suc k})" unfolding img by simp
  have pD: "p \<notin> ?D" using D by auto
  then have ij: "inj_on ?f {v0..<v0 + Suc k}"
    using inj by (auto simp: inj_on_def less_Suc_eq)
  have e13: "vm_ext pt s1 (p # ps1) s3 ps3 {p}"
    using vm_ext_trans [OF e(1) vm_step_ext [OF m(1)]] by simp
  note old = alloc_zero_kept [OF I e13]
  have new: "zero_page (mem s3) p"
  proof (rule zero_page_frame [OF e(2)])
    have "page_aligned p" "p \<notin> tables (mem s2) pt \<union> set ps1"
      using e(1,3) by (auto simp: vm_ext_def ram_page_def)
    then show "same_page p (mem s2) (mem s3)" using m(1) unfolding vm_step_def by blast
  qed
  have "filled (mem s) pt v0 (Suc k) ?f perm (mem s3)"
    using fl m(2) e(4) by (auto simp: filled_def mapped_def less_Suc_eq)
  moreover have "\<forall>v \<in> {v0..<v0 + Suc k}. zero_page (mem s3) (?f v) \<and> ram_page (syms s) (?f v)"
    using old new z e(3) y by (auto simp: less_Suc_eq)
  ultimately show ?thesis unfolding alloc_inv_def using x ij kn by simp
qed

lemma less_div_ceil: "(x * 4096 < (y::nat)) = (x < (y + 4095) div 4096)"
proof -
  have "(x < (y + 4095) div 4096) = (Suc x * 4096 \<le> y + 4095)"
    by (simp add: Suc_le_eq [symmetric] less_eq_div_iff_mult_less_eq)
  then show ?thesis by auto
qed

lemma vpn_page_end:
  assumes "unat a = v * 4096" "v < NVP"
  shows "vpn (a + PGSIZE - 1) = v"
proof -
  have "unat (a + PGSIZE) = (v + 1) * 4096" by (rule page_va(3) [OF assms])
  then have "unat (a + PGSIZE - 1) = v * 4096 + 4095" by (simp add: unat_sub64 word_le_nat_alt)
  then show ?thesis by (simp add: vpn_def)
qed

text \<open>What holds after one turn of the loop that found \<open>k\<close> pages mapped.\<close>

definition alloc_post ::
  "u64 \<Rightarrow> nat \<Rightarrow> nat \<Rightarrow> u64 \<Rightarrow> 'z kmem_scheme \<Rightarrow> u64 list \<Rightarrow> nat \<Rightarrow> u64 \<Rightarrow> u64 + u64 \<Rightarrow> 'z kmem_scheme \<Rightarrow> bool"
  where
  "alloc_post pt v0 n perm s ps k a y s' = (case y of
      Inl a' \<Rightarrow> a' = a + PGSIZE \<and> (\<exists>ps' f. alloc_inv pt v0 n perm s ps (Suc k) s' ps' f)
    | Inr r \<Rightarrow> r = 0 \<and> (\<exists>ps'. vm_ext pt s ps s' ps' {}) \<and> unmapped (mem s) pt v0 k (mem s'))"

lemma alloc_fail:
  assumes I: "alloc_inv pt v0 n (uperm xperm) s ps k s1 ps1 f" and e: "vm_ext pt s1 ps1 s2 ps2 {}"
    and p: "\<And>v. v < NVP \<Longrightarrow> pte (mem s2) pt v = pte (mem s1) pt v"
    and n: "v0 + n \<le> NVP" and x: "xperm AND NOT 0x3FF = 0"
    and rd: "kmem_ready s" and a: "unat a = (v0 + k) * 4096" and o: "unat old = v0 * 4096"
  shows "wp (seq (uvmdealloc pt a old) (ret (Inr 0))) (alloc_post pt v0 n (uperm xperm) s ps k a) s2"
  by (rule wp_conseq [OF alloc_undo [OF alloc_inv_carry [OF I e p] n x rd a o]])
    (auto simp: alloc_post_def)

text \<open>The part of the body after \<^verbatim>\<open>mappages\<close>.\<close>

lemma uvmalloc_mapped:
  assumes I: "alloc_inv pt v0 n (uperm xperm) s ps k s1 (p # ps2) f" and kn: "k < n" and n: "v0 + n \<le> NVP"
    and x: "xperm AND NOT 0x3FF = 0" and rd: "kmem_ready s"
    and a: "unat a = (v0 + k) * 4096" and o: "unat old = v0 * 4096"
    and ka: "vm_ext pt s1 (p # ps2) s3 ps2 {p}" "zero_page (mem s3) p" "ram_page (syms s1) p"
      "\<And>v. pte (mem s3) pt v = pte (mem s1) pt v"
    and h: "vm_step pt s3 ps2 s4 ps4" "mapped (mem s3) pt (v0 + k) j p (uperm xperm) (mem s4)"
      "r = 0 \<and> j = 1 \<or> r = (-1::int) \<and> j = 0"
  shows "wp (if r \<noteq> 0 then seq (kfree p) (seq (uvmdealloc pt a old) (ret (Inr 0)))
         else ret (Inl (a + PGSIZE))) (alloc_post pt v0 n (uperm xperm) s ps k a) s4"
proof (cases "r = 0")
  case True
  then have "mapped (mem s3) pt (v0 + k) 1 p (uperm xperm) (mem s4)" using h(2,3) by simp
  from alloc_inv_Suc [OF I kn n ka h(1) this] show ?thesis
    using True by (auto simp: alloc_post_def)
next
  case False
  then have j: "j = 0" using h(3) by auto
  have rd1: "kmem_ready s1" using I rd vm_ext_ready by (auto simp: alloc_inv_def)
  have e14: "vm_ext pt s1 (p # ps2) s4 ps4 {p}"
    using vm_ext_trans [OF ka(1) vm_step_ext [OF h(1)]] by simp
  have "ram_page (syms s4) p" "p \<notin> tables (mem s4) pt" "p \<notin> set ps4"
    using e14 ka(3) by (auto simp: vm_ext_def)
  from kfree_data [OF vm_ext_inv [OF e14] vm_ext_ready [OF e14 rd1] this] obtain s5 where
    s5: "kfree p s4 = Ret () s5" "vm_drop pt s4 ps4 s5 (p # ps4)"
      "\<And>v. pte (mem s5) pt v = pte (mem s4) pt v" by metis
  have e15: "vm_ext pt s1 (p # ps2) s5 (p # ps4) {}"
    using vm_ext_drop [OF e14 s5(2), of "{p}"] by simp
  have "pte (mem s5) pt v = pte (mem s1) pt v" if "v < NVP" for v
    using that s5(3) ka(4) h(2) by (simp add: j mapped_0)
  from alloc_fail [OF I e15 this n x rd a o] show ?thesis
    using False wp_Ret_iff [of "kfree p" s4 "()" s5, OF s5(1)] by simp
qed

lemma uvmalloc_body:
  assumes I: "alloc_inv pt v0 n (uperm xperm) s ps k s1 ps1 f" and kn: "k < n" and n: "v0 + n \<le> NVP"
    and x: "xperm AND NOT 0x3FF = 0" and rd: "kmem_ready s"
    and a: "unat a = (v0 + k) * 4096" and o: "unat old = v0 * 4096"
    and fresh: "\<And>v. v0 \<le> v \<Longrightarrow> v < v0 + n \<Longrightarrow> \<not> valid (pte (mem s) pt v)"
  shows "wp (bind kalloc (\<lambda>p.
      if p = 0 then seq (uvmdealloc pt a old) (ret (Inr 0))
      else seq (on_mem (memset (unat p) 0 (unat PGSIZE)))
        (bind (mappages pt a PGSIZE p (uperm xperm)) (\<lambda>r.
         if r \<noteq> 0 then seq (kfree p) (seq (uvmdealloc pt a old) (ret (Inr 0)))
         else ret (Inl (a + PGSIZE))))))
     (alloc_post pt v0 n (uperm xperm) s ps k a) s1"
proof -
  have ext: "vm_ext pt s ps s1 ps1 (f ` {v0..<v0 + k})" and fl: "filled (mem s) pt v0 k f (uperm xperm) (mem s1)"
    using I by (auto simp: alloc_inv_def)
  have rd1: "kmem_ready s1" by (rule vm_ext_ready [OF ext rd])
  have vk: "v0 + k < NVP" using kn n by simp
  note av = page_va [OF a vk] vpn_page_end [OF a vk]
  show ?thesis
  proof (cases ps1)
    case Nil
    define s2 where "s2 = s1\<lparr>mach := quiet (mach s1)\<rparr>"
    have k0: "kalloc s1 = Ret 0 s2"
      using rd1 Nil vm_invD(1) [OF vm_ext_inv [OF ext]]
      by (simp add: kalloc_eq kmem_ready_def kmem_inv_Nil s2_def)
    have "vm_ext pt s1 ps1 s2 ps1 {}"
      using vm_ext_inv [OF ext] by (auto simp: s2_def vm_ext_def vm_inv_def kmem_inv_def same_page_def)
    from alloc_fail [OF I this _ n x rd a o] show ?thesis
      using wp_Ret_iff [of kalloc s1 0 s2, OF k0] by (simp add: s2_def)
  next
    case (Cons p ps2)
    note inv1 = vm_ext_inv [OF ext, unfolded Cons]
    obtain s2 s3 where ka: "kalloc s1 = Ret p s2" "on_mem (memset (unat p) 0 4096) s2 = Ret () s3"
      "vm_ext pt s1 (p # ps2) s3 ps2 {p}" "zero_page (mem s3) p" "ram_page (syms s1) p"
      "\<And>v. pte (mem s3) pt v = pte (mem s1) pt v" "p \<noteq> 0"
      using kalloc_data [OF inv1 rd1, of 0] unfolding zero_page_def by metis
    have nv: "\<not> valid (pte (mem s3) pt v)" if "vpn a \<le> v" "v \<le> vpn (a + PGSIZE - 1)" for v
      using that fresh [of v] fl kn n ka(6) by (auto simp: av(2,4) filled_def)
    have top: "unat a + unat PGSIZE \<le> unat MAXVA" using a vk by (simp add: MAXVA_val)
    have pz: "PGSIZE \<noteq> 0" by (simp add: PGSIZE_def)
    note wm = wp_mappages [OF vm_ext_inv [OF ka(3)] vm_ext_ready [OF ka(3) rd1] pz top nv, of p "uperm xperm",
        unfolded av(2,4)]
    note post = uvmalloc_mapped [OF I [unfolded Cons] kn n x rd a o ka(3-6)]
    have "wp (mappages pt a PGSIZE p (uperm xperm)) (\<lambda>r s'.
        wp (if r \<noteq> 0 then seq (kfree p) (seq (uvmdealloc pt a old) (ret (Inr 0)))
            else ret (Inl (a + PGSIZE))) (alloc_post pt v0 n (uperm xperm) s ps k a) s') s3"
    proof (rule wp_conseq [OF wm])
      fix r :: int and s4
      assume "\<exists>j ps'. vm_step pt s3 ps2 s4 ps' \<and> mapped (mem s3) pt (v0 + k) j p (uperm xperm) (mem s4) \<and>
        (r = 0 \<and> j = v0 + k - (v0 + k) + 1 \<or> r = - 1 \<and> j \<le> v0 + k - (v0 + k) \<and> ps' = [])"
      then obtain j ps' where h: "vm_step pt s3 ps2 s4 ps'"
        "mapped (mem s3) pt (v0 + k) j p (uperm xperm) (mem s4)" "r = 0 \<and> j = 1 \<or> r = - 1 \<and> j = 0"
        by auto
      show "wp (if r \<noteq> 0 then seq (kfree p) (seq (uvmdealloc pt a old) (ret (Inr 0)))
            else ret (Inl (a + PGSIZE))) (alloc_post pt v0 n (uperm xperm) s ps k a) s4"
        by (rule post [OF h])
    qed
    then show ?thesis
      using wp_Ret_iff [of kalloc s1 p s2, OF ka(1)] ka(7)
        wp_Ret_iff [of "on_mem (memset (unat p) 0 4096)" s2 "()" s3, OF ka(2)]
      by (simp del: wp_seq add: wp_seq [of "on_mem (memset (unat p) 0 4096)"])
  qed
qed

lemma wp_uvmalloc:
  assumes inv: "vm_inv s pt ps" and rd: "kmem_ready s" and x: "xperm AND NOT 0x3FF = 0"
    and le: "oldsz \<le> newsz" and mx: "newsz \<le> MAXVA"
    and v0: "v0 = (unat oldsz + 4095) div 4096" and n: "n = (unat newsz + 4095) div 4096 - v0"
    and fresh: "\<And>v. v0 \<le> v \<Longrightarrow> v < v0 + n \<Longrightarrow> \<not> valid (pte (mem s) pt v)"
  shows "wp (uvmalloc pt oldsz newsz xperm) (alloc_result pt v0 n (uperm xperm) s ps newsz) s"
proof -
  let ?I = "\<lambda>a s1. \<exists>k ps1 f. unat a = (v0 + k) * 4096 \<and> alloc_inv pt v0 n (uperm xperm) s ps k s1 ps1 f"
  have un: "unat oldsz \<le> unat newsz" "unat newsz \<le> 0x4000000000"
    using le mx by (simp_all add: word_le_nat_alt MAXVA_val)
  have o: "unat (PGROUNDUP oldsz) = v0 * 4096" unfolding v0 using un by (intro unat_PGROUNDUP) simp
  have "(unat oldsz + 4095) div 4096 \<le> (unat newsz + 4095) div 4096" using un by (intro div_le_mono) simp
  then have v1: "v0 + n = (unat newsz + 4095) div 4096" using v0 n by simp
  have "(unat newsz + 4095) div 4096 \<le> (0x4000000000 + 4095) div 4096" using un by (intro div_le_mono) simp
  then have nv: "v0 + n \<le> NVP" using v1 by simp
  have lt: "a < newsz \<longleftrightarrow> k < n" if "unat a = (v0 + k) * 4096" for a k
  proof -
    have "a < newsz \<longleftrightarrow> (v0 + k) * 4096 < unat newsz" using that by (simp add: word_less_nat_alt)
    also have "\<dots> \<longleftrightarrow> v0 + k < v0 + n" unfolding v1 by (rule less_div_ceil)
    finally show ?thesis by simp
  qed
  have I0: "?I (PGROUNDUP oldsz) s"
    using o vm_step_ext [OF vm_step_refl [OF inv]]
    by (intro exI [of _ 0] exI [of _ ps] exI [of _ "\<lambda>_. 0"]) (auto simp: alloc_inv_def filled_def)
  have fuel: "v0 + n - vpn (PGROUNDUP oldsz) < unat newsz div 4096 + 2"
    using o v1 by (simp add: vpn_def)
  have "\<not> newsz < oldsz" using le by simp
  show ?thesis unfolding uvmalloc_def Let_def if_not_P [OF \<open>\<not> newsz < oldsz\<close>]
  proof (rule wp_loop [where I = ?I and V = "\<lambda>a. v0 + n - vpn a", OF I0 fuel], elim exE conjE)
    fix a :: u64 and s1 k ps1 f
    assume a: "unat a = (v0 + k) * 4096" and I: "alloc_inv pt v0 n (uperm xperm) s ps k s1 ps1 f"
    show "wp (if \<not> a < newsz then ret (Inr newsz) else
      bind kalloc (\<lambda>p.
      if p = 0 then seq (uvmdealloc pt a (PGROUNDUP oldsz)) (ret (Inr 0))
      else seq (on_mem (memset (unat p) 0 (unat PGSIZE)))
        (bind (mappages pt a PGSIZE p (uperm xperm)) (\<lambda>r.
         if r \<noteq> 0 then seq (kfree p) (seq (uvmdealloc pt a (PGROUNDUP oldsz)) (ret (Inr 0)))
         else ret (Inl (a + PGSIZE))))))
      (\<lambda>y s'. case y of Inl x' \<Rightarrow> ?I x' s' \<and> v0 + n - vpn x' < v0 + n - vpn a
        | Inr r \<Rightarrow> alloc_result pt v0 n (uperm xperm) s ps newsz r s') s1"
    proof (cases "a < newsz")
      case True
      then have kn: "k < n" using lt [OF a] by simp
      then have "v0 + k < NVP" using nv by simp
      note pv = page_va [OF a this]
      have V: "v0 + n - vpn (a + PGSIZE) < v0 + n - vpn a"
        using pv(2,3) kn by (simp add: vpn_def)
      show ?thesis unfolding if_not_P [OF True [THEN not_not [THEN iffD2]]]
      proof (rule wp_conseq [OF uvmalloc_body [OF I kn nv x rd a o fresh]])
        fix y s'
        assume P: "alloc_post pt v0 n (uperm xperm) s ps k a y s'"
        have "unat (a + PGSIZE) = (v0 + Suc k) * 4096" using pv(3) by simp
        then show "case y of Inl x' \<Rightarrow> ?I x' s' \<and> v0 + n - vpn x' < v0 + n - vpn a
          | Inr r \<Rightarrow> alloc_result pt v0 n (uperm xperm) s ps newsz r s'"
          using P V less_imp_le [OF kn] unfolding alloc_post_def alloc_result_def
          by (cases y) (simp only: sum.case, blast)+
      qed
    next
      case False
      then have "k = n" using lt [OF a] I by (simp add: alloc_inv_def)
      then show ?thesis using False I by (auto simp: alloc_result_def)
    qed
  qed
qed

end
