(* ===== verification/Usercopy.thy ===== *)
theory Usercopy
  imports Uvmalloc
begin

text \<open>
  \<^verbatim>\<open>copyout\<close>, \<^verbatim>\<open>copyin\<close> and \<^verbatim>\<open>copyinstr\<close> against the view a user program has of its memory: a
  byte for each virtual address of a page whose entry is valid and has the user bit.
\<close>

section \<open>The user's view\<close>

definition upage :: "bytes \<Rightarrow> u64 \<Rightarrow> nat \<Rightarrow> bool" where
  "upage m pt v \<longleftrightarrow> v < NVP \<and> valid (pte m pt v) \<and> pte m pt v AND PTE_U \<noteq> 0"

definition upa :: "bytes \<Rightarrow> u64 \<Rightarrow> nat \<Rightarrow> u64" where
  "upa m pt v = PTE2PA (pte m pt v)"

definition ubyte :: "bytes \<Rightarrow> u64 \<Rightarrow> nat \<Rightarrow> u8" where
  "ubyte m pt x = m (unat (upa m pt (x div 4096)) + x mod 4096)"

text \<open>The pages a user may touch are pages of memory, each mapped once, and neither part of the
  page table nor free.\<close>

definition user_wf :: "'z kmem_scheme \<Rightarrow> u64 \<Rightarrow> u64 list \<Rightarrow> bool" where
  "user_wf s pt ps \<longleftrightarrow> vm_inv s pt ps \<and> inj_on (upa (mem s) pt) {v. upage (mem s) pt v}
   \<and> (\<forall>v. upage (mem s) pt v \<longrightarrow> ram_page (syms s) (upa (mem s) pt v)
        \<and> upa (mem s) pt v \<notin> tables (mem s) pt \<and> upa (mem s) pt v \<notin> set ps)"

lemma user_wfD:
  assumes "user_wf s pt ps"
  shows "vm_inv s pt ps" "pt_wf (syms s) (mem s) pt"
    "upage (mem s) pt v \<Longrightarrow> ram_page (syms s) (upa (mem s) pt v)"
    "upage (mem s) pt v \<Longrightarrow> upa (mem s) pt v \<notin> tables (mem s) pt"
    "upage (mem s) pt v \<Longrightarrow> upage (mem s) pt w \<Longrightarrow> upa (mem s) pt v = upa (mem s) pt w \<Longrightarrow> v = w"
  using assms by (auto simp: user_wf_def vm_inv_def dest: inj_onD)

lemma va_page:
  assumes "va0 = PGROUNDDOWN va"
  shows "unat va0 = unat va div 4096 * 4096" "unat (va - va0) = unat va mod 4096"
    "vpn va0 = unat va div 4096" "unat (PGSIZE - (va - va0)) = 4096 - unat va mod 4096"
proof -
  show u: "unat va0 = unat va div 4096 * 4096" by (simp add: assms unat_PGROUNDDOWN)
  then have "va0 \<le> va" by (simp add: word_le_nat_alt)
  then show d: "unat (va - va0) = unat va mod 4096"
    using u by (simp add: unat_sub64 modulo_nat_def)
  show "vpn va0 = unat va div 4096" by (simp add: vpn_def u)
  have "va - va0 \<le> PGSIZE" using d mod_less_divisor [of 4096 "unat va"]
    by (simp add: word_le_nat_alt less_imp_le)
  then show "unat (PGSIZE - (va - va0)) = 4096 - unat va mod 4096"
    using d by (simp add: unat_sub64)
qed

lemma walkaddr_user:
  assumes "user_wf s pt ps"
  shows "walkaddr pt (PGROUNDDOWN va) s =
    Ret (if upage (mem s) pt (unat va div 4096) then upa (mem s) pt (unat va div 4096) else 0) s"
proof -
  note v = va_page [OF refl, of va]
  have "PGROUNDDOWN va < MAXVA \<longleftrightarrow> unat va div 4096 < NVP"
    using v(1) by (simp add: word_less_nat_alt MAXVA_val)
  then show ?thesis
    by (simp add: walkaddr_eq [OF user_wfD(2) [OF assms]] v(3) upage_def upa_def)
qed

lemma upa_nonzero: "user_wf s pt ps \<Longrightarrow> upage (mem s) pt v \<Longrightarrow> upa (mem s) pt v \<noteq> 0"
  using user_wfD(3) [of s pt ps v] by (auto simp: ram_page_def)

lemma unat_upa_off:
  assumes "user_wf s pt ps" "upage (mem s) pt v" "unat off < 4096"
  shows "unat (upa (mem s) pt v + off) = unat (upa (mem s) pt v) + unat off"
  using ram_page_bound [OF user_wfD(3) [OF assms(1,2)]] assms(3) by (intro unat_add64) simp

section \<open>Reading\<close>

lemma page_split:
  assumes "a mod 4096 + i < (4096::nat)"
  shows "(a + i) div 4096 = a div 4096" "(a + i) mod 4096 = a mod 4096 + i"
proof -
  define q r where "q = a div 4096" and "r = a mod 4096"
  have a: "a = r + q * 4096" by (simp add: q_def r_def)
  have "r + i < 4096" using assms by (simp add: r_def)
  moreover have "r + q * 4096 + i = (r + i) + q * 4096" by simp
  ultimately have "(r + q * 4096 + i) div 4096 = q" "(r + q * 4096 + i) mod 4096 = r + i"
    by (simp_all only: div_mult_self1 mod_mult_self1 div_less mod_less)
  then show "(a + i) div 4096 = a div 4096" "(a + i) mod 4096 = a mod 4096 + i"
    unfolding q_def [symmetric] r_def [symmetric] unfolding a .
qed

lemma ubyte_rd:
  assumes "a mod 4096 + n \<le> 4096"
  shows "rd m (unat (upa m pt (a div 4096)) + a mod 4096) n = map (ubyte m pt) [a..<a + n]"
proof (rule nth_equalityI)
  fix i
  assume "i < length (rd m (unat (upa m pt (a div 4096)) + a mod 4096) n)"
  then have i: "i < n" by simp
  have "(a + i) div 4096 = a div 4096 \<and> (a + i) mod 4096 = a mod 4096 + i"
    using assms i by (intro conjI page_split) simp_all
  then show "rd m (unat (upa m pt (a div 4096)) + a mod 4096) n ! i = map (ubyte m pt) [a..<a + n] ! i"
    using i by (simp add: ubyte_def add.assoc)
qed simp


text \<open>The length of one turn of the copy loops.\<close>

definition chunk :: "nat \<Rightarrow> nat \<Rightarrow> nat" where
  "chunk a len = min (4096 - a mod 4096) len"

lemma next_page_eq: "a + (4096 - a mod 4096) = (a div 4096 + 1) * (4096::nat)"
proof -
  have "a mod 4096 \<le> a" "a mod 4096 \<le> 4096" by (simp_all add: less_imp_le)
  then have "a + (4096 - a mod 4096) = (a - a mod 4096) + 4096" by simp
  then show ?thesis by (simp add: minus_mod_eq_div_mult)
qed

lemma chunk_props:
  assumes "0 < len"
  shows "0 < chunk a len" "chunk a len \<le> len" "a mod 4096 + chunk a len \<le> 4096"
    "chunk a len < len \<Longrightarrow> a + chunk a len = (a div 4096 + 1) * 4096"
proof -
  have m: "a mod 4096 < 4096" by simp
  then show "0 < chunk a len" "chunk a len \<le> len" "a mod 4096 + chunk a len \<le> 4096"
    using assms by (simp_all add: chunk_def)
  assume "chunk a len < len"
  then have "chunk a len = 4096 - a mod 4096" by (simp add: chunk_def split: if_splits)
  then show "a + chunk a len = (a div 4096 + 1) * 4096" using next_page_eq [of a] by simp
qed

lemma unat_next_page:
  assumes "va0 = PGROUNDDOWN va" "unat va div 4096 < NVP"
  shows "unat (va0 + PGSIZE) = (unat va div 4096 + 1) * 4096"
  using page_va(3) [OF va_page(1) [OF assms(1)] assms(2)] .

text \<open>The state of the loop of \<^verbatim>\<open>copyin\<close> after \<open>k\<close> bytes.\<close>

definition copyin_at :: "bytes \<Rightarrow> u64 \<Rightarrow> nat \<Rightarrow> nat \<Rightarrow> nat \<Rightarrow> u8 list \<times> u64 \<times> nat \<Rightarrow> bool" where
  "copyin_at m pt src len k x \<longleftrightarrow> (case x of (dst, srcva, n) \<Rightarrow>
     k \<le> len \<and> n = len - k \<and> dst = map (ubyte m pt) [src..<src + k]
   \<and> (k < len \<longrightarrow> unat srcva = src + k)
   \<and> (\<forall>a. src \<le> a \<and> a < src + k \<longrightarrow> upage m pt (a div 4096)))"

lemma chunk_pages:
  assumes "a mod 4096 + n \<le> 4096" "a \<le> b" "b < a + n"
  shows "b div 4096 = (a::nat) div 4096"
  using page_split(1) [of a "b - a"] assms by simp

lemma copyin_wp:
  assumes wf: "user_wf s pt ps"
  shows "wp (copyin pt srcva len) (\<lambda>(r, dst) s'. s' = s \<and>
     (if \<forall>a. unat srcva \<le> a \<and> a < unat srcva + len \<longrightarrow> upage (mem s) pt (a div 4096)
      then r = 0 \<and> dst = map (ubyte (mem s) pt) [unat srcva..<unat srcva + len] else r = -1)) s"
proof -
  let ?src = "unat srcva" and ?m = "mem s"
  let ?I = "\<lambda>x s'. s' = s \<and> (\<exists>k. copyin_at ?m pt ?src len k x)"
  show ?thesis unfolding copyin_def
  proof (rule wp_loop [where I = ?I and V = "\<lambda>(dst, srcva, n). n"], goal_cases)
    case 1
    show ?case by (auto simp: copyin_at_def intro: exI [of _ 0])
  next
    case 2
    show ?case by simp
  next
    case (3 x s')
    obtain dst sv n where x: "x = (dst, sv, n)" by (cases x)
    obtain k where k: "copyin_at ?m pt ?src len k x" and s': "s' = s" using 3 by blast
    show ?case
    proof (cases "n = 0")
      case True
      then show ?thesis using k s' by (auto simp: x copyin_at_def)
    next
      case False
      then have kl: "k < len" "n = len - k" and sv: "unat sv = ?src + k"
        using k by (auto simp: x copyin_at_def)
      let ?a = "?src + k"
      note va = va_page [OF refl, of sv, unfolded sv]
      have "0 < n" using False by simp
      note ch = chunk_props [OF this, of ?a]
      show ?thesis
      proof (cases "upage ?m pt (?a div 4096)")
        case False
        then have "\<not> (\<forall>a. ?src \<le> a \<and> a < ?src + len \<longrightarrow> upage ?m pt (a div 4096))"
          using kl by (metis le_add1 nat_add_left_cancel_less)
        then show ?thesis using \<open>n \<noteq> 0\<close> False s' wf
          by (simp add: x Let_def wp_def km_simps walkaddr_user [OF wf, of sv] sv)
      next
        case True
        have pos: "unat (upa ?m pt (?a div 4096) + (sv - PGROUNDDOWN sv))
            = unat (upa ?m pt (?a div 4096)) + ?a mod 4096"
          using unat_upa_off [OF wf True] va(2) by simp
        have cn: "min (unat (PGSIZE - (sv - PGROUNDDOWN sv))) n = chunk ?a n"
          using va(4) by (simp add: chunk_def)
        have "copyin_at ?m pt ?src len (k + chunk ?a n)
            (dst @ rd ?m (unat (upa ?m pt (?a div 4096)) + ?a mod 4096) (chunk ?a n),
              PGROUNDDOWN sv + PGSIZE, n - chunk ?a n)"
        proof -
          have "map (ubyte ?m pt) [?src..<?src + k] @ map (ubyte ?m pt) [?a..<?a + chunk ?a n]
              = map (ubyte ?m pt) [?src..<?src + (k + chunk ?a n)]"
            using upt_add_eq_append [of ?src ?a "chunk ?a n"] by (simp add: add.assoc)
          moreover have "unat (PGROUNDDOWN sv + PGSIZE) = ?src + (k + chunk ?a n)"
            if "k + chunk ?a n < len"
          proof -
            have "chunk ?a n < n" using that kl by auto
            then show ?thesis
              using unat_next_page [OF refl, of sv] True ch(4) by (simp add: sv upage_def)
          qed
          moreover have "upage ?m pt (a div 4096)" if "?src \<le> a" "a < ?src + (k + chunk ?a n)" for a
            using that k True chunk_pages [OF ch(3), of a] False by (cases "a < ?a") (auto simp: x copyin_at_def)
          ultimately show ?thesis using k kl ch(2) False ubyte_rd [OF ch(3), of ?m pt]
            by (auto simp: copyin_at_def x)
        qed
        then show ?thesis using False True s' ch(1,2) upa_nonzero [OF wf True]
          by (auto simp: x Let_def wp_def km_simps walkaddr_user [OF wf, of sv] sv cn pos)
      qed
    qed
  qed
qed


section \<open>Writing\<close>

text \<open>\<open>s'\<close> is \<open>s\<close> after the first \<open>k\<close> bytes of \<open>src\<close> have been stored at the user address
  \<open>dst\<close>.\<close>

definition wrote :: "'z kmem_scheme \<Rightarrow> u64 \<Rightarrow> nat \<Rightarrow> u8 list \<Rightarrow> nat \<Rightarrow> 'z kmem_scheme \<Rightarrow> bool" where
  "wrote s pt dst src k s' \<longleftrightarrow> s' = s\<lparr>mem := mem s'\<rparr>
   \<and> (\<forall>y. upage (mem s) pt (y div 4096) \<longrightarrow>
        mem s' (unat (upa (mem s) pt (y div 4096)) + y mod 4096) =
          (if dst \<le> y \<and> y < dst + k then src ! (y - dst) else ubyte (mem s) pt y))
   \<and> (\<forall>p. page_aligned p \<and> (\<forall>v. upage (mem s) pt v \<longrightarrow> p \<noteq> upa (mem s) pt v) \<longrightarrow>
        same_page p (mem s) (mem s'))"

lemma wrote_0: "wrote s pt dst src 0 s"
  by (auto simp: wrote_def ubyte_def same_page_def)

lemma wrote_wf:
  assumes wf: "user_wf s pt ps" and w: "wrote s pt dst src k s'"
  shows "user_wf s' pt ps" "pte (mem s') pt v = pte (mem s) pt v"
    "upage (mem s') pt v = upage (mem s) pt v" "upa (mem s') pt v = upa (mem s) pt v"
proof -
  note inv = user_wfD(1) [OF wf]
  have no: "same_page p (mem s) (mem s')" if "p \<in> tables (mem s) pt \<union> set ps" for p
  proof -
    have "page_aligned p"
      using that vm_invD(2) [OF inv] vm_inv_pool(2) [OF inv] by (auto simp: pt_wf_def ram_page_def)
    moreover have "p \<noteq> upa (mem s) pt v" if "upage (mem s) pt v" for v
      using that \<open>p \<in> _\<close> wf by (auto simp: user_wf_def)
    ultimately show ?thesis using w unfolding wrote_def by blast
  qed
  have tb: "same_page p (mem s) (mem s')" if "p \<in> tables (mem s) pt" for p using no that by blast
  note ps = pte_same [OF tb]
  show p: "pte (mem s') pt v = pte (mem s) pt v" for v by (rule ps(1))
  show up: "upage (mem s') pt v = upage (mem s) pt v" "upa (mem s') pt v = upa (mem s) pt v" for v
    by (simp_all add: upage_def upa_def p)
  have ss: "syms s' = syms s" "freelist s' = freelist s"
    using w unfolding wrote_def by (metis kmem.select_convs kmem.surjective kmem.update_convs)+
  have "free_chain (mem s') (freelist s) ps = free_chain (mem s) (freelist s) ps"
    using no by (intro free_chain_cong) blast
  then have "kmem_inv s' ps" using vm_invD(1) [OF inv] by (simp add: kmem_inv_def ss)
  then have "vm_inv s' pt ps"
    using pt_wf_frame [OF vm_invD(2) [OF inv] tb] vm_invD(3) [OF inv] by (simp add: vm_inv_def ss ps(2))
  moreover have "upa (mem s') pt = upa (mem s) pt" "upage (mem s') pt = upage (mem s) pt"
    using up by auto
  ultimately show "user_wf s' pt ps" using wf by (simp add: user_wf_def ss ps(2))
qed


lemma mem_upd_same: "s1 = s\<lparr>mem := m\<rparr> \<Longrightarrow> s1\<lparr>mem := m'\<rparr> = s\<lparr>mem := m'\<rparr>"
  by simp

lemma wrote_more:
  assumes wf: "user_wf s pt ps" and w: "wrote s pt dst src k s1" and up: "upage (mem s) pt ((dst + k) div 4096)"
    and n: "(dst + k) mod 4096 + n \<le> 4096" "k + n \<le> length src"
  shows "wrote s pt dst src (k + n)
    (s1\<lparr>mem := wr (mem s1) (unat (upa (mem s) pt ((dst + k) div 4096)) + (dst + k) mod 4096)
      (take n (drop k src))\<rparr>)"
proof -
  let ?a = "dst + k"
  let ?p = "upa (mem s) pt (?a div 4096)"
  let ?m = "wr (mem s1) (unat ?p + ?a mod 4096) (take n (drop k src))"
  have len: "length (take n (drop k src)) = n" using n(2) by simp
  have al: "page_aligned ?p" using user_wfD(3) [OF wf up] by (simp add: ram_page_def)
  have out: "?m x = mem s1 x" if "x < unat ?p \<or> unat ?p + 4096 \<le> x" for x
    using that n(1) len by (intro wr_outside) auto
  have other: "same_page p (mem s1) ?m" if "page_aligned p" "p \<noteq> ?p" for p
    unfolding same_page_def using pages_disjoint [OF that(1) al that(2)] by (auto intro!: out)
  have "?m (unat (upa (mem s) pt (y div 4096)) + y mod 4096) =
      (if dst \<le> y \<and> y < dst + (k + n) then src ! (y - dst) else ubyte (mem s) pt y)"
    if uy: "upage (mem s) pt (y div 4096)" for y
  proof (cases "?a \<le> y \<and> y < ?a + n")
    case True
    then obtain j where y: "y = ?a + j" "j < n" by (metis le_Suc_ex nat_add_left_cancel_less)
    have lt: "?a mod 4096 + j < 4096" using y(2) n(1) by simp
    note sp = page_split [OF lt, folded y(1)]
    have "?m (unat ?p + (?a mod 4096 + j)) = take n (drop k src) ! j"
      using wr_inside [of "unat ?p + ?a mod 4096" "unat ?p + (?a mod 4096 + j)"] len y(2) by simp
    then show ?thesis unfolding sp using y n(2) by (simp add: add.assoc)
  next
    case False
    have "?m (unat (upa (mem s) pt (y div 4096)) + y mod 4096)
        = mem s1 (unat (upa (mem s) pt (y div 4096)) + y mod 4096)"
    proof (cases "y div 4096 = ?a div 4096")
      case True
      have e: "y = ?a div 4096 * 4096 + y mod 4096" "?a = ?a div 4096 * 4096 + ?a mod 4096"
        by (simp flip: True, simp)
      have "y mod 4096 < ?a mod 4096 \<or> ?a mod 4096 + n \<le> y mod 4096"
        using False e by linarith
      then show ?thesis using True len by (intro wr_outside) auto
    next
      case neq: False
      then have "upa (mem s) pt (y div 4096) \<noteq> ?p" using user_wfD(5) [OF wf uy up] by blast
      moreover have "page_aligned (upa (mem s) pt (y div 4096))"
        using user_wfD(3) [OF wf uy] by (simp add: ram_page_def)
      ultimately show ?thesis using other by (simp add: same_page_def)
    qed
    moreover have "(dst \<le> y \<and> y < dst + (k + n)) = (dst \<le> y \<and> y < dst + k)" using False by auto
    ultimately show ?thesis using w uy by (simp add: wrote_def)
  qed
  moreover have "same_page p (mem s) ?m"
    if "page_aligned p" "\<forall>v. upage (mem s) pt v \<longrightarrow> p \<noteq> upa (mem s) pt v" for p
    using that w up by (intro same_page_trans [OF _ other]) (auto simp: wrote_def)
  moreover have "s1\<lparr>mem := ?m\<rparr> = s\<lparr>mem := ?m\<rparr>"
  proof -
    have "s1 = s\<lparr>mem := mem s1\<rparr>" using w by (simp add: wrote_def)
    then show ?thesis by (rule mem_upd_same)
  qed
  ultimately show ?thesis unfolding wrote_def by simp
qed


definition copyout_at ::
  "'z kmem_scheme \<Rightarrow> u64 \<Rightarrow> nat \<Rightarrow> u8 list \<Rightarrow> nat \<Rightarrow> u64 \<times> u8 list \<Rightarrow> 'z kmem_scheme \<Rightarrow> bool" where
  "copyout_at s pt dst src k x s' \<longleftrightarrow> k \<le> length src \<and> snd x = drop k src
   \<and> (k < length src \<longrightarrow> unat (fst x) = dst + k)
   \<and> (\<forall>a. dst \<le> a \<and> a < dst + k \<longrightarrow> upage (mem s) pt (a div 4096)) \<and> wrote s pt dst src k s'"

lemma copyout_step:
  assumes wf: "user_wf s pt ps" and I: "copyout_at s pt dst src k (dv, rest) s1" and r: "rest \<noteq> []"
    and up: "upage (mem s) pt ((dst + k) div 4096)"
  defines "n \<equiv> chunk (dst + k) (length rest)"
  shows "copyout_at s pt dst src (k + n) (PGROUNDDOWN dv + PGSIZE, drop n rest)
      (s1\<lparr>mem := wr (mem s1) (unat (upa (mem s) pt ((dst + k) div 4096)) + (dst + k) mod 4096)
        (take n rest)\<rparr>)"
    "0 < n" "n \<le> length rest"
proof -
  have k: "k < length src" "rest = drop k src" "unat dv = dst + k" "wrote s pt dst src k s1"
    using I r by (auto simp: copyout_at_def)
  have "0 < length rest" using r by simp
  note ch = chunk_props [OF this, of "dst + k", folded n_def]
  show "0 < n" "n \<le> length rest" by (rule ch(1), rule ch(2))
  have "upage (mem s) pt (a div 4096)" if "dst \<le> a" "a < dst + (k + n)" for a
    using that I up chunk_pages [OF ch(3), of a] by (cases "a < dst + k") (auto simp: copyout_at_def)
  moreover have "unat (PGROUNDDOWN dv + PGSIZE) = dst + (k + n)" if "k + n < length src"
  proof -
    have "n < length rest" using that k(2) by simp
    then show ?thesis using unat_next_page [OF refl, of dv] up ch(4) k(3) by (simp add: upage_def)
  qed
  ultimately show "copyout_at s pt dst src (k + n) (PGROUNDDOWN dv + PGSIZE, drop n rest)
      (s1\<lparr>mem := wr (mem s1) (unat (upa (mem s) pt ((dst + k) div 4096)) + (dst + k) mod 4096)
        (take n rest)\<rparr>)"
    using wrote_more [OF wf k(4) up ch(3)] ch(2) k(1,2) by (simp add: copyout_at_def add.commute)
qed

lemma copyout_wp:
  assumes wf: "user_wf s pt ps"
  shows "wp (copyout pt dstva src) (\<lambda>r s'. user_wf s' pt ps \<and>
     (if \<forall>a. unat dstva \<le> a \<and> a < unat dstva + length src \<longrightarrow> upage (mem s) pt (a div 4096)
      then r = 0 \<and> wrote s pt (unat dstva) src (length src) s'
      else r = -1 \<and> (\<exists>k \<le> length src. wrote s pt (unat dstva) src k s'))) s"
proof -
  let ?dst = "unat dstva" and ?m = "mem s"
  let ?I = "\<lambda>x s'. \<exists>k. copyout_at s pt ?dst src k x s'"
  show ?thesis unfolding copyout_def
  proof (rule wp_loop [where I = ?I and V = "\<lambda>x. length (snd x)"], goal_cases)
    case 1
    show ?case by (auto simp: copyout_at_def wrote_0 intro: exI [of _ 0])
  next
    case 2
    show ?case by simp
  next
    case (3 x s1)
    obtain dv rest k where x: "x = (dv, rest)" and I: "copyout_at s pt ?dst src k (dv, rest) s1"
      using 3 by (cases x) auto
    have w: "wrote s pt ?dst src k s1" using I by (simp add: copyout_at_def)
    note wf1 = wrote_wf [OF wf w]
    show ?case
    proof (cases "rest = []")
      case True
      then show ?thesis using I wf1(1) by (auto simp: x copyout_at_def)
    next
      case False
      then have k: "k < length src" "rest = drop k src" "unat dv = ?dst + k"
        using I by (auto simp: copyout_at_def)
      note va = va_page [OF refl, of dv, unfolded k(3)]
      note wa = walkaddr_user [OF wf1(1), of dv, unfolded k(3) wf1]
      show ?thesis
      proof (cases "upage ?m pt ((?dst + k) div 4096)")
        case no: False
        then have "\<not> (\<forall>a. ?dst \<le> a \<and> a < ?dst + length src \<longrightarrow> upage ?m pt (a div 4096))"
          using k(1) by (metis le_add1 nat_add_left_cancel_less)
        moreover have "\<exists>k \<le> length src. wrote s pt ?dst src k s1" using w k(1) less_imp_le by blast
        ultimately show ?thesis using False no wf1(1) wa
          by (auto simp: x Let_def wp_def km_simps)
      next
        case True
        have pos: "unat (upa ?m pt ((?dst + k) div 4096) + (dv - PGROUNDDOWN dv))
            = unat (upa ?m pt ((?dst + k) div 4096)) + (?dst + k) mod 4096"
          using unat_upa_off [OF wf True] va(2) by simp
        have cn: "min (unat (PGSIZE - (dv - PGROUNDDOWN dv))) (length rest) = chunk (?dst + k) (length rest)"
          using va(4) by (simp add: chunk_def)
        show ?thesis using copyout_step [OF wf I False True] False True wa upa_nonzero [OF wf True]
          by (auto simp: x Let_def wp_def km_simps cn pos)
      qed
    qed
  qed
qed


section \<open>A concrete address space\<close>

text \<open>An empty table, and one whose page 0 is mapped.\<close>

lemma zero_table:
  assumes "ram_page y pt" "zero_page m pt"
  shows "pt_wf y m pt" "tables m pt = {pt}" "pte m pt v = 0"
proof -
  have c: "child m pt i = None" if "i < 512" for i
    using zero_page_entry [OF assms(2) that] by (simp add: child_def)
  have n: "node m pt q = Some p \<longleftrightarrow> q = [] \<and> p = pt" if "okpath q" for q p
    using that c by (cases q) (auto simp: okpath_def)
  show "tables m pt = {pt}" unfolding tables_def using n okpath_Nil by blast
  show "pt_wf y m pt"
  proof (rule pt_wfI)
    show "ram_page y p" if "okpath q" "node m pt q = Some p" for q p
      using n [OF that(1), of p] that(2) assms(1) by simp
    show "q = q'" if "okpath q" "okpath q'" "node m pt q = Some p" "node m pt q' = Some p" for q q' p
      using n [OF that(1), of p] n [OF that(2), of p] that(3,4) by simp
    show "entry m p i = PA2PTE d OR PTE_V"
      if "okpath (q @ [i])" "node m pt q = Some p" "child m p i = Some d" for q i p d
      using that n [of q p] c [of i] okpath_snocD [OF that(1)] by auto
  qed
  show "pte m pt v = 0"
    using n [OF okpath_path, of v] by (auto simp: pte_def path_def split: option.splits)
qed

definition demo_mem :: bytes where
  "demo_mem = store64 (store64 (store64 (\<lambda>_. 0)
      0x80023000 (PA2PTE 0x80024000 OR PTE_V))
      0x80024000 (PA2PTE 0x80025000 OR PTE_V))
      0x80025000 (PA2PTE 0x80026000 OR uperm PTE_W OR PTE_V)"

definition demo_user :: kmem where
  "demo_user = \<lparr>mach = boot_machine, syms = boot_syms, mem = demo_mem, freelist = 0\<rparr>"

lemma demo_ram:
  "ram_page boot_syms 0x80023000" "ram_page boot_syms 0x80024000" "ram_page boot_syms 0x80025000"
  "ram_page boot_syms 0x80026000"
  by (simp_all add: ram_page_def boot_syms_def page_aligned_def PHYSTOP_val)

lemma zero_page_far:
  "zero_page m p \<Longrightarrow> unat p + 4096 \<le> a \<or> a + 8 \<le> unat p \<Longrightarrow> zero_page (store64 m a e) p"
  by (auto simp: zero_page_def store64_outside)

lemma linked_demo:
  assumes wf: "pt_wf boot_syms m pt" and n: "node m pt q = Some p" and ok: "okpath (q @ [0])"
    and z: "zero_page m p" "zero_page m c" and c: "c \<notin> tables m pt" "ram_page boot_syms c"
  shows "linked m pt q p 0 c (store64 m (unat p) (PA2PTE c OR PTE_V))"
proof -
  let ?m' = "store64 m (unat p) (PA2PTE c OR PTE_V)"
  have q: "okpath q" using okpath_snocD [OF ok] by simp
  have al: "page_aligned r" if "r \<in> tables m pt" for r
    using that wf by (auto simp: pt_wf_def ram_page_def)
  have pt: "p \<in> tables m pt" by (rule tablesI [OF q n])
  have "c \<noteq> p" using c(1) pt by auto
  then have "zero_page ?m' c"
    using z(2) pages_disjoint [OF _ al [OF pt], of c] c(2)
    by (intro zero_page_far) (auto simp: ram_page_def)
  moreover have "entry ?m' r j = entry m r j" if "r \<in> tables m pt" "j < 512" "(r, j) \<noteq> (p, 0)" for r j
  proof (cases "r = p")
    case True
    then show ?thesis using that entry_store [of m p 0] by simp
  next
    case False
    then show ?thesis using entry_cong [OF store_entry_other_page [OF al [OF that(1)] al [OF pt] False, of 0] that(2)]
      by simp
  qed
  ultimately show ?thesis
    using n ok c z(1) zero_page_entry [of m p 0] entry_store [of m p 0 _ 0] PTE2PA_link [OF c(2)]
    by (simp add: linked_def child_def)
qed


lemma demo_pt:
  shows "pt_wf boot_syms demo_mem 0x80023000"
    "tables demo_mem 0x80023000 = {0x80025000, 0x80024000, 0x80023000}"
    "v < NVP \<Longrightarrow> pte demo_mem 0x80023000 v = (if v = 0 then PA2PTE 0x80026000 OR uperm PTE_W OR PTE_V else 0)"
proof -
  let ?pt = "0x80023000 :: u64" and ?a = "0x80024000 :: u64" and ?b = "0x80025000 :: u64"
  define m0 :: bytes where "m0 = (\<lambda>_. 0)"
  define m1 where "m1 = store64 m0 (unat ?pt) (PA2PTE ?a OR PTE_V)"
  define m2 where "m2 = store64 m1 (unat ?a) (PA2PTE ?b OR PTE_V)"
  have z0: "zero_page m0 p" for p by (simp add: zero_page_def m0_def)
  note t0 = zero_table [OF demo_ram(1) z0]
  have "linked m0 ?pt [] ?pt 0 ?a m1" unfolding m1_def
    by (rule linked_demo [OF t0(1)]) (simp_all add: z0 t0(2) demo_ram okpath_def)
  note l1 = linked_effects [OF t0(1) this demo_ram(2)]
  have z1: "zero_page m1 ?a" "zero_page m1 ?b"
    unfolding m1_def by (rule zero_page_far [OF z0], simp)+
  have "linked m1 ?pt [0] ?a 0 ?b m2" unfolding m2_def
    by (rule linked_demo [OF l1(3)])
      (use l1(1) z1 in \<open>simp_all add: l1(2) t0(2) demo_ram okpath_def\<close>)
  note l2 = linked_effects [OF l1(3) this demo_ram(3)]
  have n2: "node m2 ?pt (path 0) = Some ?b" using l2(1) by (simp add: path_def)
  have e: "demo_mem = store64 m2 (unat ?b + 8 * idx 0) (PA2PTE 0x80026000 OR uperm PTE_W OR PTE_V)"
    by (simp add: demo_mem_def m2_def m1_def m0_def idx_def)
  note lw = leaf_write [OF l2(3) n2, where e = "PA2PTE 0x80026000 OR uperm PTE_W OR PTE_V", folded e]
  show "pt_wf boot_syms demo_mem ?pt" using lw(3) by simp
  show "tables demo_mem ?pt = {0x80025000, 0x80024000, 0x80023000}"
    using lw(2) l2(2) l1(2) t0(2) by auto
  show "v < NVP \<Longrightarrow> pte demo_mem ?pt v = (if v = 0 then PA2PTE 0x80026000 OR uperm PTE_W OR PTE_V else 0)"
    using lw(4) l2(4) l1(4) t0(3) by simp
qed

lemma demo_user_wf:
  "user_wf demo_user 0x80023000 []" "upage (mem demo_user) 0x80023000 0"
proof -
  let ?e = "PA2PTE 0x80026000 OR uperm PTE_W OR PTE_V"
  have u: "?e AND PTE_U \<noteq> 0" "PTE2PA ?e = 0x80026000"
    by (simp_all add: PTE_bits PA2PTE_def PTE2PA_def)
  have up: "upage demo_mem 0x80023000 v \<longleftrightarrow> v = 0" for v
    using demo_pt(3) [of v] u(1) by (auto simp: upage_def split: if_splits)
  then show "upage (mem demo_user) 0x80023000 0" by (simp add: demo_user_def)
  have "upa demo_mem 0x80023000 0 = 0x80026000"
    using demo_pt(3) [of 0] u(2) by (simp add: upa_def)
  then show "user_wf demo_user 0x80023000 []"
    using demo_pt(1,2) demo_ram(4) up
    by (auto simp: user_wf_def vm_inv_def demo_user_def kmem_inv_def)
qed

section \<open>Properties\<close>

text \<open>C3: when every page of the range is mapped for the user, \<^verbatim>\<open>copyout\<close> succeeds, a
  \<^verbatim>\<open>copyin\<close> of the same range then returns the bytes that were written, and every other byte the
  user can address keeps its value.\<close>

theorem copyout_copyin:
  assumes "user_wf s pt ps"
    and "\<forall>a. unat va \<le> a \<and> a < unat va + length src \<longrightarrow> upage (mem s) pt (a div 4096)"
  shows "\<exists>s'. copyout pt va src s = Ret 0 s' \<and> copyin pt va (length src) s' = Ret (0, src) s'
    \<and> (\<forall>y. upage (mem s) pt (y div 4096) \<and> \<not> (unat va \<le> y \<and> y < unat va + length src) \<longrightarrow>
         upage (mem s') pt (y div 4096) \<and> ubyte (mem s') pt y = ubyte (mem s) pt y)"
proof -
  from copyout_wp [OF assms(1), of va src] assms(2) obtain s'
    where s': "copyout pt va src s = Ret 0 s'" "user_wf s' pt ps"
      "wrote s pt (unat va) src (length src) s'" by (auto elim!: wpE split: if_splits)
  note w = wrote_wf [OF assms(1) s'(3)]
  have b: "ubyte (mem s') pt y = (if unat va \<le> y \<and> y < unat va + length src then src ! (y - unat va)
      else ubyte (mem s) pt y)" if "upage (mem s) pt (y div 4096)" for y
    using s'(3) that by (simp add: wrote_def w ubyte_def)
  have "map (ubyte (mem s') pt) [unat va..<unat va + length src] = src"
    using assms(2) b by (intro nth_equalityI) auto
  moreover from copyin_wp [OF s'(2), of va "length src"] assms(2)
  have "copyin pt va (length src) s' = Ret (0, map (ubyte (mem s') pt) [unat va..<unat va + length src]) s'"
    by (auto elim!: wpE simp: w split: if_splits)
  ultimately show ?thesis using s'(1) b w(3) by auto
qed

theorem copyout_copyin_witness:
  "\<exists>s'. copyout 0x80023000 8 [1, 2, 3] demo_user = Ret 0 s'
    \<and> copyin 0x80023000 8 3 s' = Ret (0, [1, 2, 3]) s'"
proof -
  have "upage (mem demo_user) 0x80023000 (a div 4096)" if "8 \<le> a" "a < 8 + 3" for a :: nat
    using that demo_user_wf(2) by simp
  then show ?thesis
    using copyout_copyin [OF demo_user_wf(1), of 8 "[1, 2, 3]"] by (auto simp: numeral_3_eq_3)
qed

text \<open>C28: if some page of the range is not mapped for the user (or lies beyond the top
  of the address space), both copies return -1; \<^verbatim>\<open>copyin\<close> changes nothing, and \<^verbatim>\<open>copyout\<close> has
  stored a prefix of its buffer and changed no other byte of memory.\<close>

theorem copy_rejects_unmapped:
  assumes "user_wf s pt ps"
    and "unat va \<le> a" "a < unat va + length src" "\<not> upage (mem s) pt (a div 4096)"
  shows "(\<exists>s' k. copyout pt va src s = Ret (-1) s' \<and> k \<le> length src \<and> wrote s pt (unat va) src k s')
    \<and> (\<exists>bs. copyin pt va (length src) s = Ret (-1, bs) s)"
proof -
  have n: "\<not> (\<forall>a. unat va \<le> a \<and> a < unat va + length src \<longrightarrow> upage (mem s) pt (a div 4096))"
    using assms(2-4) by blast
  show ?thesis
    using copyout_wp [OF assms(1), of va src] copyin_wp [OF assms(1), of va "length src"]
    unfolding if_not_P [OF n] by (auto elim!: wpE)
qed

theorem copy_rejects_unmapped_witness:
  "(\<exists>s' k. copyout 0x80023000 4095 [1, 2] demo_user = Ret (-1) s' \<and> k \<le> 2
      \<and> wrote demo_user 0x80023000 4095 [1, 2] k s')
   \<and> (\<exists>bs. copyin 0x80023000 4095 2 demo_user = Ret (-1, bs) demo_user)"
proof -
  have "\<not> upage (mem demo_user) 0x80023000 (4096 div 4096)"
    using demo_pt(3) [of 1] by (simp add: upage_def demo_user_def)
  then show ?thesis
    using copy_rejects_unmapped [OF demo_user_wf(1), of 4095 4096 "[1, 2]"] by (simp flip: numeral_2_eq_2)
qed

end
