(* ===== verification/Vm_props.thy ===== *)
theory Vm_props
  imports Usercopy
begin

text \<open>
  The properties of the routines that change page tables, stated over the entries they leave.
\<close>

text \<open>C13: on a range of unmapped pages below \<^verbatim>\<open>MAXVA\<close>, \<^verbatim>\<open>mappages\<close> returns. It
  returns 0 when every page of the range is mapped to consecutive physical pages with the
  given permissions; or -1, when the allocator is out of pages, and then a strict prefix of the
  range is mapped. No other entry changes, the table stays well formed, and pages only move from
  the free list to the table.\<close>

theorem mappages_maps:
  assumes "vm_inv s pt ps" "kmem_ready s" "sz \<noteq> 0" "unat va + unat sz \<le> unat MAXVA"
    and "\<forall>v. vpn va \<le> v \<and> v \<le> vpn (va + sz - 1) \<longrightarrow> \<not> valid (pte (mem s) pt v)"
  shows "\<exists>r s' k ps'. mappages pt va sz pa perm s = Ret r s' \<and> vm_step pt s ps s' ps'
      \<and> (r = 0 \<and> k = vpn (va + sz - 1) - vpn va + 1
         \<or> r = -1 \<and> k \<le> vpn (va + sz - 1) - vpn va \<and> ps' = [])
      \<and> (\<forall>v < NVP. pte (mem s') pt v =
          (if vpn va \<le> v \<and> v < vpn va + k
           then PA2PTE (pa + of_nat (v - vpn va) * PGSIZE) OR perm OR PTE_V
           else pte (mem s) pt v))"
proof -
  let ?Q = "\<lambda>r s'. \<exists>k ps'. vm_step pt s ps s' ps' \<and> mapped (mem s) pt (vpn va) k pa perm (mem s')
      \<and> (r = 0 \<and> k = vpn (va + sz - 1) - vpn va + 1
         \<or> r = (-1::int) \<and> k \<le> vpn (va + sz - 1) - vpn va \<and> ps' = [])"
  have "wp (mappages pt va sz pa perm) ?Q s"
    by (rule wp_mappages [OF assms(1-4)]) (use assms(5) in blast)
  then obtain r s' where "mappages pt va sz pa perm s = Ret r s'" "?Q r s'" by (rule wpE)
  then show ?thesis unfolding mapped_def by blast
qed

lemma demo_ready: "kmem_ready demo_user"
  by (simp add: kmem_ready_def demo_user_def held_def boot_machine_def sane_def mycpu_def cpuid_def)

theorem mappages_maps_witness:
  "\<exists>r s' (k::nat) ps'. mappages 0x80023000 0x1000 0x2000 0x80030000 PTE_R demo_user = Ret r s'
      \<and> vm_step 0x80023000 demo_user [] s' ps'
      \<and> (r = 0 \<and> k = 2 \<or> r = -1 \<and> k \<le> 1 \<and> ps' = [])
      \<and> pte (mem s') 0x80023000 0 = pte (mem demo_user) 0x80023000 0"
proof -
  have v: "vpn 0x1000 = 1" "vpn (0x1000 + 0x2000 - 1) = 2" by (simp_all add: vpn_def)
  have "\<not> valid (pte (mem demo_user) 0x80023000 w)" if "1 \<le> w \<and> w \<le> 2" for w
    using that demo_pt(3) [of w] by (simp add: demo_user_def)
  then obtain r s' k ps' where
    "mappages 0x80023000 0x1000 0x2000 0x80030000 PTE_R demo_user = Ret r s'"
    "vm_step 0x80023000 demo_user [] s' ps'"
    and k: "r = 0 \<and> k = 2 - 1 + 1 \<or> r = -1 \<and> k \<le> 2 - 1 \<and> ps' = []"
    and e: "\<forall>v < NVP. pte (mem s') 0x80023000 v = (if 1 \<le> v \<and> v < 1 + k
      then PA2PTE (0x80030000 + of_nat (v - 1) * PGSIZE) OR PTE_R OR PTE_V
      else pte (mem demo_user) 0x80023000 v)"
    using mappages_maps [OF user_wfD(1) [OF demo_user_wf(1)] demo_ready, of "0x2000" "0x1000" "0x80030000" PTE_R]
    unfolding v by (auto simp: MAXVA_val)
  moreover have "pte (mem s') 0x80023000 0 = pte (mem demo_user) 0x80023000 0" using e by simp
  moreover have "r = 0 \<and> k = 2 \<or> r = -1 \<and> k \<le> 1 \<and> ps' = []" using k by auto
  ultimately show ?thesis
    by (intro exI [of _ r] exI [of _ s'] exI [of _ k] exI [of _ ps'] conjI) assumption+
qed

text \<open>C17: unmapping \<open>n\<close> mapped leaf pages from \<open>v0\<close> on clears exactly their entries;
  with \<^verbatim>\<open>do_free\<close> their physical pages, and nothing else, join the free list.\<close>

theorem uvmunmap_clears:
  assumes "vm_inv s pt ps" "kmem_ready s" "unat va = v0 * 4096" "unat npages = n"
    and "can_unmap s pt ps v0 n do_free"
  shows "\<exists>s'. uvmunmap pt va npages do_free s = Ret () s'
     \<and> vm_inv s' pt (if do_free then rev (data_pages (mem s) pt v0 n) @ ps else ps)
     \<and> tables (mem s') pt = tables (mem s) pt
     \<and> (\<forall>v < NVP. pte (mem s') pt v = (if v0 \<le> v \<and> v < v0 + n then 0 else pte (mem s) pt v))"
  using wp_uvmunmap [OF assms]
  by (auto elim!: wpE simp: unmapped_def vm_drop_def freed_pool_def)

theorem uvmunmap_clears_witness:
  "\<exists>s'. uvmunmap 0x80023000 0 1 True demo_user = Ret () s' \<and> vm_inv s' 0x80023000 [0x80026000]
     \<and> pte (mem s') 0x80023000 0 = 0"
proof -
  let ?e = "PA2PTE 0x80026000 OR uperm PTE_W OR PTE_V"
  have pa: "PTE2PA ?e = 0x80026000" "PTE_FLAGS ?e \<noteq> PTE_V"
    by (simp_all add: PTE_bits PA2PTE_def PTE2PA_def PTE_FLAGS_def)
  have e: "pte (mem demo_user) 0x80023000 0 = ?e" using demo_pt(3) [of 0] by (simp add: demo_user_def)
  have d: "data_pages (mem demo_user) 0x80023000 0 1 = [0x80026000]"
    by (simp add: data_pages_def e pa)
  have "can_unmap demo_user 0x80023000 [] 0 1 True"
    unfolding can_unmap_def d using demo_pt(2) demo_ram(4) e pa(2) by (auto simp: demo_user_def)
  then show ?thesis
    using uvmunmap_clears [OF user_wfD(1) [OF demo_user_wf(1)] demo_ready, of 0 0 1 1 True] d by auto
qed

text \<open>C9: growing a process from \<open>oldsz\<close> to \<open>newsz\<close> over unmapped pages is all or
  nothing. Either the result is \<open>newsz\<close> and every new page is mapped, user-accessible, to a page of
  its own that is zero and was free; or the result is 0, no new page is mapped, and the free
  pages and table pages together are what they were.\<close>

theorem uvmalloc_all_or_nothing:
  assumes "vm_inv s pt ps" "kmem_ready s" "xperm AND NOT 0x3FF = 0" "oldsz \<le> newsz" "newsz \<le> MAXVA"
    and "v0 = (unat oldsz + 4095) div 4096" "v1 = (unat newsz + 4095) div 4096"
    and "\<forall>v. v0 \<le> v \<and> v < v1 \<longrightarrow> \<not> valid (pte (mem s) pt v)"
  shows "\<exists>r s' ps'. uvmalloc pt oldsz newsz xperm s = Ret r s' \<and> vm_inv s' pt ps'
    \<and> (r = newsz \<and> (\<exists>f. inj_on f {v0..<v1} \<and> (\<forall>v \<in> {v0..<v1}. f v \<in> set ps \<and> zero_page (mem s') (f v)
            \<and> f v \<notin> set ps' \<and> f v \<notin> tables (mem s') pt
            \<and> pte (mem s') pt v = PA2PTE (f v) OR uperm xperm OR PTE_V))
       \<or> r = 0 \<and> (\<forall>v \<in> {v0..<v1}. \<not> valid (pte (mem s') pt v))
          \<and> tables (mem s') pt \<union> set ps' = tables (mem s) pt \<union> set ps)
    \<and> (\<forall>v < NVP. v \<notin> {v0..<v1} \<longrightarrow> pte (mem s') pt v = pte (mem s) pt v)"
proof -
  have "v0 \<le> v1" unfolding assms(6,7) using assms(4)
    by (intro div_le_mono) (simp add: word_le_nat_alt)
  then have n: "v0 + (v1 - v0) = v1" by simp
  have "unat newsz \<le> 0x4000000000" using assms(5) by (simp add: word_le_nat_alt MAXVA_val)
  then have "(unat newsz + 4095) div 4096 \<le> (0x4000000000 + 4095) div 4096" by (intro div_le_mono) simp
  then have v1: "v1 \<le> NVP" by (simp add: assms(7))
  have "wp (uvmalloc pt oldsz newsz xperm) (alloc_result pt v0 (v1 - v0) (uperm xperm) s ps newsz) s"
    by (rule wp_uvmalloc [OF assms(1-6)]) (use assms(7,8) n in auto)
  then obtain r s' where run: "uvmalloc pt oldsz newsz xperm s = Ret r s'"
    and res: "alloc_result pt v0 (v1 - v0) (uperm xperm) s ps newsz r s'" by (rule wpE)
  show ?thesis
  proof (cases "\<exists>ps' f. alloc_inv pt v0 (v1 - v0) (uperm xperm) s ps (v1 - v0) s' ps' f \<and> r = newsz")
    case True
    then obtain ps' f where I: "alloc_inv pt v0 (v1 - v0) (uperm xperm) s ps (v1 - v0) s' ps' f" "r = newsz"
      by blast
    have "f v \<in> set ps" if "v \<in> {v0..<v1}" for v
    proof -
      have "f v \<in> tables (mem s) pt \<union> set ps" "f v \<notin> tables (mem s') pt" "tables (mem s) pt \<subseteq> tables (mem s') pt"
        using I(1) that unfolding alloc_inv_def vm_ext_def n by blast+
      then show ?thesis by blast
    qed
    moreover have "f v \<notin> set ps' \<and> f v \<notin> tables (mem s') pt" if "v \<in> {v0..<v1}" for v
      using I(1) that unfolding alloc_inv_def vm_ext_def n by blast
    ultimately show ?thesis using run I v1
      by (intro exI [of _ r] exI [of _ s'] exI [of _ ps'])
        (auto simp: alloc_inv_def vm_ext_def filled_def n intro!: exI [of _ f])
  next
    case False
    then obtain k ps' where "r = 0" "k \<le> v1 - v0" "vm_ext pt s ps s' ps' {}" "unmapped (mem s) pt v0 k (mem s')"
      using res by (auto simp: alloc_result_def)
    then show ?thesis using run v1 assms(8)
      by (intro exI [of _ r] exI [of _ s'] exI [of _ ps']) (auto simp: vm_ext_def unmapped_def)
  qed
qed

theorem uvmalloc_all_or_nothing_witness:
  "\<exists>r s' ps'. uvmalloc 0x80023000 0x1000 0x3000 PTE_W demo_user = Ret r s' \<and> vm_inv s' 0x80023000 ps'
    \<and> pte (mem s') 0x80023000 0 = pte (mem demo_user) 0x80023000 0"
proof -
  have "\<not> valid (pte (mem demo_user) 0x80023000 v)" if "1 \<le> v \<and> v < 3" for v
    using that demo_pt(3) [of v] by (simp add: demo_user_def)
  then show ?thesis
    using uvmalloc_all_or_nothing [OF user_wfD(1) [OF demo_user_wf(1)] demo_ready, of PTE_W "0x1000" "0x3000" 1 3]
    by (fastforce simp: PTE_bits MAXVA_val)
qed

end
