(* ===== verification/Uart.thy ===== *)
theory Uart
  imports Proc
begin

text \<open>
  uart.c: the driver of the serial port, without the interrupt handler. The device is not part of
  the program: every access to a register is an event, and what a read returns is a function
  \<open>udev\<close> of the events before it and the register. The transmit buffer is a ring.
\<close>

definition UART_TX_BUF_SIZE :: nat where "UART_TX_BUF_SIZE = 32"

abbreviation (input) RHR :: nat where "RHR \<equiv> 0"
abbreviation (input) THR :: nat where "THR \<equiv> 0"
abbreviation (input) IER :: nat where "IER \<equiv> 1"
abbreviation (input) FCR :: nat where "FCR \<equiv> 2"
abbreviation (input) LCR :: nat where "LCR \<equiv> 3"
abbreviation (input) LSR :: nat where "LSR \<equiv> 5"

definition IER_RX_ENABLE :: u8 where "IER_RX_ENABLE = 1"
definition IER_TX_ENABLE :: u8 where "IER_TX_ENABLE = 2"
definition FCR_FIFO_ENABLE :: u8 where "FCR_FIFO_ENABLE = 1"
definition FCR_FIFO_CLEAR :: u8 where "FCR_FIFO_CLEAR = push_bit 1 3"
definition LCR_EIGHT_BITS :: u8 where "LCR_EIGHT_BITS = 3"
definition LCR_BAUD_LATCH :: u8 where "LCR_BAUD_LATCH = push_bit 7 1"
definition LSR_RX_READY :: u8 where "LSR_RX_READY = 1"
definition LSR_TX_IDLE :: u8 where "LSR_TX_IDLE = push_bit 5 1"

datatype uevent = UWrite nat u8 | URead nat

record uarts = procs +
  uart_tx_buf :: "nat \<Rightarrow> u8"
  uart_tx_w :: u64
  uart_tx_r :: u64
  utrace :: "uevent list"
  udev :: "uevent list \<Rightarrow> nat \<Rightarrow> u8"
  panicked :: bool
  pr_locking :: bool

definition ReadReg :: "nat \<Rightarrow> (u8, 'z uarts_scheme) km" where
  "ReadReg r =
     bind (gets (\<lambda>s. udev s (utrace s) r)) (\<lambda>v.
     seq (modify (\<lambda>s. s\<lparr>utrace := utrace s @ [URead r]\<rparr>)) (ret v))"

definition WriteReg :: "nat \<Rightarrow> u8 \<Rightarrow> (unit, 'z uarts_scheme) km" where
  "WriteReg r v = modify (\<lambda>s. s\<lparr>utrace := utrace s @ [UWrite r v]\<rparr>)"

definition uartinit :: "(unit, 'z uarts_scheme) km" where
  "uartinit =
     seq (WriteReg IER 0x00)
     (seq (WriteReg LCR LCR_BAUD_LATCH)
     (seq (WriteReg 0 0x03)
     (seq (WriteReg 1 0x00)
     (seq (WriteReg LCR LCR_EIGHT_BITS)
     (seq (WriteReg FCR (FCR_FIFO_ENABLE OR FCR_FIFO_CLEAR))
     (seq (WriteReg IER (IER_TX_ENABLE OR IER_RX_ENABLE))
     (initlock UartTxLock ''uart'')))))))"

text \<open>\<^verbatim>\<open>uartstart\<close> takes one byte out of the ring in each turn but the last.\<close>

definition uartstart :: "(unit, 'z uarts_scheme) km" where
  "uartstart =
     bind (gets (\<lambda>s. unat (uart_tx_w s - uart_tx_r s) + 1)) (\<lambda>fuel.
     loop fuel (\<lambda>_.
       bind (gets (\<lambda>s. uart_tx_w s = uart_tx_r s)) (\<lambda>e.
       if e then ret (Inr ())
       else bind (ReadReg LSR) (\<lambda>l.
         if l AND LSR_TX_IDLE = 0 then ret (Inr ())
         else bind (gets (\<lambda>s. uart_tx_buf s (unat (uart_tx_r s) mod UART_TX_BUF_SIZE))) (\<lambda>c.
           seq (modify (\<lambda>s. s\<lparr>uart_tx_r := uart_tx_r s + 1\<rparr>))
           (seq (wakeup ChanUartTxR)
           (seq (WriteReg THR c) (ret (Inl ())))))))) ())"

text \<open>The loop of \<^verbatim>\<open>uartputc\<close> and what follows it; a process that had to sleep runs it again.\<close>

definition uartputc_loop :: "u8 \<Rightarrow> (unit, 'z uarts_scheme) km" where
  "uartputc_loop c =
     bind (gets (\<lambda>s. uart_tx_w s = uart_tx_r s + of_nat UART_TX_BUF_SIZE)) (\<lambda>full.
     if full then sleep ChanUartTxR UartTxLock
     else
       seq (modify (\<lambda>s. s\<lparr>uart_tx_buf :=
              (uart_tx_buf s)(unat (uart_tx_w s) mod UART_TX_BUF_SIZE := c)\<rparr>))
       (seq (modify (\<lambda>s. s\<lparr>uart_tx_w := uart_tx_w s + 1\<rparr>))
       (seq uartstart
       (release UartTxLock))))"

definition hang :: "('a, 's) km" where
  [km_simps]: "hang s = Stop Hang s"

definition uartputc :: "u8 \<Rightarrow> (unit, 'z uarts_scheme) km" where
  "uartputc c =
     seq (acquire UartTxLock)
     (bind (gets panicked) (\<lambda>p.
      if p then hang else uartputc_loop c))"

text \<open>The busy wait reads the status register at most \<open>UART_POLLS\<close> times: a transmitter that is not
  idle by then counts as one that never is.\<close>

definition UART_POLLS :: nat where "UART_POLLS = 65536"

definition uart_wait_idle :: "(unit, 'z uarts_scheme) km" where
  "uart_wait_idle = loop UART_POLLS (\<lambda>_.
     bind (ReadReg LSR) (\<lambda>l. if l AND LSR_TX_IDLE = 0 then ret (Inl ()) else ret (Inr ()))) ()"

definition uartputc_sync :: "u8 \<Rightarrow> (unit, 'z uarts_scheme) km" where
  "uartputc_sync c =
     seq (on_mach push_off)
     (bind (gets panicked) (\<lambda>p.
      if p then hang
      else seq uart_wait_idle
        (seq (WriteReg THR c)
        (on_mach pop_off))))"

definition uartgetc :: "(u8 option, 'z uarts_scheme) km" where
  "uartgetc =
     bind (ReadReg LSR) (\<lambda>l.
     if l AND 0x01 \<noteq> 0 then bind (ReadReg RHR) (\<lambda>c. ret (Some c)) else ret None)"

end
