(* ===== verification/Printf.thy ===== *)
theory Printf
  imports Uart
begin

text \<open>
  printf.c: formatted output on the console, and \<^verbatim>\<open>panic\<close>. A C string is the list of its bytes
  before the terminating zero. The arguments are tagged with the kind that the conversion asks for;
  an argument of another kind, or a missing one, is undefined behaviour in C and counts as zero.
\<close>

definition cstr :: "string \<Rightarrow> u8 list" where
  "cstr s = map of_char s"

definition BACKSPACE :: u32 where "BACKSPACE = 0x100"

definition chr :: "char \<Rightarrow> u8" where
  "chr c = of_char c"

definition consputc :: "u32 \<Rightarrow> (unit, 'z uarts_scheme) km" where
  "consputc c =
     (if c = BACKSPACE
      then seq (uartputc_sync 8) (seq (uartputc_sync (chr CHR '' '')) (uartputc_sync 8))
      else uartputc_sync (ucast c))"

definition puts :: "u8 list \<Rightarrow> (unit, 'z uarts_scheme) km" where
  "puts bs = forall_do bs (\<lambda>c. consputc (ucast c))"

definition digits :: "u8 list" where
  "digits = cstr ''0123456789abcdef''"

text \<open>The digits of a number, the least significant one first, as \<^verbatim>\<open>printint\<close> fills \<^verbatim>\<open>buf\<close>.\<close>

function int_digits :: "nat \<Rightarrow> nat \<Rightarrow> u8 list" where
  "int_digits base x =
     (digits ! (x mod base)) #
       (if x div base = 0 \<or> base < 2 then [] else int_digits base (x div base))"

  by pat_completeness auto
termination by (relation "measure snd") (auto intro!: div_less_dividend intro: gr0I)

declare int_digits.simps [simp del]

definition int_text :: "u32 \<Rightarrow> nat \<Rightarrow> bool \<Rightarrow> u8 list" where
  "int_text xx base sign =
     (let neg = sign \<and> xx <s 0;
          x = (if neg then - xx else xx)
      in rev (int_digits base (unat x) @ (if neg then [chr CHR ''-''] else [])))"

definition printint :: "u32 \<Rightarrow> nat \<Rightarrow> bool \<Rightarrow> (unit, 'z uarts_scheme) km" where
  "printint xx base sign = puts (int_text xx base sign)"

primrec ptr_digits :: "nat \<Rightarrow> u64 \<Rightarrow> u8 list" where
  "ptr_digits 0 x = []"
| "ptr_digits (Suc n) x = digits ! unat (drop_bit (8 * 8 - 4) x) # ptr_digits n (push_bit 4 x)"

definition printptr :: "u64 \<Rightarrow> (unit, 'z uarts_scheme) km" where
  "printptr x =
     seq (consputc (ucast (chr CHR ''0'')))
     (seq (consputc (ucast (chr CHR ''x'')))
     (puts (ptr_digits (8 * 2) x)))"

datatype parg = PInt u32 | PPtr u64 | PStr "u8 list option"

definition arg_int :: "parg list \<Rightarrow> u32" where
  "arg_int as = (case as of PInt x # _ \<Rightarrow> x | _ \<Rightarrow> 0)"

definition arg_ptr :: "parg list \<Rightarrow> u64" where
  "arg_ptr as = (case as of PPtr x # _ \<Rightarrow> x | _ \<Rightarrow> 0)"

definition arg_str :: "parg list \<Rightarrow> u8 list option" where
  "arg_str as = (case as of PStr x # _ \<Rightarrow> x | _ \<Rightarrow> None)"

fun printf_loop :: "u8 list \<Rightarrow> parg list \<Rightarrow> (unit, 'z uarts_scheme) km" where
  "printf_loop [] as = ret ()"
| "printf_loop (c # fmt) as =
     (if c \<noteq> chr CHR ''%'' then seq (consputc (ucast c)) (printf_loop fmt as)
      else case fmt of
        [] \<Rightarrow> ret ()
      | d # fmt' \<Rightarrow>
          (if d = chr CHR ''d'' then seq (printint (arg_int as) 10 True) (printf_loop fmt' (tl as))
           else if d = chr CHR ''x'' then seq (printint (arg_int as) 16 True) (printf_loop fmt' (tl as))
           else if d = chr CHR ''p'' then seq (printptr (arg_ptr as)) (printf_loop fmt' (tl as))
           else if d = chr CHR ''s'' then
             seq (puts (case arg_str as of None \<Rightarrow> cstr ''(null)'' | Some s \<Rightarrow> s))
               (printf_loop fmt' (tl as))
           else if d = chr CHR ''%'' then seq (consputc (ucast (chr CHR ''%''))) (printf_loop fmt' as)
           else seq (consputc (ucast (chr CHR ''%'')))
             (seq (consputc (ucast d)) (printf_loop fmt' as))))"

definition printf :: "u8 list \<Rightarrow> parg list \<Rightarrow> (unit, 'z uarts_scheme) km" where
  "printf fmt as =
     bind (gets pr_locking) (\<lambda>locking.
     seq (whenk locking (acquire PrLock))
     (seq (printf_loop fmt as)
     (whenk locking (release PrLock))))"

text \<open>\<^verbatim>\<open>panic\<close> with the message it prints. The routines of the model stop with the message itself.\<close>

definition panic_print :: "string \<Rightarrow> (unit, 'z uarts_scheme) km" where
  "panic_print msg =
     seq (modify (\<lambda>s. s\<lparr>pr_locking := False\<rparr>))
     (seq (printf (cstr ''panic: '') [])
     (seq (printf (cstr msg) [])
     (seq (printf (cstr ''\<newline>'') [])
     (seq (modify (\<lambda>s. s\<lparr>panicked := True\<rparr>))
     (panic msg)))))"

definition printfinit :: "(unit, 'z uarts_scheme) km" where
  "printfinit = seq (initlock PrLock ''pr'') (modify (\<lambda>s. s\<lparr>pr_locking := True\<rparr>))"

end
