(* ===== verification/Console.thy ===== *)
theory Console
  imports Printf
begin

text \<open>
  console.c with \<^verbatim>\<open>uartintr\<close> of uart.c and \<^verbatim>\<open>procdump\<close> of proc.c: line editing of the input in a
  ring with three indices, and the device switch through which \<^verbatim>\<open>read\<close> and \<^verbatim>\<open>write\<close> reach the
  console.
\<close>

definition INPUT_BUF_SIZE :: nat where "INPUT_BUF_SIZE = 128"
definition CONSOLE :: nat where "CONSOLE = 1"

text \<open>The functions a device switch entry may point to.\<close>

datatype devfn = ConsoleRead | ConsoleWrite

record devsw =
  dv_read :: "devfn option"
  dv_write :: "devfn option"

record conss = uarts +
  cons_buf :: "nat \<Rightarrow> u8"
  cons_r :: u32
  cons_w :: u32
  cons_e :: u32
  devsw :: "nat \<Rightarrow> devsw"

definition ctrl :: "char \<Rightarrow> u8" where
  "ctrl c = chr c - chr CHR ''@''"

definition consolewrite :: "source \<Rightarrow> int \<Rightarrow> (int, 'z conss_scheme) km" where
  "consolewrite src n =
     bind (for_until [0..<nat n] (\<lambda>i.
       bind (either_copyin (source_add src i) 1) (\<lambda>(r, bs).
       if r = -1 then ret (Some (int i))
       else seq (uartputc (deref bs)) (ret None))))
     (\<lambda>r. ret (case r of Some i \<Rightarrow> i | None \<Rightarrow> max 0 n))"

text \<open>The loop of \<^verbatim>\<open>consoleread\<close> with \<open>n\<close> bytes left of \<open>target\<close>, and what follows it; a process
  that had to sleep runs it again. Each turn but the last reads a byte, so \<open>n + 1\<close> turns are enough.\<close>

definition consoleread_loop :: "dest \<Rightarrow> int \<Rightarrow> int \<Rightarrow> (int, 'z conss_scheme) km" where
  "consoleread_loop dst n target =
     bind (loop (nat n + 1) (\<lambda>(dst, n).
       if n \<le> 0 then ret (Inr (Some n))
       else
         bind (gets (\<lambda>s. cons_r s = cons_w s)) (\<lambda>empty.
         if empty then
           bind curproc (\<lambda>p. bind (killed p) (\<lambda>k.
           if k then seq (release ConsLock) (ret (Inr None))
           else seq (sleep ChanConsR ConsLock) (ret (Inl (dst, n)))))
         else
           bind (gets (\<lambda>s. cons_buf s (unat (cons_r s) mod INPUT_BUF_SIZE))) (\<lambda>c.
           seq (modify (\<lambda>s. s\<lparr>cons_r := cons_r s + 1\<rparr>))
           (if c = ctrl CHR ''D'' then
              seq (whenk (n < target) (modify (\<lambda>s. s\<lparr>cons_r := cons_r s - 1\<rparr>)))
              (ret (Inr (Some n)))
            else
              bind (either_copyout dst [c]) (\<lambda>r.
              if r = -1 then ret (Inr (Some n))
              else if c = 10 then ret (Inr (Some (n - 1)))
              else ret (Inl (dest_add dst 1, n - 1))))))) (dst, n))
     (\<lambda>r. case r of
        None \<Rightarrow> ret (-1)
      | Some n \<Rightarrow> seq (release ConsLock) (ret (target - n)))"

definition consoleread :: "dest \<Rightarrow> int \<Rightarrow> (int, 'z conss_scheme) km" where
  "consoleread dst n = seq (acquire ConsLock) (consoleread_loop dst n n)"

definition state_name :: "procstate \<Rightarrow> string" where
  "state_name st = (case st of UNUSED \<Rightarrow> ''unused'' | USED \<Rightarrow> ''used'' | SLEEPING \<Rightarrow> ''sleep ''
     | RUNNABLE \<Rightarrow> ''runble'' | RUNNING \<Rightarrow> ''run   '' | ZOMBIE \<Rightarrow> ''zombie'')"

definition procdump :: "(unit, 'z uarts_scheme) km" where
  "procdump =
     seq (printf (cstr ''\<newline>'') [])
     (forall_do [0..<NPROC] (\<lambda>p.
        bind (gets (\<lambda>s. proctab s p)) (\<lambda>r.
        whenk (p_state r \<noteq> UNUSED)
          (seq (printf (cstr ''%d %s %s'')
                 [PInt (p_pid r), PStr (Some (cstr (state_name (p_state r)))),
                  PStr (Some (takeWhile (\<lambda>c. c \<noteq> 0) (p_name r)))])
          (printf (cstr ''\<newline>'') [])))))"

text \<open>Kill line: the loop ends when the edit index reaches the write index.\<close>

definition kill_line :: "(unit, 'z conss_scheme) km" where
  "kill_line =
     bind (gets (\<lambda>s. unat (cons_e s - cons_w s) + 1)) (\<lambda>fuel.
     loop fuel (\<lambda>_.
       bind (gets (\<lambda>s. cons_e s \<noteq> cons_w s
           \<and> cons_buf s (unat (cons_e s - 1) mod INPUT_BUF_SIZE) \<noteq> 10)) (\<lambda>go.
       if go then seq (modify (\<lambda>s. s\<lparr>cons_e := cons_e s - 1\<rparr>))
           (seq (consputc BACKSPACE) (ret (Inl ())))
       else ret (Inr ()))) ())"

definition consoleintr :: "u8 \<Rightarrow> (unit, 'z conss_scheme) km" where
  "consoleintr c =
     seq (acquire ConsLock)
     (seq
       (if c = ctrl CHR ''P'' then procdump
        else if c = ctrl CHR ''U'' then kill_line
        else if c = ctrl CHR ''H'' \<or> c = 0x7f then
          bind (gets (\<lambda>s. cons_e s \<noteq> cons_w s)) (\<lambda>ne.
          whenk ne (seq (modify (\<lambda>s. s\<lparr>cons_e := cons_e s - 1\<rparr>)) (consputc BACKSPACE)))
        else
          bind (gets (\<lambda>s. unat (cons_e s - cons_r s) < INPUT_BUF_SIZE)) (\<lambda>room.
          whenk (c \<noteq> 0 \<and> room)
            (let c' = (if c = 13 then 10 else c) in
             seq (consputc (ucast c'))
             (seq (modify (\<lambda>s. s\<lparr>cons_buf :=
                    (cons_buf s)(unat (cons_e s) mod INPUT_BUF_SIZE := c')\<rparr>))
             (seq (modify (\<lambda>s. s\<lparr>cons_e := cons_e s + 1\<rparr>))
             (bind (gets (\<lambda>s. unat (cons_e s - cons_r s) = INPUT_BUF_SIZE)) (\<lambda>full.
              whenk (c' = 10 \<or> c' = ctrl CHR ''D'' \<or> full)
                (seq (modify (\<lambda>s. s\<lparr>cons_w := cons_e s\<rparr>))
                (wakeup ChanConsR)))))))))
     (release ConsLock))"

definition consoleinit :: "(unit, 'z conss_scheme) km" where
  "consoleinit =
     seq (initlock ConsLock ''cons'')
     (seq uartinit
     (modify (\<lambda>s. s\<lparr>devsw := (devsw s)(CONSOLE :=
        \<lparr>dv_read = Some ConsoleRead, dv_write = Some ConsoleWrite\<rparr>)\<rparr>)))"

text \<open>The interrupt handler reads input until none is waiting; the receiver holds a bounded number
  of bytes, and more than \<open>UART_POLLS\<close> in one interrupt count as an endless supply.\<close>

definition uartintr :: "(unit, 'z conss_scheme) km" where
  "uartintr =
     seq (loop UART_POLLS (\<lambda>_.
       bind uartgetc (\<lambda>c.
       case c of None \<Rightarrow> ret (Inr ())
       | Some c \<Rightarrow> seq (consoleintr c) (ret (Inl ())))) ())
     (seq (acquire UartTxLock)
     (seq uartstart
     (release UartTxLock)))"

end
