(* ===== verification/Sleeplock.thy ===== *)
theory Sleeplock
  imports Console
begin

text \<open>
  sleeplock.c: locks that a process may hold while it sleeps. A process that finds the lock
  taken goes to sleep on it; when it is woken it runs \<^verbatim>\<open>sleep_resume\<close> and the loop again.
\<close>

record sleeplock =
  sl_locked :: bool
  sl_name :: string
  sl_pid :: u32

record sleeps = conss +
  slk :: "sleepid \<Rightarrow> sleeplock"

definition set_slk :: "sleepid \<Rightarrow> (sleeplock \<Rightarrow> sleeplock) \<Rightarrow> (unit, 'z sleeps_scheme) km" where
  [km_simps]: "set_slk l f = modify (\<lambda>s. s\<lparr>slk := (slk s)(l := f (slk s l))\<rparr>)"

definition initsleeplock :: "sleepid \<Rightarrow> string \<Rightarrow> (unit, 'z sleeps_scheme) km" where
  "initsleeplock l name =
     seq (initlock (SleepLk l) ''sleep lock'')
     (set_slk l (\<lambda>k. k\<lparr>sl_name := name, sl_locked := False, sl_pid := 0\<rparr>))"

definition curpid :: "(u32, 'z procs_scheme) km" where
  "curpid = bind curproc (\<lambda>p. pget p p_pid)"

text \<open>The loop and what follows it, with the spin lock held.\<close>

definition acquiresleep_loop :: "sleepid \<Rightarrow> (unit, 'z sleeps_scheme) km" where
  "acquiresleep_loop l =
     bind (gets (\<lambda>s. sl_locked (slk s l))) (\<lambda>b.
     if b then sleep (ChanSleep l) (SleepLk l)
     else seq (set_slk l (\<lambda>k. k\<lparr>sl_locked := True\<rparr>))
       (bind curpid (\<lambda>pid.
        seq (set_slk l (\<lambda>k. k\<lparr>sl_pid := pid\<rparr>))
        (release (SleepLk l)))))"

definition acquiresleep :: "sleepid \<Rightarrow> (unit, 'z sleeps_scheme) km" where
  "acquiresleep l = seq (acquire (SleepLk l)) (acquiresleep_loop l)"

definition releasesleep :: "sleepid \<Rightarrow> (unit, 'z sleeps_scheme) km" where
  "releasesleep l =
     seq (acquire (SleepLk l))
     (seq (set_slk l (\<lambda>k. k\<lparr>sl_locked := False, sl_pid := 0\<rparr>))
     (seq (wakeup (ChanSleep l))
     (release (SleepLk l))))"

definition holdingsleep :: "sleepid \<Rightarrow> (bool, 'z sleeps_scheme) km" where
  "holdingsleep l =
     seq (acquire (SleepLk l))
     (bind (gets (\<lambda>s. slk s l)) (\<lambda>k.
      bind (if sl_locked k then bind curpid (\<lambda>pid. ret (sl_pid k = pid)) else ret False) (\<lambda>r.
      seq (release (SleepLk l)) (ret r))))"

end
