(* ===== verification/Virtio.thy ===== *)
theory Virtio
  imports Sleeplock
begin

text \<open>
  virtio_disk.c: the driver of the virtio block device. The queues that the driver and the device
  share are a record; an address in a descriptor names the kernel object it points to. The device
  is not part of the program: what it answers when a register is read and what it does with the
  queues are fields of the state (\<open>vmmio\<close>, \<open>vdev\<close>) that the driver only uses.
\<close>

section \<open>virtio.h\<close>

definition VNUM :: nat where "VNUM = 8"
definition BSIZE :: nat where "BSIZE = 1024"

definition VIRTIO_MMIO_MAGIC_VALUE :: nat where "VIRTIO_MMIO_MAGIC_VALUE = 0x000"
definition VIRTIO_MMIO_VERSION :: nat where "VIRTIO_MMIO_VERSION = 0x004"
definition VIRTIO_MMIO_DEVICE_ID :: nat where "VIRTIO_MMIO_DEVICE_ID = 0x008"
definition VIRTIO_MMIO_VENDOR_ID :: nat where "VIRTIO_MMIO_VENDOR_ID = 0x00c"
definition VIRTIO_MMIO_DEVICE_FEATURES :: nat where "VIRTIO_MMIO_DEVICE_FEATURES = 0x010"
definition VIRTIO_MMIO_DRIVER_FEATURES :: nat where "VIRTIO_MMIO_DRIVER_FEATURES = 0x020"
definition VIRTIO_MMIO_QUEUE_SEL :: nat where "VIRTIO_MMIO_QUEUE_SEL = 0x030"
definition VIRTIO_MMIO_QUEUE_NUM_MAX :: nat where "VIRTIO_MMIO_QUEUE_NUM_MAX = 0x034"
definition VIRTIO_MMIO_QUEUE_NUM :: nat where "VIRTIO_MMIO_QUEUE_NUM = 0x038"
definition VIRTIO_MMIO_QUEUE_READY :: nat where "VIRTIO_MMIO_QUEUE_READY = 0x044"
definition VIRTIO_MMIO_QUEUE_NOTIFY :: nat where "VIRTIO_MMIO_QUEUE_NOTIFY = 0x050"
definition VIRTIO_MMIO_INTERRUPT_STATUS :: nat where "VIRTIO_MMIO_INTERRUPT_STATUS = 0x060"
definition VIRTIO_MMIO_INTERRUPT_ACK :: nat where "VIRTIO_MMIO_INTERRUPT_ACK = 0x064"
definition VIRTIO_MMIO_STATUS :: nat where "VIRTIO_MMIO_STATUS = 0x070"
definition VIRTIO_MMIO_QUEUE_DESC_LOW :: nat where "VIRTIO_MMIO_QUEUE_DESC_LOW = 0x080"
definition VIRTIO_MMIO_QUEUE_DESC_HIGH :: nat where "VIRTIO_MMIO_QUEUE_DESC_HIGH = 0x084"
definition VIRTIO_MMIO_DRIVER_DESC_LOW :: nat where "VIRTIO_MMIO_DRIVER_DESC_LOW = 0x090"
definition VIRTIO_MMIO_DRIVER_DESC_HIGH :: nat where "VIRTIO_MMIO_DRIVER_DESC_HIGH = 0x094"
definition VIRTIO_MMIO_DEVICE_DESC_LOW :: nat where "VIRTIO_MMIO_DEVICE_DESC_LOW = 0x0a0"
definition VIRTIO_MMIO_DEVICE_DESC_HIGH :: nat where "VIRTIO_MMIO_DEVICE_DESC_HIGH = 0x0a4"

definition VIRTIO_CONFIG_S_ACKNOWLEDGE :: u32 where "VIRTIO_CONFIG_S_ACKNOWLEDGE = 1"
definition VIRTIO_CONFIG_S_DRIVER :: u32 where "VIRTIO_CONFIG_S_DRIVER = 2"
definition VIRTIO_CONFIG_S_DRIVER_OK :: u32 where "VIRTIO_CONFIG_S_DRIVER_OK = 4"
definition VIRTIO_CONFIG_S_FEATURES_OK :: u32 where "VIRTIO_CONFIG_S_FEATURES_OK = 8"

definition VRING_DESC_F_NEXT :: u16 where "VRING_DESC_F_NEXT = 1"
definition VRING_DESC_F_WRITE :: u16 where "VRING_DESC_F_WRITE = 2"
definition VIRTIO_BLK_T_IN :: u32 where "VIRTIO_BLK_T_IN = 0"
definition VIRTIO_BLK_T_OUT :: u32 where "VIRTIO_BLK_T_OUT = 1"

datatype dma = DmaNone | DmaOps nat | DmaData nat | DmaStatus nat

record virtq_desc =
  d_addr :: dma
  d_len :: u32
  d_flags :: u16
  d_next :: nat

definition desc0 :: virtq_desc where
  "desc0 = \<lparr>d_addr = DmaNone, d_len = 0, d_flags = 0, d_next = 0\<rparr>"

record virtio_blk_req =
  rq_type :: u32
  rq_sector :: u64

text \<open>What driver and device share: the descriptors, the two rings, the request headers and
  status bytes, the data of the buffers, and the disk itself, block by block.\<close>

record vqueue =
  q_desc :: "nat \<Rightarrow> virtq_desc"
  q_avail :: "nat \<Rightarrow> nat"
  q_avail_idx :: u16
  q_used :: "nat \<Rightarrow> nat"
  q_used_idx :: u16
  q_ops :: "nat \<Rightarrow> virtio_blk_req"
  q_status :: "nat \<Rightarrow> u8"
  q_data :: "nat \<Rightarrow> bytes"
  q_disk :: "nat \<Rightarrow> bytes"

record buf =
  b_valid :: bool
  b_disk :: bool
  b_dev :: u32
  b_blockno :: u32
  b_refcnt :: u32
  b_prev :: nat
  b_next :: nat

record vdisk = sleeps +
  vq :: vqueue
  vfree :: "nat \<Rightarrow> bool"
  vused_idx :: u16
  vinfo :: "nat \<Rightarrow> nat option"
  vpages :: "u64 \<times> u64 \<times> u64"
  vwrites :: "(nat \<times> u32) list"
  vmmio :: "(nat \<times> u32) list \<Rightarrow> nat \<Rightarrow> u32"
  vdev :: "vqueue \<Rightarrow> vqueue"
  bufs :: "nat \<Rightarrow> buf"

definition on_vq :: "(vqueue \<Rightarrow> vqueue) \<Rightarrow> (unit, 'z vdisk_scheme) km" where
  [km_simps]: "on_vq f = modify (\<lambda>s. s\<lparr>vq := f (vq s)\<rparr>)"

definition set_desc :: "nat \<Rightarrow> virtq_desc \<Rightarrow> (unit, 'z vdisk_scheme) km" where
  [km_simps]: "set_desc i d = on_vq (\<lambda>q. q\<lparr>q_desc := (q_desc q)(i := d)\<rparr>)"

definition bmod :: "nat \<Rightarrow> (buf \<Rightarrow> buf) \<Rightarrow> (unit, 'z vdisk_scheme) km" where
  [km_simps]: "bmod b f = modify (\<lambda>s. s\<lparr>bufs := (bufs s)(b := f (bufs s b))\<rparr>)"

definition reg_read :: "nat \<Rightarrow> (u32, 'z vdisk_scheme) km" where
  [km_simps]: "reg_read r = gets (\<lambda>s. vmmio s (vwrites s) r)"

definition reg_write :: "nat \<Rightarrow> u32 \<Rightarrow> (unit, 'z vdisk_scheme) km" where
  [km_simps]: "reg_write r v = modify (\<lambda>s. s\<lparr>vwrites := vwrites s @ [(r, v)]\<rparr>)"

section \<open>Initialisation\<close>

definition clear_features :: "u64 \<Rightarrow> u64" where
  "clear_features f = foldl (\<lambda>f n. f AND NOT (push_bit n 1)) f [5, 7, 11, 12, 27, 29, 28]"

definition virtio_probe :: "(unit, 'z vdisk_scheme) km" where
  "virtio_probe =
     bind (reg_read VIRTIO_MMIO_MAGIC_VALUE) (\<lambda>a.
     bind (reg_read VIRTIO_MMIO_VERSION) (\<lambda>b.
     bind (reg_read VIRTIO_MMIO_DEVICE_ID) (\<lambda>c.
     bind (reg_read VIRTIO_MMIO_VENDOR_ID) (\<lambda>d.
     if a \<noteq> 0x74726976 \<or> b \<noteq> 2 \<or> c \<noteq> 2 \<or> d \<noteq> 0x554d4551
     then panic ''could not find virtio disk'' else ret ()))))"

definition virtio_negotiate :: "(u32, 'z vdisk_scheme) km" where
  "virtio_negotiate =
     seq (reg_write VIRTIO_MMIO_STATUS 0)
     (let st1 = VIRTIO_CONFIG_S_ACKNOWLEDGE; st2 = st1 OR VIRTIO_CONFIG_S_DRIVER;
          st3 = st2 OR VIRTIO_CONFIG_S_FEATURES_OK in
      seq (reg_write VIRTIO_MMIO_STATUS st1)
      (seq (reg_write VIRTIO_MMIO_STATUS st2)
      (bind (reg_read VIRTIO_MMIO_DEVICE_FEATURES) (\<lambda>f.
       seq (reg_write VIRTIO_MMIO_DRIVER_FEATURES (ucast (clear_features (ucast f))))
       (seq (reg_write VIRTIO_MMIO_STATUS st3)
       (bind (reg_read VIRTIO_MMIO_STATUS) (\<lambda>st.
        if st AND VIRTIO_CONFIG_S_FEATURES_OK = 0 then panic ''virtio disk FEATURES_OK unset''
        else ret st)))))))"

definition virtio_queue_init :: "(unit, 'z vdisk_scheme) km" where
  "virtio_queue_init =
     seq (reg_write VIRTIO_MMIO_QUEUE_SEL 0)
     (bind (reg_read VIRTIO_MMIO_QUEUE_READY) (\<lambda>rdy.
      if rdy \<noteq> 0 then panic ''virtio disk should not be ready''
      else bind (reg_read VIRTIO_MMIO_QUEUE_NUM_MAX) (\<lambda>mx.
        if mx = 0 then panic ''virtio disk has no queue 0''
        else if unat mx < VNUM then panic ''virtio disk max queue too short''
        else
          bind kalloc (\<lambda>d. bind kalloc (\<lambda>a. bind kalloc (\<lambda>u.
          if d = 0 \<or> a = 0 \<or> u = 0 then panic ''virtio disk kalloc''
          else
            seq (on_mem (memset (unat d) 0 (unat PGSIZE)))
            (seq (on_mem (memset (unat a) 0 (unat PGSIZE)))
            (seq (on_mem (memset (unat u) 0 (unat PGSIZE)))
            (seq (modify (\<lambda>s. s\<lparr>vpages := (d, a, u)\<rparr>))
            (seq (on_vq (\<lambda>q. q\<lparr>q_desc := (\<lambda>_. desc0), q_avail := (\<lambda>_. 0), q_avail_idx := 0,
                    q_used := (\<lambda>_. 0), q_used_idx := 0\<rparr>))
            (seq (reg_write VIRTIO_MMIO_QUEUE_NUM (of_nat VNUM))
            (seq (reg_write VIRTIO_MMIO_QUEUE_DESC_LOW (ucast d))
            (seq (reg_write VIRTIO_MMIO_QUEUE_DESC_HIGH (ucast (drop_bit 32 d)))
            (seq (reg_write VIRTIO_MMIO_DRIVER_DESC_LOW (ucast a))
            (seq (reg_write VIRTIO_MMIO_DRIVER_DESC_HIGH (ucast (drop_bit 32 a)))
            (seq (reg_write VIRTIO_MMIO_DEVICE_DESC_LOW (ucast u))
            (seq (reg_write VIRTIO_MMIO_DEVICE_DESC_HIGH (ucast (drop_bit 32 u)))
            (reg_write VIRTIO_MMIO_QUEUE_READY 1))))))))))))))))))"

definition virtio_disk_init :: "(unit, 'z vdisk_scheme) km" where
  "virtio_disk_init =
     seq (initlock VdiskLock ''virtio_disk'')
     (seq virtio_probe
     (bind virtio_negotiate (\<lambda>status.
      seq virtio_queue_init
      (seq (modify (\<lambda>s. s\<lparr>vfree := (\<lambda>i. if i < VNUM then True else vfree s i)\<rparr>))
      (reg_write VIRTIO_MMIO_STATUS (status OR VIRTIO_CONFIG_S_DRIVER_OK))))))"

section \<open>Descriptors\<close>

definition alloc_desc :: "(int, 'z vdisk_scheme) km" where
  "alloc_desc =
     bind (for_until [0..<VNUM] (\<lambda>i.
       bind (gets (\<lambda>s. vfree s i)) (\<lambda>f.
       if f then seq (modify (\<lambda>s. s\<lparr>vfree := (vfree s)(i := False)\<rparr>)) (ret (Some (int i)))
       else ret None)))
     (\<lambda>r. case r of Some i \<Rightarrow> ret i | None \<Rightarrow> ret (-1))"

definition free_desc :: "nat \<Rightarrow> (unit, 'z vdisk_scheme) km" where
  "free_desc i =
     (if i \<ge> VNUM then panic ''free_desc 1''
      else bind (gets (\<lambda>s. vfree s i)) (\<lambda>f.
        if f then panic ''free_desc 2''
        else seq (set_desc i desc0)
          (seq (modify (\<lambda>s. s\<lparr>vfree := (vfree s)(i := True)\<rparr>))
          (wakeup ChanDiskFree))))"

text \<open>A descriptor is freed at most once before \<^verbatim>\<open>free_desc\<close> panics, so the number of descriptors
  bounds the loop.\<close>

definition free_chain_turn :: "nat \<Rightarrow> (nat + unit, 'z vdisk_scheme) km" where
  "free_chain_turn i =
     bind (gets (\<lambda>s. q_desc (vq s) i)) (\<lambda>d.
     seq (free_desc i)
     (if d_flags d AND VRING_DESC_F_NEXT \<noteq> 0 then ret (Inl (d_next d)) else ret (Inr ())))"

definition free_chain_v :: "nat \<Rightarrow> (unit, 'z vdisk_scheme) km" where
  "free_chain_v = loop (VNUM + 1) free_chain_turn"

text \<open>Three descriptors or none.\<close>

definition alloc3_desc :: "((nat \<times> nat \<times> nat) option, 'z vdisk_scheme) km" where
  "alloc3_desc =
     bind alloc_desc (\<lambda>i0.
     if i0 < 0 then ret None
     else bind alloc_desc (\<lambda>i1.
       if i1 < 0 then seq (free_desc (nat i0)) (ret None)
       else bind alloc_desc (\<lambda>i2.
         if i2 < 0 then seq (free_desc (nat i0)) (seq (free_desc (nat i1)) (ret None))
         else ret (Some (nat i0, nat i1, nat i2)))))"

section \<open>Requests and the interrupt\<close>

text \<open>Formatting the three descriptors and telling the device.\<close>

definition virtio_submit :: "nat \<Rightarrow> bool \<Rightarrow> nat \<times> nat \<times> nat \<Rightarrow> (unit, 'z vdisk_scheme) km" where
  "virtio_submit b write idx = (case idx of (i0, i1, i2) \<Rightarrow>
     bind (gets (\<lambda>s. b_blockno (bufs s b))) (\<lambda>bn.
     let sector = ucast (bn * of_nat (BSIZE div 512)) in
     seq (on_vq (\<lambda>q. q\<lparr>q_ops := (q_ops q)(i0 :=
            \<lparr>rq_type = (if write then VIRTIO_BLK_T_OUT else VIRTIO_BLK_T_IN), rq_sector = sector\<rparr>)\<rparr>))
     (seq (set_desc i0 \<lparr>d_addr = DmaOps i0, d_len = 16, d_flags = VRING_DESC_F_NEXT, d_next = i1\<rparr>)
     (seq (set_desc i1 \<lparr>d_addr = DmaData b, d_len = of_nat BSIZE,
            d_flags = (if write then 0 else VRING_DESC_F_WRITE) OR VRING_DESC_F_NEXT, d_next = i2\<rparr>)
     (seq (on_vq (\<lambda>q. q\<lparr>q_status := (q_status q)(i0 := 0xff)\<rparr>))
     (seq (set_desc i2 \<lparr>d_addr = DmaStatus i0, d_len = 1, d_flags = VRING_DESC_F_WRITE, d_next = 0\<rparr>)
     (seq (bmod b (\<lambda>r. r\<lparr>b_disk := True\<rparr>))
     (seq (modify (\<lambda>s. s\<lparr>vinfo := (vinfo s)(i0 := Some b)\<rparr>))
     (seq (on_vq (\<lambda>q. q\<lparr>q_avail := (q_avail q)(unat (q_avail_idx q) mod VNUM := i0)\<rparr>))
     (seq (on_vq (\<lambda>q. q\<lparr>q_avail_idx := q_avail_idx q + 1\<rparr>))
     (reg_write VIRTIO_MMIO_QUEUE_NOTIFY 0)))))))))))"

text \<open>One turn of the loop of the interrupt handler. The ring indices are 16-bit counters, so the
  loop ends after at most \<open>2 ^ 16\<close> turns unless the device adds entries meanwhile.\<close>

definition virtio_intr_turn :: "unit \<Rightarrow> (unit + unit, 'z vdisk_scheme) km" where
  "virtio_intr_turn _ =
     bind (gets (\<lambda>s. (vused_idx s, vq s))) (\<lambda>(ui, q).
     if ui = q_used_idx q then ret (Inr ())
     else
       let i = q_used q (unat ui mod VNUM) in
       if q_status q i \<noteq> 0 then panic ''virtio_disk_intr status''
       else bind (gets (\<lambda>s. vinfo s i)) (\<lambda>bo.
         case bo of None \<Rightarrow> panic ''kerneltrap''
         | Some b \<Rightarrow>
             seq (bmod b (\<lambda>r. r\<lparr>b_disk := False\<rparr>))
             (seq (wakeup (ChanBuf b))
             (seq (modify (\<lambda>s. s\<lparr>vused_idx := vused_idx s + 1\<rparr>))
             (ret (Inl ()))))))"

definition virtio_disk_intr :: "(unit, 'z vdisk_scheme) km" where
  "virtio_disk_intr =
     seq (acquire VdiskLock)
     (bind (reg_read VIRTIO_MMIO_INTERRUPT_STATUS) (\<lambda>st.
      seq (reg_write VIRTIO_MMIO_INTERRUPT_ACK (st AND 3))
      (seq (loop (2 ^ 16) virtio_intr_turn ())
      (release VdiskLock))))"

text \<open>While the process sleeps in \<^verbatim>\<open>virtio_disk_rw\<close>: the scheduler goes on, the device serves the
  request, its interrupt is handled, the process is picked again and \<^verbatim>\<open>sleep\<close> returns. This is the
  schedule in which nothing else runs meanwhile.\<close>

definition disk_wait :: "nat \<Rightarrow> nat \<Rightarrow> (unit, 'z vdisk_scheme) km" where
  "disk_wait b p s = (case sleep (ChanBuf b) VdiskLock s of
       Stop Switched s1 \<Rightarrow>
         seq (sched_back p)
         (seq (on_vq (vdev s1))
         (seq virtio_disk_intr
         (bind (sched_pick p) (\<lambda>r.
          if r then sleep_resume p (intena (mycpu (mach s1))) VdiskLock
          else (\<lambda>s. Stop Hang s))))) s1
     | r \<Rightarrow> r)"

definition virtio_wait_turn :: "nat \<Rightarrow> nat \<Rightarrow> unit \<Rightarrow> (unit + unit, 'z vdisk_scheme) km" where
  "virtio_wait_turn b p _ =
     bind (gets (\<lambda>s. b_disk (bufs s b))) (\<lambda>d.
     if d then seq (disk_wait b p) (ret (Inl ())) else ret (Inr ()))"

definition virtio_disk_rw :: "nat \<Rightarrow> bool \<Rightarrow> (unit, 'z vdisk_scheme) km" where
  "virtio_disk_rw b write =
     seq (acquire VdiskLock)
     (bind alloc3_desc (\<lambda>idx.
      case idx of
        None \<Rightarrow> sleep ChanDiskFree VdiskLock
      | Some (i0, i1, i2) \<Rightarrow>
          seq (virtio_submit b write (i0, i1, i2))
          (bind curproc (\<lambda>p.
           seq (loop 2 (virtio_wait_turn b p) ())
           (seq (modify (\<lambda>s. s\<lparr>vinfo := (vinfo s)(i0 := None)\<rparr>))
           (seq (free_chain_v i0)
           (release VdiskLock)))))))"

end
