(* ===== verification/Bio.thy ===== *)
theory Bio
  imports Virtio
begin

text \<open>
  bio.c: the buffer cache. Buffers are named by their index; the index \<open>NBUF\<close> is
  \<^verbatim>\<open>bcache.head\<close>. The list through \<^verbatim>\<open>prev\<close> and \<^verbatim>\<open>next\<close> is kept as the code keeps it.
\<close>

definition set_next :: "nat \<Rightarrow> nat \<Rightarrow> (unit, 'z vdisk_scheme) km" where
  [km_simps]: "set_next b n = bmod b (\<lambda>r. r\<lparr>b_next := n\<rparr>)"

definition set_prev :: "nat \<Rightarrow> nat \<Rightarrow> (unit, 'z vdisk_scheme) km" where
  [km_simps]: "set_prev b n = bmod b (\<lambda>r. r\<lparr>b_prev := n\<rparr>)"

abbreviation bhead :: nat where "bhead \<equiv> NBUF"

text \<open>Linking a buffer in front of the list.\<close>

definition link_front :: "nat \<Rightarrow> (unit, 'z vdisk_scheme) km" where
  "link_front b =
     bind (gets (\<lambda>s. b_next (bufs s bhead))) (\<lambda>n.
     seq (set_next b n)
     (seq (set_prev b bhead)
     (bind (gets (\<lambda>s. b_next (bufs s bhead))) (\<lambda>n.
      seq (set_prev n b)
      (set_next bhead b)))))"

definition binit :: "(unit, 'z vdisk_scheme) km" where
  "binit =
     seq (initlock BcacheLock ''bcache'')
     (seq (set_prev bhead bhead)
     (seq (set_next bhead bhead)
     (forall_do [0..<NBUF] (\<lambda>b.
        bind (gets (\<lambda>s. b_next (bufs s bhead))) (\<lambda>n.
        seq (set_next b n)
        (seq (set_prev b bhead)
        (seq (initsleeplock (BufLock b) ''buffer'')
        (bind (gets (\<lambda>s. b_next (bufs s bhead))) (\<lambda>n.
         seq (set_prev n b)
         (set_next bhead b))))))))))"

text \<open>The two scans of the list: from the front for the block, from the back for a buffer that
  nobody uses. A list of \<open>NBUF\<close> buffers ends after \<open>NBUF + 1\<close> turns.\<close>

definition scan_cached :: "u32 \<Rightarrow> u32 \<Rightarrow> (nat option, 'z vdisk_scheme) km" where
  "scan_cached dev blockno =
     bind (gets (\<lambda>s. b_next (bufs s bhead))) (\<lambda>b0.
     loop (NBUF + 1) (\<lambda>b.
       if b = bhead then ret (Inr None)
       else bind (gets (\<lambda>s. bufs s b)) (\<lambda>r.
         if b_dev r = dev \<and> b_blockno r = blockno then ret (Inr (Some b))
         else ret (Inl (b_next r)))) b0)"

definition scan_free :: "(nat option, 'z vdisk_scheme) km" where
  "scan_free =
     bind (gets (\<lambda>s. b_prev (bufs s bhead))) (\<lambda>b0.
     loop (NBUF + 1) (\<lambda>b.
       if b = bhead then ret (Inr None)
       else bind (gets (\<lambda>s. bufs s b)) (\<lambda>r.
         if b_refcnt r = 0 then ret (Inr (Some b))
         else ret (Inl (b_prev r)))) b0)"

definition bget :: "u32 \<Rightarrow> u32 \<Rightarrow> (nat, 'z vdisk_scheme) km" where
  "bget dev blockno =
     seq (acquire BcacheLock)
     (bind (scan_cached dev blockno) (\<lambda>c.
      case c of
        Some b \<Rightarrow>
          seq (bmod b (\<lambda>r. r\<lparr>b_refcnt := b_refcnt r + 1\<rparr>))
          (seq (release BcacheLock)
          (seq (acquiresleep (BufLock b))
          (ret b)))
      | None \<Rightarrow>
          bind scan_free (\<lambda>f.
          case f of
            Some b \<Rightarrow>
              seq (bmod b (\<lambda>r. r\<lparr>b_dev := dev, b_blockno := blockno, b_valid := False, b_refcnt := 1\<rparr>))
              (seq (release BcacheLock)
              (seq (acquiresleep (BufLock b))
              (ret b)))
          | None \<Rightarrow> panic ''bget: no buffers'')))"

definition bread :: "u32 \<Rightarrow> u32 \<Rightarrow> (nat, 'z vdisk_scheme) km" where
  "bread dev blockno =
     bind (bget dev blockno) (\<lambda>b.
     bind (gets (\<lambda>s. b_valid (bufs s b))) (\<lambda>v.
     seq (whenk (\<not> v)
       (seq (virtio_disk_rw b False)
       (bmod b (\<lambda>r. r\<lparr>b_valid := True\<rparr>))))
     (ret b)))"

definition bwrite :: "nat \<Rightarrow> (unit, 'z vdisk_scheme) km" where
  "bwrite b =
     bind (holdingsleep (BufLock b)) (\<lambda>h.
     if \<not> h then panic ''bwrite'' else virtio_disk_rw b True)"

text \<open>Unlinking a buffer and linking it in front.\<close>

definition move_front :: "nat \<Rightarrow> (unit, 'z vdisk_scheme) km" where
  "move_front b =
     bind (gets (\<lambda>s. bufs s b)) (\<lambda>r.
     seq (set_prev (b_next r) (b_prev r))
     (bind (gets (\<lambda>s. bufs s b)) (\<lambda>r.
      seq (set_next (b_prev r) (b_next r))
      (link_front b))))"

definition brelse :: "nat \<Rightarrow> (unit, 'z vdisk_scheme) km" where
  "brelse b =
     bind (holdingsleep (BufLock b)) (\<lambda>h.
     if \<not> h then panic ''brelse''
     else
       seq (releasesleep (BufLock b))
       (seq (acquire BcacheLock)
       (seq (bmod b (\<lambda>r. r\<lparr>b_refcnt := b_refcnt r - 1\<rparr>))
       (bind (gets (\<lambda>s. b_refcnt (bufs s b))) (\<lambda>n.
        seq (whenk (n = 0) (move_front b))
        (release BcacheLock))))))"

definition bpin :: "nat \<Rightarrow> (unit, 'z vdisk_scheme) km" where
  "bpin b =
     seq (acquire BcacheLock)
     (seq (bmod b (\<lambda>r. r\<lparr>b_refcnt := b_refcnt r + 1\<rparr>))
     (release BcacheLock))"

definition bunpin :: "nat \<Rightarrow> (unit, 'z vdisk_scheme) km" where
  "bunpin b =
     seq (acquire BcacheLock)
     (seq (bmod b (\<lambda>r. r\<lparr>b_refcnt := b_refcnt r - 1\<rparr>))
     (release BcacheLock))"

text \<open>The data of a buffer.\<close>

definition bdata :: "nat \<Rightarrow> (bytes, 'z vdisk_scheme) km" where
  [km_simps]: "bdata b = gets (\<lambda>s. q_data (vq s) b)"

definition set_bdata :: "nat \<Rightarrow> (bytes \<Rightarrow> bytes) \<Rightarrow> (unit, 'z vdisk_scheme) km" where
  [km_simps]: "set_bdata b f = on_vq (\<lambda>q. q\<lparr>q_data := (q_data q)(b := f (q_data q b))\<rparr>)"

end
