(* ===== verification/Log.thy ===== *)
theory Log
  imports Bio
begin

text \<open>
  log.c: the redo log. The in-memory header is part of the state; the header block on the disk
  holds the count and the block numbers as little-endian 32-bit integers. A log operation that
  must wait sleeps on the log and runs the loop of \<^verbatim>\<open>begin_op\<close> again when it is woken.
\<close>

record superblock =
  sb_magic :: u32
  sb_size :: u32
  sb_nblocks :: u32
  sb_ninodes :: u32
  sb_nlog :: u32
  sb_logstart :: u32
  sb_inodestart :: u32
  sb_bmapstart :: u32

record logs = vdisk +
  lg_start :: u32
  lg_size :: u32
  lg_outstanding :: int
  lg_committing :: bool
  lg_dev :: u32
  lh_n :: int
  lh_block :: "nat \<Rightarrow> u32"

definition sizeof_logheader :: nat where "sizeof_logheader = 4 + 4 * LOGSIZE"

definition for_tail :: "(nat \<Rightarrow> (unit, 'z logs_scheme) km) \<Rightarrow> (unit, 'z logs_scheme) km" where
  "for_tail f = bind (gets lh_n) (\<lambda>n. forall_do [0..<nat n] f)"

definition copy_block :: "nat \<Rightarrow> nat \<Rightarrow> (unit, 'z vdisk_scheme) km" where
  "copy_block to from = bind (bdata from) (\<lambda>d. set_bdata to (\<lambda>m. wr m 0 (rd d 0 BSIZE)))"

definition install_one :: "bool \<Rightarrow> nat \<Rightarrow> (unit, 'z logs_scheme) km" where
  "install_one recovering tail =
     bind (gets id) (\<lambda>l.
     bind (bread (lg_dev l) (lg_start l + of_nat tail + 1)) (\<lambda>lbuf.
     bind (gets id) (\<lambda>l.
     bind (bread (lg_dev l) (lh_block l tail)) (\<lambda>dbuf.
     seq (copy_block dbuf lbuf)
     (seq (bwrite dbuf)
     (seq (whenk (\<not> recovering) (bunpin dbuf))
     (seq (brelse lbuf)
     (brelse dbuf))))))))"

definition install_trans :: "bool \<Rightarrow> (unit, 'z logs_scheme) km" where
  "install_trans recovering = for_tail (install_one recovering)"

definition head_in :: "bytes \<Rightarrow> nat \<Rightarrow> (unit, 'z logs_scheme) km" where
  "head_in d i = modify (\<lambda>s. s\<lparr>lh_block := (lh_block s)(i := load32 d (4 + 4 * i))\<rparr>)"

definition read_head :: "(unit, 'z logs_scheme) km" where
  "read_head =
     bind (gets id) (\<lambda>l.
     bind (bread (lg_dev l) (lg_start l)) (\<lambda>b.
     bind (bdata b) (\<lambda>d.
     seq (modify (\<lambda>s. s\<lparr>lh_n := sint (load32 d 0)\<rparr>))
     (seq (for_tail (head_in d))
     (brelse b)))))"

definition head_out :: "nat \<Rightarrow> nat \<Rightarrow> (unit, 'z logs_scheme) km" where
  "head_out b i =
     bind (gets (\<lambda>s. lh_block s i)) (\<lambda>k. set_bdata b (\<lambda>d. store32 d (4 + 4 * i) k))"

definition write_head :: "(unit, 'z logs_scheme) km" where
  "write_head =
     bind (gets id) (\<lambda>l.
     bind (bread (lg_dev l) (lg_start l)) (\<lambda>b.
     bind (gets lh_n) (\<lambda>n.
     seq (set_bdata b (\<lambda>d. store32 d 0 (word_of_int n)))
     (seq (for_tail (head_out b))
     (seq (bwrite b)
     (brelse b))))))"

definition recover_from_log :: "(unit, 'z logs_scheme) km" where
  "recover_from_log =
     seq read_head
     (seq (install_trans True)
     (seq (modify (\<lambda>s. s\<lparr>lh_n := 0\<rparr>))
     write_head))"

definition initlog :: "u32 \<Rightarrow> superblock \<Rightarrow> (unit, 'z logs_scheme) km" where
  "initlog dev sb =
     (if sizeof_logheader \<ge> BSIZE then panic ''initlog: too big logheader''
      else seq (initlock LogLock ''log'')
        (seq (modify (\<lambda>s. s\<lparr>lg_start := sb_logstart sb, lg_size := sb_nlog sb, lg_dev := dev\<rparr>))
        recover_from_log))"

definition begin_op_loop :: "(unit, 'z logs_scheme) km" where
  "begin_op_loop =
     bind (gets id) (\<lambda>l.
     if lg_committing l then sleep ChanLog LogLock
     else if lh_n l + (lg_outstanding l + 1) * int MAXOPBLOCKS > int LOGSIZE
     then sleep ChanLog LogLock
     else seq (modify (\<lambda>s. s\<lparr>lg_outstanding := lg_outstanding s + 1\<rparr>))
       (release LogLock))"

definition begin_op :: "(unit, 'z logs_scheme) km" where
  "begin_op = seq (acquire LogLock) begin_op_loop"

definition write_log_one :: "nat \<Rightarrow> (unit, 'z logs_scheme) km" where
  "write_log_one tail =
     bind (gets id) (\<lambda>l.
     bind (bread (lg_dev l) (lg_start l + of_nat tail + 1)) (\<lambda>to.
     bind (gets id) (\<lambda>l.
     bind (bread (lg_dev l) (lh_block l tail)) (\<lambda>from.
     seq (copy_block to from)
     (seq (bwrite to)
     (seq (brelse from)
     (brelse to)))))))"

definition write_log :: "(unit, 'z logs_scheme) km" where
  "write_log = for_tail write_log_one"

definition commit :: "(unit, 'z logs_scheme) km" where
  "commit =
     bind (gets lh_n) (\<lambda>n.
     whenk (n > 0)
       (seq write_log
       (seq write_head
       (seq (install_trans False)
       (seq (modify (\<lambda>s. s\<lparr>lh_n := 0\<rparr>))
       write_head)))))"

definition end_op :: "(unit, 'z logs_scheme) km" where
  "end_op =
     seq (acquire LogLock)
     (seq (modify (\<lambda>s. s\<lparr>lg_outstanding := lg_outstanding s - 1\<rparr>))
     (bind (gets id) (\<lambda>l.
      if lg_committing l then panic ''log.committing''
      else if lg_outstanding l = 0 then
        seq (modify (\<lambda>s. s\<lparr>lg_committing := True\<rparr>))
        (seq (release LogLock)
        (seq commit
        (seq (acquire LogLock)
        (seq (modify (\<lambda>s. s\<lparr>lg_committing := False\<rparr>))
        (seq (wakeup ChanLog)
        (release LogLock))))))
      else
        seq (wakeup ChanLog)
        (release LogLock))))"

text \<open>The position at which \<^verbatim>\<open>log_write\<close> puts a block number: its own if it is logged already.\<close>

definition log_slot :: "u32 \<Rightarrow> nat \<Rightarrow> (nat \<Rightarrow> u32) \<Rightarrow> nat" where
  "log_slot k n bl = length (takeWhile (\<lambda>i. bl i \<noteq> k) [0..<n])"

definition log_write :: "nat \<Rightarrow> (unit, 'z logs_scheme) km" where
  "log_write b =
     seq (acquire LogLock)
     (bind (gets id) (\<lambda>l.
      if lh_n l \<ge> int LOGSIZE \<or> lh_n l \<ge> sint (lg_size l - 1) then panic ''too big a transaction''
      else if lg_outstanding l < 1 then panic ''log_write outside of trans''
      else bind (gets (\<lambda>s. b_blockno (bufs s b))) (\<lambda>k.
        let i = log_slot k (nat (lh_n l)) (lh_block l) in
        seq (modify (\<lambda>s. s\<lparr>lh_block := (lh_block s)(i := k)\<rparr>))
        (seq (whenk (int i = lh_n l)
           (seq (bpin b) (modify (\<lambda>s. s\<lparr>lh_n := lh_n s + 1\<rparr>))))
        (release LogLock)))))"

end
