(* ===== verification/Fs.thy ===== *)
theory Fs
  imports Log
begin

text \<open>
  fs.c: blocks, inodes, the contents of files, directories and path names, on top of the log. An
  in-memory inode is named by its index in the inode table; a pointer that may be null is an
  option. A path is the list of its bytes before the terminating zero.
\<close>

section \<open>The disk format (fs.h)\<close>

definition ROOTINO :: u32 where "ROOTINO = 1"
definition FSMAGIC :: u32 where "FSMAGIC = 0x10203040"
definition NDIRECT :: nat where "NDIRECT = 12"
definition NINDIRECT :: nat where "NINDIRECT = BSIZE div 4"
definition MAXFILE :: nat where "MAXFILE = NDIRECT + NINDIRECT"
definition sizeof_dinode :: nat where "sizeof_dinode = 64"
definition IPB :: nat where "IPB = BSIZE div sizeof_dinode"
definition BPB :: nat where "BPB = BSIZE * 8"
definition DIRSIZ :: nat where "DIRSIZ = 14"
definition sizeof_dirent :: nat where "sizeof_dirent = 16"

definition T_DIR :: u16 where "T_DIR = 1"
definition T_FILE :: u16 where "T_FILE = 2"
definition T_DEVICE :: u16 where "T_DEVICE = 3"

record dinode =
  di_type :: u16
  di_major :: u16
  di_minor :: u16
  di_nlink :: u16
  di_size :: u32
  di_addrs :: "nat \<Rightarrow> u32"

text \<open>The dinode at offset \<open>a\<close> of a block, and storing one there.\<close>

definition get_dinode :: "bytes \<Rightarrow> nat \<Rightarrow> dinode" where
  "get_dinode d a =
     \<lparr>di_type = load16 d a, di_major = load16 d (a + 2), di_minor = load16 d (a + 4),
      di_nlink = load16 d (a + 6), di_size = load32 d (a + 8),
      di_addrs = (\<lambda>i. load32 d (a + 12 + 4 * i))\<rparr>"

definition put_addrs :: "bytes \<Rightarrow> nat \<Rightarrow> (nat \<Rightarrow> u32) \<Rightarrow> bytes" where
  "put_addrs d a f = foldl (\<lambda>d i. store32 d (a + 12 + 4 * i) (f i)) d [0..<NDIRECT + 1]"

definition put_dinode :: "bytes \<Rightarrow> nat \<Rightarrow> dinode \<Rightarrow> bytes" where
  "put_dinode d a i =
     put_addrs (store32 (store16 (store16 (store16 (store16 d
       a (di_type i)) (a + 2) (di_major i)) (a + 4) (di_minor i)) (a + 6) (di_nlink i))
       (a + 8) (di_size i)) a (di_addrs i)"

definition get_superblock :: "bytes \<Rightarrow> superblock" where
  "get_superblock d =
     \<lparr>sb_magic = load32 d 0, sb_size = load32 d 4, sb_nblocks = load32 d 8,
      sb_ninodes = load32 d 12, sb_nlog = load32 d 16, sb_logstart = load32 d 20,
      sb_inodestart = load32 d 24, sb_bmapstart = load32 d 28\<rparr>"

definition IBLOCK :: "u32 \<Rightarrow> superblock \<Rightarrow> u32" where
  "IBLOCK i sb = i div of_nat IPB + sb_inodestart sb"

definition BBLOCK :: "u32 \<Rightarrow> superblock \<Rightarrow> u32" where
  "BBLOCK b sb = b div of_nat BPB + sb_bmapstart sb"

definition dinode_off :: "u32 \<Rightarrow> nat" where
  "dinode_off inum = sizeof_dinode * (unat inum mod IPB)"

record dirent =
  de_inum :: u16
  de_name :: "u8 list"

definition get_dirent :: "u8 list \<Rightarrow> dirent" where
  "get_dirent bs = \<lparr>de_inum = le_word (take 2 bs), de_name = take DIRSIZ (drop 2 bs)\<rparr>"

definition put_dirent :: "dirent \<Rightarrow> u8 list" where
  "put_dirent de = le_bytes 2 (de_inum de) @ de_name de"

section \<open>The in-memory state\<close>

record inode =
  i_dev :: u32
  i_inum :: u32
  i_ref :: int
  i_valid :: bool
  i_type :: u16
  i_major :: u16
  i_minor :: u16
  i_nlink :: u16
  i_size :: u32
  i_addrs :: "nat \<Rightarrow> u32"

record fss = logs +
  fs_sb :: superblock
  itable :: "nat \<Rightarrow> inode"

definition iget_f :: "nat \<Rightarrow> (inode \<Rightarrow> 'a) \<Rightarrow> ('a, 'z fss_scheme) km" where
  [km_simps]: "iget_f ip f = gets (\<lambda>s. f (itable s ip))"

definition imod :: "nat \<Rightarrow> (inode \<Rightarrow> inode) \<Rightarrow> (unit, 'z fss_scheme) km" where
  [km_simps]: "imod ip f = modify (\<lambda>s. s\<lparr>itable := (itable s)(ip := f (itable s ip))\<rparr>)"

section \<open>Blocks\<close>

definition readsb :: "u32 \<Rightarrow> (unit, 'z fss_scheme) km" where
  "readsb dev =
     bind (bread dev 1) (\<lambda>bp.
     bind (bdata bp) (\<lambda>d.
     seq (modify (\<lambda>s. s\<lparr>fs_sb := get_superblock d\<rparr>))
     (brelse bp)))"

definition fsinit :: "u32 \<Rightarrow> (unit, 'z fss_scheme) km" where
  "fsinit dev =
     seq (readsb dev)
     (bind (gets fs_sb) (\<lambda>sb.
      if sb_magic sb \<noteq> FSMAGIC then panic ''invalid file system'' else initlog dev sb))"

definition bzero :: "u32 \<Rightarrow> u32 \<Rightarrow> (unit, 'z fss_scheme) km" where
  "bzero dev bno =
     bind (bread dev bno) (\<lambda>bp.
     seq (set_bdata bp (memset 0 0 BSIZE))
     (seq (log_write bp)
     (brelse bp)))"

definition bitmask :: "nat \<Rightarrow> u8" where
  "bitmask bi = push_bit (bi mod 8) 1"

text \<open>The inner loop: the first free bit among the first \<open>n\<close> bits of a bitmap block.\<close>

definition free_bit :: "bytes \<Rightarrow> nat \<Rightarrow> nat option" where
  "free_bit d n = find (\<lambda>bi. d (bi div 8) AND bitmask bi = 0) [0..<n]"

definition balloc :: "u32 \<Rightarrow> (u32, 'z fss_scheme) km" where
  "balloc dev =
     bind (gets fs_sb) (\<lambda>sb.
     let size = unat (sb_size sb) in
     bind (for_until [0..<(size + BPB - 1) div BPB] (\<lambda>k.
       let b = k * BPB in
       bind (bread dev (BBLOCK (of_nat b) sb)) (\<lambda>bp.
       bind (bdata bp) (\<lambda>d.
       case free_bit d (min BPB (size - b)) of
         Some bi \<Rightarrow>
           seq (set_bdata bp (\<lambda>d. d(bi div 8 := d (bi div 8) OR bitmask bi)))
           (seq (log_write bp)
           (seq (brelse bp)
           (seq (bzero dev (of_nat (b + bi)))
           (ret (Some (of_nat (b + bi)))))))
       | None \<Rightarrow> seq (brelse bp) (ret None)))))
     (\<lambda>r. case r of
        Some b \<Rightarrow> ret b
      | None \<Rightarrow> seq (printf (cstr ''balloc: out of blocks\<newline>'') []) (ret 0)))"

definition bfree :: "u32 \<Rightarrow> u32 \<Rightarrow> (unit, 'z fss_scheme) km" where
  "bfree dev b =
     bind (gets fs_sb) (\<lambda>sb.
     bind (bread dev (BBLOCK b sb)) (\<lambda>bp.
     let bi = unat b mod BPB in
     bind (bdata bp) (\<lambda>d.
     if d (bi div 8) AND bitmask bi = 0 then panic ''freeing free block''
     else seq (set_bdata bp (\<lambda>d. d(bi div 8 := d (bi div 8) AND NOT (bitmask bi))))
       (seq (log_write bp)
       (brelse bp)))))"

section \<open>Inodes\<close>

definition iinit :: "(unit, 'z fss_scheme) km" where
  "iinit =
     seq (initlock ItableLock ''itable'')
     (forall_do [0..<NINODE] (\<lambda>i. initsleeplock (InodeLock i) ''inode''))"

definition iget :: "u32 \<Rightarrow> u32 \<Rightarrow> (nat, 'z fss_scheme) km" where
  "iget dev inum =
     seq (acquire ItableLock)
     (bind (for_until [0..<NINODE] (\<lambda>ip.
        bind (iget_f ip id) (\<lambda>r.
        if i_ref r > 0 \<and> i_dev r = dev \<and> i_inum r = inum
        then seq (imod ip (\<lambda>r. r\<lparr>i_ref := i_ref r + 1\<rparr>))
          (seq (release ItableLock) (ret (Some ip)))
        else ret None)))
     (\<lambda>found. case found of
        Some ip \<Rightarrow> ret ip
      | None \<Rightarrow>
          bind (gets (\<lambda>s. find (\<lambda>ip. i_ref (itable s ip) = 0) [0..<NINODE])) (\<lambda>empty.
          case empty of
            None \<Rightarrow> panic ''iget: no inodes''
          | Some ip \<Rightarrow>
              seq (imod ip (\<lambda>r. r\<lparr>i_dev := dev, i_inum := inum, i_ref := 1, i_valid := False\<rparr>))
              (seq (release ItableLock) (ret ip)))))"

definition ialloc :: "u32 \<Rightarrow> u16 \<Rightarrow> (nat option, 'z fss_scheme) km" where
  "ialloc dev type =
     bind (gets fs_sb) (\<lambda>sb.
     bind (for_until [1..<unat (sb_ninodes sb)] (\<lambda>i.
       let inum = of_nat i in
       bind (bread dev (IBLOCK inum sb)) (\<lambda>bp.
       bind (bdata bp) (\<lambda>d.
       if di_type (get_dinode d (dinode_off inum)) = 0 then
         seq (set_bdata bp (\<lambda>d. store16 (memset (dinode_off inum) 0 sizeof_dinode d) (dinode_off inum) type))
         (seq (log_write bp)
         (seq (brelse bp)
         (bind (iget dev inum) (\<lambda>ip. ret (Some ip)))))
       else seq (brelse bp) (ret None)))))
     (\<lambda>r. case r of
        Some ip \<Rightarrow> ret (Some ip)
      | None \<Rightarrow> seq (printf (cstr ''ialloc: no inodes\<newline>'') []) (ret None)))"

definition dinode_of :: "inode \<Rightarrow> dinode" where
  "dinode_of r = \<lparr>di_type = i_type r, di_major = i_major r, di_minor = i_minor r,
     di_nlink = i_nlink r, di_size = i_size r, di_addrs = i_addrs r\<rparr>"

definition iupdate :: "nat \<Rightarrow> (unit, 'z fss_scheme) km" where
  "iupdate ip =
     bind (gets fs_sb) (\<lambda>sb.
     bind (iget_f ip id) (\<lambda>r.
     bind (bread (i_dev r) (IBLOCK (i_inum r) sb)) (\<lambda>bp.
     bind (iget_f ip id) (\<lambda>r.
     seq (set_bdata bp (\<lambda>d. put_dinode d (dinode_off (i_inum r)) (dinode_of r)))
     (seq (log_write bp)
     (brelse bp))))))"

definition idup :: "nat \<Rightarrow> (nat, 'z fss_scheme) km" where
  "idup ip =
     seq (acquire ItableLock)
     (seq (imod ip (\<lambda>r. r\<lparr>i_ref := i_ref r + 1\<rparr>))
     (seq (release ItableLock) (ret ip)))"

text \<open>Reading an inode from the disk.\<close>

definition iload :: "nat \<Rightarrow> (unit, 'z fss_scheme) km" where
  "iload ip =
     bind (gets fs_sb) (\<lambda>sb.
     bind (iget_f ip id) (\<lambda>r.
     bind (bread (i_dev r) (IBLOCK (i_inum r) sb)) (\<lambda>bp.
     bind (bdata bp) (\<lambda>d.
     let dip = get_dinode d (dinode_off (i_inum r)) in
     seq (imod ip (\<lambda>r. r\<lparr>i_type := di_type dip, i_major := di_major dip, i_minor := di_minor dip,
            i_nlink := di_nlink dip, i_size := di_size dip, i_addrs := di_addrs dip\<rparr>))
     (seq (brelse bp)
     (seq (imod ip (\<lambda>r. r\<lparr>i_valid := True\<rparr>))
     (if di_type dip = 0 then panic ''ilock: no type'' else ret ())))))))"

definition ilock :: "nat option \<Rightarrow> (unit, 'z fss_scheme) km" where
  "ilock ipp =
     (case ipp of None \<Rightarrow> panic ''ilock''
      | Some ip \<Rightarrow>
          bind (iget_f ip i_ref) (\<lambda>n.
          if n < 1 then panic ''ilock''
          else seq (acquiresleep (InodeLock ip))
            (bind (iget_f ip i_valid) (\<lambda>v. whenk (\<not> v) (iload ip)))))"

definition iunlock :: "nat option \<Rightarrow> (unit, 'z fss_scheme) km" where
  "iunlock ipp =
     (case ipp of None \<Rightarrow> panic ''iunlock''
      | Some ip \<Rightarrow>
          bind (holdingsleep (InodeLock ip)) (\<lambda>h.
          bind (iget_f ip i_ref) (\<lambda>n.
          if \<not> h \<or> n < 1 then panic ''iunlock''
          else releasesleep (InodeLock ip))))"

text \<open>Freeing the block that an entry of \<^verbatim>\<open>addrs\<close> names.\<close>

definition itrunc_direct :: "nat \<Rightarrow> nat \<Rightarrow> (unit, 'z fss_scheme) km" where
  "itrunc_direct ip i =
     bind (iget_f ip id) (\<lambda>r.
     whenk (i_addrs r i \<noteq> 0)
       (seq (bfree (i_dev r) (i_addrs r i))
       (imod ip (\<lambda>r. r\<lparr>i_addrs := (i_addrs r)(i := 0)\<rparr>))))"

definition itrunc_indirect :: "nat \<Rightarrow> (unit, 'z fss_scheme) km" where
  "itrunc_indirect ip =
     bind (iget_f ip id) (\<lambda>r.
     whenk (i_addrs r NDIRECT \<noteq> 0)
       (bind (bread (i_dev r) (i_addrs r NDIRECT)) (\<lambda>bp.
        seq (forall_do [0..<NINDIRECT] (\<lambda>j.
          bind (bdata bp) (\<lambda>d.
          whenk (load32 d (4 * j) \<noteq> 0) (bfree (i_dev r) (load32 d (4 * j))))))
        (seq (brelse bp)
        (seq (bfree (i_dev r) (i_addrs r NDIRECT))
        (imod ip (\<lambda>r. r\<lparr>i_addrs := (i_addrs r)(NDIRECT := 0)\<rparr>)))))))"

definition itrunc :: "nat \<Rightarrow> (unit, 'z fss_scheme) km" where
  "itrunc ip =
     seq (forall_do [0..<NDIRECT] (itrunc_direct ip))
     (seq (itrunc_indirect ip)
     (seq (imod ip (\<lambda>r. r\<lparr>i_size := 0\<rparr>))
     (iupdate ip)))"

definition iput :: "nat \<Rightarrow> (unit, 'z fss_scheme) km" where
  "iput ip =
     seq (acquire ItableLock)
     (bind (iget_f ip id) (\<lambda>r.
      seq (whenk (i_ref r = 1 \<and> i_valid r \<and> i_nlink r = 0)
        (seq (acquiresleep (InodeLock ip))
        (seq (release ItableLock)
        (seq (itrunc ip)
        (seq (imod ip (\<lambda>r. r\<lparr>i_type := 0\<rparr>))
        (seq (iupdate ip)
        (seq (imod ip (\<lambda>r. r\<lparr>i_valid := False\<rparr>))
        (seq (releasesleep (InodeLock ip))
        (acquire ItableLock)))))))))
      (seq (imod ip (\<lambda>r. r\<lparr>i_ref := i_ref r - 1\<rparr>))
      (release ItableLock))))"

definition iunlockput :: "nat \<Rightarrow> (unit, 'z fss_scheme) km" where
  "iunlockput ip = seq (iunlock (Some ip)) (iput ip)"

end
