(* ===== verification/Fsdata.thy ===== *)
theory Fsdata
  imports Fs
begin

text \<open>
  fs.c, second part: the blocks of a file, \<^verbatim>\<open>readi\<close> and \<^verbatim>\<open>writei\<close>, directories and path names.
  \<^verbatim>\<open>readi\<close> into a local variable of the kernel returns the bytes with the count.
\<close>

section \<open>Inode content\<close>

definition bmap_indirect :: "nat \<Rightarrow> nat \<Rightarrow> u32 \<Rightarrow> (u32, 'z fss_scheme) km" where
  "bmap_indirect ip bn addr =
     bind (iget_f ip i_dev) (\<lambda>dev.
     bind (bread dev addr) (\<lambda>bp.
     bind (bdata bp) (\<lambda>d.
     bind (if load32 d (4 * bn) \<noteq> 0 then ret (load32 d (4 * bn))
           else bind (balloc dev) (\<lambda>addr.
             seq (whenk (addr \<noteq> 0)
               (seq (set_bdata bp (\<lambda>d. store32 d (4 * bn) addr)) (log_write bp)))
             (ret addr)))
       (\<lambda>addr. seq (brelse bp) (ret addr)))))"

text \<open>The entry of \<^verbatim>\<open>addrs\<close>, with a block allocated for it if it has none.\<close>

definition addr_or_alloc :: "nat \<Rightarrow> nat \<Rightarrow> (u32, 'z fss_scheme) km" where
  "addr_or_alloc ip i =
     bind (iget_f ip id) (\<lambda>r.
     if i_addrs r i \<noteq> 0 then ret (i_addrs r i)
     else bind (balloc (i_dev r)) (\<lambda>addr.
       if addr = 0 then ret 0
       else seq (imod ip (\<lambda>r. r\<lparr>i_addrs := (i_addrs r)(i := addr)\<rparr>)) (ret addr)))"

definition bmap :: "nat \<Rightarrow> nat \<Rightarrow> (u32, 'z fss_scheme) km" where
  "bmap ip bn =
     (if bn < NDIRECT then addr_or_alloc ip bn
      else if bn - NDIRECT < NINDIRECT then
        bind (addr_or_alloc ip NDIRECT) (\<lambda>addr.
        if addr = 0 then ret 0 else bmap_indirect ip (bn - NDIRECT) addr)
      else panic ''bmap: out of range'')"

record stat =
  st_dev :: u32
  st_ino :: u32
  st_type :: u16
  st_nlink :: u16
  st_size :: u64

definition stati :: "nat \<Rightarrow> (stat, 'z fss_scheme) km" where
  "stati ip = iget_f ip (\<lambda>r. \<lparr>st_dev = i_dev r, st_ino = i_inum r, st_type = i_type r,
     st_nlink = i_nlink r, st_size = ucast (i_size r)\<rparr>)"

text \<open>Each turn of the two loops handles at least one byte, so \<open>n + 1\<close> turns are enough.\<close>

definition readi :: "nat \<Rightarrow> dest \<Rightarrow> u32 \<Rightarrow> u32 \<Rightarrow> (u32 \<times> u8 list, 'z fss_scheme) km" where
  "readi ip dst off n =
     bind (iget_f ip i_size) (\<lambda>size.
     if off > size \<or> off + n < off then ret (0, [])
     else
       let n = (if off + n > size then size - off else n) in
       loop (unat n + 1) (\<lambda>(tot, off, dst, acc).
         if \<not> tot < n then ret (Inr (tot, acc))
         else
           bind (bmap ip (unat off div BSIZE)) (\<lambda>addr.
           if addr = 0 then ret (Inr (tot, acc))
           else
             bind (iget_f ip i_dev) (\<lambda>dev.
             bind (bread dev addr) (\<lambda>bp.
             let m = min (unat (n - tot)) (BSIZE - unat off mod BSIZE) in
             bind (bdata bp) (\<lambda>d.
             let bs = rd d (unat off mod BSIZE) m in
             bind (either_copyout dst bs) (\<lambda>r.
             if r = -1 then seq (brelse bp) (ret (Inr (-1, acc)))
             else seq (brelse bp)
               (ret (Inl (tot + of_nat m, off + of_nat m, dest_add dst m, acc @ bs)))))))))
         (0, off, dst, []))"

definition writei :: "nat \<Rightarrow> source \<Rightarrow> u32 \<Rightarrow> u32 \<Rightarrow> (u32, 'z fss_scheme) km" where
  "writei ip src off n =
     bind (iget_f ip i_size) (\<lambda>size.
     if off > size \<or> off + n < off then ret (-1)
     else if unat (off + n) > MAXFILE * BSIZE then ret (-1)
     else
       bind (loop (unat n + 1) (\<lambda>(tot, off, src).
         if \<not> tot < n then ret (Inr (tot, off))
         else
           bind (bmap ip (unat off div BSIZE)) (\<lambda>addr.
           if addr = 0 then ret (Inr (tot, off))
           else
             bind (iget_f ip i_dev) (\<lambda>dev.
             bind (bread dev addr) (\<lambda>bp.
             let m = min (unat (n - tot)) (BSIZE - unat off mod BSIZE) in
             bind (either_copyin src m) (\<lambda>(r, bs).
             seq (set_bdata bp (\<lambda>d. wr d (unat off mod BSIZE) bs))
             (if r = -1 then seq (brelse bp) (ret (Inr (tot, off)))
              else seq (log_write bp)
                (seq (brelse bp)
                (ret (Inl (tot + of_nat m, off + of_nat m, source_add src m))))))))))
         (0, off, src))
       (\<lambda>(tot, off).
         bind (iget_f ip i_size) (\<lambda>size.
         seq (whenk (off > size) (imod ip (\<lambda>r. r\<lparr>i_size := off\<rparr>)))
         (seq (iupdate ip)
         (ret tot)))))"

section \<open>Directories\<close>

definition namecmp :: "u8 list \<Rightarrow> u8 list \<Rightarrow> int" where
  "namecmp s t = strncmp s t DIRSIZ"

text \<open>The number of entries a directory has room for.\<close>

definition dir_slots :: "u32 \<Rightarrow> nat" where
  "dir_slots sz = (unat sz + sizeof_dirent - 1) div sizeof_dirent"

text \<open>The result is the inode and the offset of the entry.\<close>

definition dirlookup :: "nat \<Rightarrow> u8 list \<Rightarrow> ((nat \<times> u32) option, 'z fss_scheme) km" where
  "dirlookup dp name =
     bind (iget_f dp id) (\<lambda>d.
     if i_type d \<noteq> T_DIR then panic ''dirlookup not DIR''
     else for_until [0..<dir_slots (i_size d)] (\<lambda>k.
       let off = of_nat (k * sizeof_dirent) in
       bind (readi dp KernBuf off (of_nat sizeof_dirent)) (\<lambda>(r, bs).
       if unat r \<noteq> sizeof_dirent then panic ''dirlookup read''
       else
         let de = get_dirent bs in
         if de_inum de = 0 then ret None
         else if namecmp name (de_name de) = 0
         then bind (iget (i_dev d) (ucast (de_inum de))) (\<lambda>ip. ret (Some (ip, off)))
         else ret None)))"

definition dirlink :: "nat \<Rightarrow> u8 list \<Rightarrow> u32 \<Rightarrow> (int, 'z fss_scheme) km" where
  "dirlink dp name inum =
     bind (dirlookup dp name) (\<lambda>f.
     case f of
       Some (ip, _) \<Rightarrow> seq (iput ip) (ret (-1))
     | None \<Rightarrow>
         bind (iget_f dp i_size) (\<lambda>size.
         bind (for_until [0..<dir_slots size] (\<lambda>k.
           let off = of_nat (k * sizeof_dirent) in
           bind (readi dp KernBuf off (of_nat sizeof_dirent)) (\<lambda>(r, bs).
           if unat r \<noteq> sizeof_dirent then panic ''dirlink read''
           else if de_inum (get_dirent bs) = 0 then ret (Some off)
           else ret None)))
         (\<lambda>slot.
           let off = (case slot of Some off \<Rightarrow> off | None \<Rightarrow> of_nat (dir_slots size * sizeof_dirent));
               de = \<lparr>de_inum = ucast inum, de_name = strncpy name DIRSIZ\<rparr> in
           bind (writei dp (KernFrom (put_dirent de)) off (of_nat sizeof_dirent)) (\<lambda>r.
           if unat r \<noteq> sizeof_dirent then ret (-1) else ret 0))))"

section \<open>Paths\<close>

definition SLASH :: u8 where "SLASH = 0x2f"

text \<open>The next element of a path (at most \<open>DIRSIZ\<close> bytes of it) and the rest of the path; \<open>None\<close>
  when there is no element.\<close>

definition skipelem :: "u8 list \<Rightarrow> (u8 list \<times> u8 list) option" where
  "skipelem path =
     (let p = dropWhile (\<lambda>c. c = SLASH) path in
      if deref p = 0 then None
      else
        let elem = takeWhile (\<lambda>c. c \<noteq> SLASH \<and> c \<noteq> 0) p;
            rest = dropWhile (\<lambda>c. c \<noteq> SLASH \<and> c \<noteq> 0) p in
        Some (if length elem \<ge> DIRSIZ then take DIRSIZ elem else elem,
              dropWhile (\<lambda>c. c = SLASH) rest))"

text \<open>Each turn consumes a byte of the path.\<close>

definition namex :: "u8 list \<Rightarrow> bool \<Rightarrow> ((nat \<times> u8 list) option, 'z fss_scheme) km" where
  "namex path parent =
     bind (if deref path = SLASH then iget ROOTDEV ROOTINO
           else bind curproc (\<lambda>p. bind (pget p p_cwd) (\<lambda>cwd.
             case cwd of None \<Rightarrow> panic ''kerneltrap'' | Some ip \<Rightarrow> idup ip)))
     (\<lambda>ip0.
       loop (length path + 1) (\<lambda>(ip, path, name).
         case skipelem path of
           None \<Rightarrow>
             if parent then seq (iput ip) (ret (Inr None))
             else ret (Inr (Some (ip, name)))
         | Some (name, path) \<Rightarrow>
             seq (ilock (Some ip))
             (bind (iget_f ip i_type) (\<lambda>type.
              if type \<noteq> T_DIR then seq (iunlockput ip) (ret (Inr None))
              else if parent \<and> deref path = 0
              then seq (iunlock (Some ip)) (ret (Inr (Some (ip, name))))
              else
                bind (dirlookup ip name) (\<lambda>f.
                case f of
                  None \<Rightarrow> seq (iunlockput ip) (ret (Inr None))
                | Some (nxt, _) \<Rightarrow> seq (iunlockput ip) (ret (Inl (nxt, path, name)))))))
         (ip0, path, []))"

definition namei :: "u8 list \<Rightarrow> (nat option, 'z fss_scheme) km" where
  "namei path = bind (namex path False) (\<lambda>r. ret (map_option fst r))"

definition nameiparent :: "u8 list \<Rightarrow> ((nat \<times> u8 list) option, 'z fss_scheme) km" where
  "nameiparent path = namex path True"

end
