(* ===== verification/Pipe.thy ===== *)
theory Pipe
  imports Fsdata
begin

text \<open>
  pipe.c without \<^verbatim>\<open>pipealloc\<close>: a ring of \<open>PIPESIZE\<close> bytes with free-running counters. A pipe is named
  by the address of its page. A process that must wait sleeps and runs the loop again.
\<close>

definition PIPESIZE :: nat where "PIPESIZE = 512"

record pipe =
  pi_data :: "nat \<Rightarrow> u8"
  pi_nread :: u32
  pi_nwrite :: u32
  pi_readopen :: bool
  pi_writeopen :: bool

record pipes = fss +
  pipetab :: "u64 \<Rightarrow> pipe"

definition pi_get :: "u64 \<Rightarrow> (pipe \<Rightarrow> 'a) \<Rightarrow> ('a, 'z pipes_scheme) km" where
  [km_simps]: "pi_get pi f = gets (\<lambda>s. f (pipetab s pi))"

definition pi_mod :: "u64 \<Rightarrow> (pipe \<Rightarrow> pipe) \<Rightarrow> (unit, 'z pipes_scheme) km" where
  [km_simps]: "pi_mod pi f = modify (\<lambda>s. s\<lparr>pipetab := (pipetab s)(pi := f (pipetab s pi))\<rparr>)"

definition pipeclose :: "u64 \<Rightarrow> bool \<Rightarrow> (unit, 'z pipes_scheme) km" where
  "pipeclose pi writable =
     seq (acquire (PipeLock pi))
     (seq (if writable
           then seq (pi_mod pi (\<lambda>r. r\<lparr>pi_writeopen := False\<rparr>)) (wakeup (ChanPipeRead pi))
           else seq (pi_mod pi (\<lambda>r. r\<lparr>pi_readopen := False\<rparr>)) (wakeup (ChanPipeWrite pi)))
     (bind (pi_get pi id) (\<lambda>r.
      if \<not> pi_readopen r \<and> \<not> pi_writeopen r
      then seq (release (PipeLock pi)) (kfree pi)
      else release (PipeLock pi))))"

text \<open>The ring: putting a byte at the write counter and taking one from the read counter.\<close>

definition pi_put :: "u8 \<Rightarrow> pipe \<Rightarrow> pipe" where
  "pi_put c r = r\<lparr>pi_data := (pi_data r)(unat (pi_nwrite r) mod PIPESIZE := c),
     pi_nwrite := pi_nwrite r + 1\<rparr>"

definition pi_peek :: "pipe \<Rightarrow> u8" where
  "pi_peek r = pi_data r (unat (pi_nread r) mod PIPESIZE)"

definition pi_take :: "pipe \<Rightarrow> pipe" where
  "pi_take r = r\<lparr>pi_nread := pi_nread r + 1\<rparr>"

definition pi_empty :: "pipe \<Rightarrow> bool" where
  "pi_empty r \<longleftrightarrow> pi_nread r = pi_nwrite r"

definition pi_full :: "pipe \<Rightarrow> bool" where
  "pi_full r \<longleftrightarrow> pi_nwrite r = pi_nread r + of_nat PIPESIZE"

text \<open>The loop of \<^verbatim>\<open>pipewrite\<close> from byte \<open>i\<close> on, run by process \<open>pr\<close>. A turn writes a byte or is the
  last one.\<close>

definition pipewrite_turn :: "u64 \<Rightarrow> nat \<Rightarrow> u64 \<Rightarrow> int \<Rightarrow> int \<Rightarrow> (int + int option, 'z pipes_scheme) km" where
  "pipewrite_turn pi pr addr n i =
     (if \<not> i < n then ret (Inr (Some i))
      else
        bind (pi_get pi pi_readopen) (\<lambda>ro.
        bind (if ro then killed pr else ret True) (\<lambda>stop.
        if stop then seq (release (PipeLock pi)) (ret (Inr None))
        else
          bind (pi_get pi pi_full) (\<lambda>full.
          if full then
            seq (wakeup (ChanPipeRead pi))
            (seq (sleep (ChanPipeWrite pi) (PipeLock pi)) (ret (Inl i)))
          else
            bind (pget pr p_pagetable) (\<lambda>pt.
            bind (copyin pt (addr + word_of_int i) 1) (\<lambda>(r, bs).
            if r = -1 then ret (Inr (Some i))
            else seq (pi_mod pi (pi_put (deref bs))) (ret (Inl (i + 1)))))))))"

definition pipewrite_loop :: "u64 \<Rightarrow> nat \<Rightarrow> u64 \<Rightarrow> int \<Rightarrow> int \<Rightarrow> (int, 'z pipes_scheme) km" where
  "pipewrite_loop pi pr addr n i =
     bind (loop (nat (n - i) + 1) (pipewrite_turn pi pr addr n) i) (\<lambda>r.
     case r of
       None \<Rightarrow> ret (-1)
     | Some i \<Rightarrow>
         seq (wakeup (ChanPipeRead pi))
         (seq (release (PipeLock pi)) (ret i)))"

definition pipewrite :: "u64 \<Rightarrow> u64 \<Rightarrow> int \<Rightarrow> (int, 'z pipes_scheme) km" where
  "pipewrite pi addr n =
     bind curproc (\<lambda>pr.
     seq (acquire (PipeLock pi))
     (pipewrite_loop pi pr addr n 0))"

text \<open>The copying loop of \<^verbatim>\<open>piperead\<close>.\<close>

definition piperead_turn :: "u64 \<Rightarrow> nat \<Rightarrow> u64 \<Rightarrow> nat \<Rightarrow> (int option, 'z pipes_scheme) km" where
  "piperead_turn pi pr addr i =
     bind (pi_get pi pi_empty) (\<lambda>empty.
     if empty then ret (Some (int i))
     else
       bind (pi_get pi pi_peek) (\<lambda>ch.
       seq (pi_mod pi pi_take)
       (bind (pget pr p_pagetable) (\<lambda>pt.
        bind (copyout pt (addr + of_nat i) [ch]) (\<lambda>r.
        if r = -1 then ret (Some (int i)) else ret None)))))"

definition piperead_copy :: "u64 \<Rightarrow> nat \<Rightarrow> u64 \<Rightarrow> int \<Rightarrow> (int, 'z pipes_scheme) km" where
  "piperead_copy pi pr addr n =
     bind (for_until [0..<nat n] (piperead_turn pi pr addr)) (\<lambda>r.
     ret (case r of Some i \<Rightarrow> i | None \<Rightarrow> max 0 n))"

definition piperead_loop :: "u64 \<Rightarrow> nat \<Rightarrow> u64 \<Rightarrow> int \<Rightarrow> (int, 'z pipes_scheme) km" where
  "piperead_loop pi pr addr n =
     bind (pi_get pi (\<lambda>r. pi_empty r \<and> pi_writeopen r)) (\<lambda>wait.
     if wait then
       bind (killed pr) (\<lambda>k.
       if k then seq (release (PipeLock pi)) (ret (-1))
       else seq (sleep (ChanPipeRead pi) (PipeLock pi)) (ret (-1)))
     else
       bind (piperead_copy pi pr addr n) (\<lambda>i.
       seq (wakeup (ChanPipeWrite pi))
       (seq (release (PipeLock pi)) (ret i))))"

definition piperead :: "u64 \<Rightarrow> u64 \<Rightarrow> int \<Rightarrow> (int, 'z pipes_scheme) km" where
  "piperead pi addr n =
     bind curproc (\<lambda>pr.
     seq (acquire (PipeLock pi))
     (piperead_loop pi pr addr n))"

end
