(* ===== verification/File.thy ===== *)
theory File
  imports Pipe
begin

text \<open>
  file.c with \<^verbatim>\<open>pipealloc\<close> of pipe.c: the table of open files. A file is named by its index in the
  table.
\<close>

datatype fdtype = FD_NONE | FD_PIPE | FD_INODE | FD_DEVICE

record kfile =
  f_type :: fdtype
  f_ref :: int
  f_readable :: bool
  f_writable :: bool
  f_pipe :: u64
  f_ip :: "nat option"
  f_off :: u32
  f_major :: u16

record files = pipes +
  ftable :: "nat \<Rightarrow> kfile"

definition fget :: "nat \<Rightarrow> (kfile \<Rightarrow> 'a) \<Rightarrow> ('a, 'z files_scheme) km" where
  [km_simps]: "fget f g = gets (\<lambda>s. g (ftable s f))"

definition fmod :: "nat \<Rightarrow> (kfile \<Rightarrow> kfile) \<Rightarrow> (unit, 'z files_scheme) km" where
  [km_simps]: "fmod f g = modify (\<lambda>s. s\<lparr>ftable := (ftable s)(f := g (ftable s f))\<rparr>)"

definition fileinit :: "(unit, 'z files_scheme) km" where
  "fileinit = initlock FtableLock ''ftable''"

definition filealloc :: "(nat option, 'z files_scheme) km" where
  "filealloc =
     seq (acquire FtableLock)
     (bind (for_until [0..<NFILE] (\<lambda>f.
        bind (fget f f_ref) (\<lambda>n.
        if n = 0 then seq (fmod f (\<lambda>r. r\<lparr>f_ref := 1\<rparr>))
            (seq (release FtableLock) (ret (Some f)))
        else ret None)))
     (\<lambda>r. case r of
        Some f \<Rightarrow> ret (Some f)
      | None \<Rightarrow> seq (release FtableLock) (ret None)))"

definition filedup :: "nat \<Rightarrow> (nat, 'z files_scheme) km" where
  "filedup f =
     seq (acquire FtableLock)
     (bind (fget f f_ref) (\<lambda>n.
      if n < 1 then panic ''filedup''
      else seq (fmod f (\<lambda>r. r\<lparr>f_ref := f_ref r + 1\<rparr>))
        (seq (release FtableLock) (ret f))))"

text \<open>The inode of a file that must have one.\<close>

definition iput_ptr :: "nat option \<Rightarrow> (unit, 'z fss_scheme) km" where
  "iput_ptr ipp = (case ipp of None \<Rightarrow> panic ''kerneltrap'' | Some ip \<Rightarrow> iput ip)"

definition fileclose :: "nat \<Rightarrow> (unit, 'z files_scheme) km" where
  "fileclose f =
     seq (acquire FtableLock)
     (bind (fget f f_ref) (\<lambda>n.
      if n < 1 then panic ''fileclose''
      else
        seq (fmod f (\<lambda>r. r\<lparr>f_ref := f_ref r - 1\<rparr>))
        (if n - 1 > 0 then release FtableLock
         else
           bind (fget f id) (\<lambda>ff.
           seq (fmod f (\<lambda>r. r\<lparr>f_ref := 0, f_type := FD_NONE\<rparr>))
           (seq (release FtableLock)
           (if f_type ff = FD_PIPE then pipeclose (f_pipe ff) (f_writable ff)
            else if f_type ff = FD_INODE \<or> f_type ff = FD_DEVICE then
              seq begin_op
              (seq (iput_ptr (f_ip ff))
              end_op)
            else ret ()))))))"

text \<open>The bytes of \<^verbatim>\<open>struct stat\<close>; C leaves the four bytes of padding before \<^verbatim>\<open>size\<close> unspecified,
  here they are zero.\<close>

definition stat_bytes :: "stat \<Rightarrow> u8 list" where
  "stat_bytes st = le_bytes 4 (st_dev st) @ le_bytes 4 (st_ino st) @ le_bytes 2 (st_type st) @
     le_bytes 2 (st_nlink st) @ replicate 4 0 @ le_bytes 8 (st_size st)"

definition ip_ptr :: "nat option \<Rightarrow> nat" where
  "ip_ptr ipp = (case ipp of Some ip \<Rightarrow> ip | None \<Rightarrow> 0)"

definition filestat :: "nat \<Rightarrow> u64 \<Rightarrow> (int, 'z files_scheme) km" where
  "filestat f addr =
     bind curproc (\<lambda>p.
     bind (fget f id) (\<lambda>r.
     if f_type r = FD_INODE \<or> f_type r = FD_DEVICE then
       seq (ilock (f_ip r))
       (bind (stati (ip_ptr (f_ip r))) (\<lambda>st.
        seq (iunlock (f_ip r))
        (bind (pget p p_pagetable) (\<lambda>pt.
         bind (copyout pt addr (stat_bytes st)) (\<lambda>x.
         if x < 0 then ret (-1) else ret 0)))))
     else ret (-1)))"

text \<open>A call through a pointer of the device switch.\<close>

definition dev_read :: "devfn \<Rightarrow> u64 \<Rightarrow> int \<Rightarrow> (int, 'z conss_scheme) km" where
  "dev_read fn addr n =
     (case fn of ConsoleRead \<Rightarrow> consoleread (UserTo addr) n
      | ConsoleWrite \<Rightarrow> consolewrite (UserFrom addr) n)"

definition devsw_of :: "(devsw \<Rightarrow> devfn option) \<Rightarrow> u16 \<Rightarrow> 'z conss_scheme \<Rightarrow> devfn option" where
  "devsw_of sel m s =
     (if sint m < 0 \<or> sint m \<ge> int NDEV then None else sel (devsw s (unat m)))"

definition fileread :: "nat \<Rightarrow> u64 \<Rightarrow> int \<Rightarrow> (int, 'z files_scheme) km" where
  "fileread f addr n =
     bind (fget f id) (\<lambda>r.
     if \<not> f_readable r then ret (-1)
     else case f_type r of
       FD_PIPE \<Rightarrow> piperead (f_pipe r) addr n
     | FD_DEVICE \<Rightarrow>
         bind (gets (devsw_of dv_read (f_major r))) (\<lambda>d.
         case d of None \<Rightarrow> ret (-1) | Some fn \<Rightarrow> dev_read fn addr n)
     | FD_INODE \<Rightarrow>
         seq (ilock (f_ip r))
         (bind (fget f f_off) (\<lambda>off.
          bind (readi (ip_ptr (f_ip r)) (UserTo addr) off (word_of_int n)) (\<lambda>(x, _).
          seq (whenk (0 <s x) (fmod f (\<lambda>r. r\<lparr>f_off := f_off r + x\<rparr>)))
          (seq (iunlock (f_ip r))
          (ret (sint x))))))
     | FD_NONE \<Rightarrow> panic ''fileread'')"

definition FILEWRITE_MAX :: int where
  "FILEWRITE_MAX = ((int MAXOPBLOCKS - 1 - 1 - 2) div 2) * int BSIZE"

text \<open>One transaction of \<^verbatim>\<open>filewrite\<close>: a chunk of at most \<open>FILEWRITE_MAX\<close> bytes.\<close>

definition filewrite_chunk :: "nat \<Rightarrow> u64 \<Rightarrow> int \<Rightarrow> (int, 'z files_scheme) km" where
  "filewrite_chunk f addr n1 =
     seq begin_op
     (bind (fget f f_ip) (\<lambda>ipp.
      seq (ilock ipp)
      (bind (fget f f_off) (\<lambda>off.
       bind (writei (ip_ptr ipp) (UserFrom addr) off (word_of_int n1)) (\<lambda>x.
       seq (whenk (0 <s x) (fmod f (\<lambda>r. r\<lparr>f_off := f_off r + x\<rparr>)))
       (seq (iunlock ipp)
       (seq end_op
       (ret (sint x)))))))))"

text \<open>Each turn but the last writes at least one byte.\<close>

definition filewrite_loop :: "nat \<Rightarrow> u64 \<Rightarrow> int \<Rightarrow> int \<Rightarrow> (int, 'z files_scheme) km" where
  "filewrite_loop f addr n i =
     loop (nat (n - i) + 1) (\<lambda>i.
       if \<not> i < n then ret (Inr i)
       else
         let n1 = min (n - i) FILEWRITE_MAX in
         bind (filewrite_chunk f (addr + word_of_int i) n1) (\<lambda>x.
         if x \<noteq> n1 then ret (Inr i) else ret (Inl (i + x)))) i"

definition filewrite :: "nat \<Rightarrow> u64 \<Rightarrow> int \<Rightarrow> (int, 'z files_scheme) km" where
  "filewrite f addr n =
     bind (fget f id) (\<lambda>r.
     if \<not> f_writable r then ret (-1)
     else case f_type r of
       FD_PIPE \<Rightarrow> pipewrite (f_pipe r) addr n
     | FD_DEVICE \<Rightarrow>
         bind (gets (devsw_of dv_write (f_major r))) (\<lambda>d.
         case d of None \<Rightarrow> ret (-1) | Some fn \<Rightarrow> dev_read fn addr n)
     | FD_INODE \<Rightarrow>
         bind (filewrite_loop f addr n 0) (\<lambda>i. ret (if i = n then n else -1))
     | FD_NONE \<Rightarrow> panic ''filewrite'')"

text \<open>\<^verbatim>\<open>pipealloc\<close>; the label \<^verbatim>\<open>bad\<close> with what has been allocated when it is reached.\<close>

definition pipealloc_bad :: "u64 \<Rightarrow> nat option \<Rightarrow> nat option \<Rightarrow> ((nat \<times> nat) option, 'z files_scheme) km" where
  "pipealloc_bad pi f0 f1 =
     seq (whenk (pi \<noteq> 0) (kfree pi))
     (seq (case f0 of Some f \<Rightarrow> fileclose f | None \<Rightarrow> ret ())
     (seq (case f1 of Some f \<Rightarrow> fileclose f | None \<Rightarrow> ret ())
     (ret None)))"

definition pipealloc :: "((nat \<times> nat) option, 'z files_scheme) km" where
  "pipealloc =
     bind filealloc (\<lambda>f0. case f0 of None \<Rightarrow> pipealloc_bad 0 None None
     | Some a \<Rightarrow> bind filealloc (\<lambda>f1. case f1 of None \<Rightarrow> pipealloc_bad 0 (Some a) None
       | Some b \<Rightarrow> bind kalloc (\<lambda>pi.
         if pi = 0 then pipealloc_bad 0 (Some a) (Some b)
         else
           seq (pi_mod pi (\<lambda>r. r\<lparr>pi_readopen := True, pi_writeopen := True, pi_nwrite := 0, pi_nread := 0\<rparr>))
           (seq (initlock (PipeLock pi) ''pipe'')
           (seq (fmod a (\<lambda>r. r\<lparr>f_type := FD_PIPE, f_readable := True, f_writable := False, f_pipe := pi\<rparr>))
           (seq (fmod b (\<lambda>r. r\<lparr>f_type := FD_PIPE, f_readable := False, f_writable := True, f_pipe := pi\<rparr>))
           (ret (Some (a, b)))))))))"

end
