(* ===== verification/Procsys.thy ===== *)
theory Procsys
  imports File
begin

text \<open>
  proc.c, second part: the routines that use open files and the file system: the first process,
  \<^verbatim>\<open>fork\<close>, \<^verbatim>\<open>exit\<close> and \<^verbatim>\<open>wait\<close>.
\<close>

definition initcode :: "u8 list" where
  "initcode = [
     0x17, 0x05, 0x00, 0x00, 0x13, 0x05, 0x45, 0x02,
     0x97, 0x05, 0x00, 0x00, 0x93, 0x85, 0x35, 0x02,
     0x93, 0x08, 0x70, 0x00, 0x73, 0x00, 0x00, 0x00,
     0x93, 0x08, 0x20, 0x00, 0x73, 0x00, 0x00, 0x00,
     0xef, 0xf0, 0x9f, 0xff, 0x2f, 0x69, 0x6e, 0x69,
     0x74, 0x00, 0x00, 0x24, 0x00, 0x00, 0x00, 0x00,
     0x00, 0x00, 0x00, 0x00]"

text \<open>\<^verbatim>\<open>safestrcpy\<close> into the name of a process: the bytes after the terminating zero stay.\<close>

definition NAMELEN :: nat where "NAMELEN = 16"

definition copy_name :: "u8 list \<Rightarrow> u8 list \<Rightarrow> u8 list" where
  "copy_name src old = (let w = safestrcpy src NAMELEN in w @ drop (length w) old)"

definition userinit :: "(unit, 'z files_scheme) km" where
  "userinit =
     bind allocproc (\<lambda>pp.
     seq (modify (\<lambda>s. s\<lparr>initproc := pp\<rparr>))
     (case pp of
        None \<Rightarrow> panic ''kerneltrap''
      | Some p \<Rightarrow>
          bind (pget p p_pagetable) (\<lambda>pt.
          seq (uvmfirst pt initcode (of_nat (length initcode)))
          (seq (pmod p (\<lambda>r. r\<lparr>p_sz := PGSIZE\<rparr>))
          (seq (tf_set p TF_epc 0)
          (seq (tf_set p TF_sp PGSIZE)
          (seq (pmod p (\<lambda>r. r\<lparr>p_name := copy_name (cstr ''initcode'') (p_name r)\<rparr>))
          (bind (namei (cstr ''/'')) (\<lambda>ip.
           seq (pmod p (\<lambda>r. r\<lparr>p_cwd := ip\<rparr>))
           (seq (pmod p (\<lambda>r. r\<lparr>p_state := RUNNABLE\<rparr>))
           (release (ProcLock p))))))))))))"

definition idup_ptr :: "nat option \<Rightarrow> (nat option, 'z fss_scheme) km" where
  "idup_ptr ipp = (case ipp of None \<Rightarrow> panic ''kerneltrap'' | Some ip \<Rightarrow> bind (idup ip) (\<lambda>ip. ret (Some ip)))"

definition fork_files :: "nat \<Rightarrow> nat \<Rightarrow> (unit, 'z files_scheme) km" where
  "fork_files p np = forall_do [0..<NOFILE] (\<lambda>i.
     bind (pget p p_ofile) (\<lambda>fs.
     case fs i of
       None \<Rightarrow> ret ()
     | Some f \<Rightarrow> bind (filedup f) (\<lambda>f.
         pmod np (\<lambda>r. r\<lparr>p_ofile := (p_ofile r)(i := Some f)\<rparr>))))"

definition fork :: "(int, 'z files_scheme) km" where
  "fork =
     bind curproc (\<lambda>p.
     bind allocproc (\<lambda>npp.
     case npp of
       None \<Rightarrow> ret (-1)
     | Some np \<Rightarrow>
         bind (pget p id) (\<lambda>r.
         bind (pget np p_pagetable) (\<lambda>npt.
         bind (uvmcopy (p_pagetable r) npt (p_sz r)) (\<lambda>x.
         if x < 0 then seq (freeproc np) (seq (release (ProcLock np)) (ret (-1)))
         else
           seq (pmod np (\<lambda>q. q\<lparr>p_sz := p_sz r\<rparr>))
           (bind (pget np p_trapframe) (\<lambda>ntf.
            seq (on_mem (\<lambda>m. wr m (unat ntf) (rd m (unat (p_trapframe r)) TF_SIZE)))
            (seq (tf_set np TF_a0 0)
            (seq (fork_files p np)
            (bind (pget p p_cwd) (\<lambda>cwd.
             bind (idup_ptr cwd) (\<lambda>cwd'.
             seq (pmod np (\<lambda>q. q\<lparr>p_cwd := cwd'\<rparr>))
             (seq (pmod np (\<lambda>q. q\<lparr>p_name := copy_name (p_name r) (p_name q)\<rparr>))
             (bind (pget np p_pid) (\<lambda>pid.
              seq (release (ProcLock np))
              (seq (acquire WaitLock)
              (seq (pmod np (\<lambda>q. q\<lparr>p_parent := Some p\<rparr>))
              (seq (release WaitLock)
              (seq (acquire (ProcLock np))
              (seq (pmod np (\<lambda>q. q\<lparr>p_state := RUNNABLE\<rparr>))
              (seq (release (ProcLock np))
              (ret (sint pid)))))))))))))))))))))))"

definition wakeup_proc :: "nat option \<Rightarrow> (unit, 'z procs_scheme) km" where
  "wakeup_proc pp = wakeup_at (map_option ChanProc pp)"

definition reparent :: "nat \<Rightarrow> (unit, 'z procs_scheme) km" where
  "reparent p = forall_do [0..<NPROC] (\<lambda>pp.
     bind (pget pp p_parent) (\<lambda>par.
     whenk (par = Some p)
       (bind (gets initproc) (\<lambda>ini.
        seq (pmod pp (\<lambda>r. r\<lparr>p_parent := ini\<rparr>))
        (wakeup_proc ini)))))"

definition exit_files :: "nat \<Rightarrow> (unit, 'z files_scheme) km" where
  "exit_files p = forall_do [0..<NOFILE] (\<lambda>fd.
     bind (pget p p_ofile) (\<lambda>fs.
     case fs fd of
       None \<Rightarrow> ret ()
     | Some f \<Rightarrow> seq (fileclose f)
         (pmod p (\<lambda>r. r\<lparr>p_ofile := (p_ofile r)(fd := None)\<rparr>))))"

definition exit :: "u32 \<Rightarrow> (unit, 'z files_scheme) km" where
  "exit status =
     bind curproc (\<lambda>p.
     bind (gets initproc) (\<lambda>ini.
     if Some p = ini then panic ''init exiting''
     else
       seq (exit_files p)
       (seq begin_op
       (bind (pget p p_cwd) (\<lambda>cwd.
        seq (iput_ptr cwd)
        (seq end_op
        (seq (pmod p (\<lambda>r. r\<lparr>p_cwd := None\<rparr>))
        (seq (acquire WaitLock)
        (seq (reparent p)
        (bind (pget p p_parent) (\<lambda>par.
         seq (wakeup_proc par)
         (seq (acquire (ProcLock p))
         (seq (pmod p (\<lambda>r. r\<lparr>p_xstate := status, p_state := ZOMBIE\<rparr>))
         (seq (release WaitLock)
         (seq sched
         (panic ''zombie exit''))))))))))))))))"

text \<open>The scan of \<^verbatim>\<open>wait\<close>: a result if it found a zombie.\<close>

definition wait_scan :: "nat \<Rightarrow> u64 \<Rightarrow> (int option, 'z files_scheme) km" where
  "wait_scan p addr = for_until [0..<NPROC] (\<lambda>pp.
     bind (pget pp p_parent) (\<lambda>par.
     if par \<noteq> Some p then ret None
     else
       seq (acquire (ProcLock pp))
       (bind (pget pp id) (\<lambda>r.
        if p_state r = ZOMBIE then
          bind (pget p p_pagetable) (\<lambda>pt.
          bind (if addr \<noteq> 0 then copyout pt addr (le_bytes 4 (p_xstate r)) else ret 0) (\<lambda>x.
          if x < 0 then
            seq (release (ProcLock pp)) (seq (release WaitLock) (ret (Some (-1))))
          else
            seq (freeproc pp)
            (seq (release (ProcLock pp))
            (seq (release WaitLock) (ret (Some (sint (p_pid r))))))))
        else seq (release (ProcLock pp)) (ret None)))))"

definition wait_loop :: "nat \<Rightarrow> u64 \<Rightarrow> (int, 'z files_scheme) km" where
  "wait_loop p addr =
     bind (wait_scan p addr) (\<lambda>r.
     case r of
       Some x \<Rightarrow> ret x
     | None \<Rightarrow>
         bind (gets (\<lambda>s. list_ex (\<lambda>pp. p_parent (proctab s pp) = Some p) [0..<NPROC])) (\<lambda>havekids.
         bind (if havekids then killed p else ret True) (\<lambda>stop.
         if stop then seq (release WaitLock) (ret (-1))
         else seq (sleep (ChanProc p) WaitLock) (ret (-1)))))"

definition wait :: "u64 \<Rightarrow> (int, 'z files_scheme) km" where
  "wait addr =
     bind curproc (\<lambda>p.
     seq (acquire WaitLock)
     (wait_loop p addr))"

end
