(* ===== verification/Exec.thy ===== *)
theory Exec
  imports Procsys
begin

text \<open>
  exec.c and elf.h: loading a program. The ELF structures are decoded from the bytes that
  \<^verbatim>\<open>readi\<close> returns; \<^verbatim>\<open>argv\<close> is the list of the addresses of the argument strings in the kernel.
\<close>

definition ELF_MAGIC :: u32 where "ELF_MAGIC = 0x464C457F"
definition ELF_PROG_LOAD :: u32 where "ELF_PROG_LOAD = 1"

record elfhdr =
  eh_magic :: u32
  eh_elf :: "u8 list"
  eh_type :: u16
  eh_machine :: u16
  eh_version :: u32
  eh_entry :: u64
  eh_phoff :: u64
  eh_shoff :: u64
  eh_flags :: u32
  eh_ehsize :: u16
  eh_phentsize :: u16
  eh_phnum :: u16
  eh_shentsize :: u16
  eh_shnum :: u16
  eh_shstrndx :: u16

record proghdr =
  ph_type :: u32
  ph_flags :: u32
  ph_off :: u64
  ph_vaddr :: u64
  ph_paddr :: u64
  ph_filesz :: u64
  ph_memsz :: u64
  ph_align :: u64

definition sizeof_elfhdr :: nat where "sizeof_elfhdr = 64"
definition sizeof_proghdr :: nat where "sizeof_proghdr = 56"

definition field :: "nat \<Rightarrow> nat \<Rightarrow> u8 list \<Rightarrow> 'a::len word" where
  "field off n bs = le_word (take n (drop off bs))"

definition get_elfhdr :: "u8 list \<Rightarrow> elfhdr" where
  "get_elfhdr bs =
     \<lparr>eh_magic = field 0 4 bs, eh_elf = take 12 (drop 4 bs), eh_type = field 16 2 bs,
      eh_machine = field 18 2 bs, eh_version = field 20 4 bs, eh_entry = field 24 8 bs,
      eh_phoff = field 32 8 bs, eh_shoff = field 40 8 bs, eh_flags = field 48 4 bs,
      eh_ehsize = field 52 2 bs, eh_phentsize = field 54 2 bs, eh_phnum = field 56 2 bs,
      eh_shentsize = field 58 2 bs, eh_shnum = field 60 2 bs, eh_shstrndx = field 62 2 bs\<rparr>"

definition get_proghdr :: "u8 list \<Rightarrow> proghdr" where
  "get_proghdr bs =
     \<lparr>ph_type = field 0 4 bs, ph_flags = field 4 4 bs, ph_off = field 8 8 bs,
      ph_vaddr = field 16 8 bs, ph_paddr = field 24 8 bs, ph_filesz = field 32 8 bs,
      ph_memsz = field 40 8 bs, ph_align = field 48 8 bs\<rparr>"

definition flags2perm :: "u32 \<Rightarrow> u64" where
  "flags2perm flags =
     (let perm = (if flags AND 0x1 \<noteq> 0 then PTE_X else 0) in
      if flags AND 0x2 \<noteq> 0 then perm OR PTE_W else perm)"

definition loadseg :: "u64 \<Rightarrow> u64 \<Rightarrow> nat \<Rightarrow> u32 \<Rightarrow> u32 \<Rightarrow> (int, 'z fss_scheme) km" where
  "loadseg pagetable va ip offset sz =
     bind (for_until [0..<(unat sz + 4095) div 4096] (\<lambda>k.
       let i = of_nat (k * 4096) in
       bind (walkaddr pagetable (va + ucast (i :: u32))) (\<lambda>pa.
       if pa = 0 then panic ''loadseg: address should exist''
       else
         let n = (if sz - i < ucast PGSIZE then sz - i else ucast PGSIZE) in
         bind (readi ip (KernTo pa) (offset + i) n) (\<lambda>(r, _).
         if r \<noteq> n then ret (Some (-1)) else ret None))))
     (\<lambda>r. ret (case r of Some x \<Rightarrow> x | None \<Rightarrow> 0))"

text \<open>The loop over the program headers: whether it ended well, and the size reached.\<close>

definition exec_load :: "nat \<Rightarrow> elfhdr \<Rightarrow> u64 \<Rightarrow> (bool \<times> u64, 'z fss_scheme) km" where
  "exec_load ip elf pagetable =
     loop (unat (eh_phnum elf) + 1) (\<lambda>(i, off, sz).
       if \<not> i < unat (eh_phnum elf) then ret (Inr (True, sz))
       else
         bind (readi ip KernBuf off (of_nat sizeof_proghdr)) (\<lambda>(r, bs).
         let ph = get_proghdr bs; next = (\<lambda>sz. Inl (i + 1, off + of_nat sizeof_proghdr, sz)) in
         if unat r \<noteq> sizeof_proghdr then ret (Inr (False, sz))
         else if ph_type ph \<noteq> ELF_PROG_LOAD then ret (next sz)
         else if ph_memsz ph < ph_filesz ph then ret (Inr (False, sz))
         else if ph_vaddr ph + ph_memsz ph < ph_vaddr ph then ret (Inr (False, sz))
         else if ph_vaddr ph mod PGSIZE \<noteq> 0 then ret (Inr (False, sz))
         else
           bind (uvmalloc pagetable sz (ph_vaddr ph + ph_memsz ph) (flags2perm (ph_flags ph))) (\<lambda>sz1.
           if sz1 = 0 then ret (Inr (False, sz))
           else
             bind (loadseg pagetable (ph_vaddr ph) ip (ucast (ph_off ph)) (ucast (ph_filesz ph))) (\<lambda>x.
             if x < 0 then ret (Inr (False, sz1)) else ret (next sz1)))))
       (0, ucast (eh_phoff elf), 0)"

text \<open>The C string at an address of the kernel; the argument strings lie in a page each.\<close>

definition str_at :: "bytes \<Rightarrow> nat \<Rightarrow> u8 list" where
  "str_at m a = takeWhile (\<lambda>c. c \<noteq> 0) (rd m a 4096)"

definition align16 :: "u64 \<Rightarrow> u64" where
  "align16 sp = sp - sp mod 16"

text \<open>Pushing the argument strings: the stack pointer and the addresses of the strings, or \<open>None\<close>.\<close>

definition exec_push :: "u64 \<Rightarrow> u64 \<Rightarrow> u64 \<Rightarrow> u64 list \<Rightarrow> ((u64 \<times> u64 list) option, 'z fss_scheme) km" where
  "exec_push pagetable stackbase sp argv =
     loop (length argv + 1) (\<lambda>(argv, sp, ustack).
       case argv of
         [] \<Rightarrow> ret (Inr (Some (sp, ustack)))
       | a # rest \<Rightarrow>
           if length ustack \<ge> MAXARG then ret (Inr None)
           else
             bind (gets (\<lambda>s. str_at (mem s) (unat a))) (\<lambda>str.
             let sp' = align16 (sp - of_nat (length str + 1)) in
             if sp' < stackbase then ret (Inr None)
             else
               bind (copyout pagetable sp' (str @ [0])) (\<lambda>r.
               if r < 0 then ret (Inr None) else ret (Inl (rest, sp', ustack @ [sp']))))) (argv, sp, [])"

text \<open>The label \<^verbatim>\<open>bad\<close>.\<close>

definition exec_bad :: "u64 \<Rightarrow> u64 \<Rightarrow> nat option \<Rightarrow> (int, 'z files_scheme) km" where
  "exec_bad pagetable sz ipp =
     seq (whenk (pagetable \<noteq> 0) (proc_freepagetable pagetable sz))
     (seq (case ipp of None \<Rightarrow> ret () | Some ip \<Rightarrow> seq (iunlockput ip) end_op)
     (ret (-1)))"

text \<open>The part of a path after its last slash.\<close>

definition last_elem :: "u8 list \<Rightarrow> u8 list" where
  "last_elem path = rev (takeWhile (\<lambda>c. c \<noteq> SLASH) (rev (takeWhile (\<lambda>c. c \<noteq> 0) path)))"

text \<open>Commit to the new image: registers, name, page table and size; the old image is freed.\<close>

definition exec_commit ::
  "nat \<Rightarrow> u64 \<Rightarrow> u64 \<Rightarrow> u64 \<Rightarrow> u64 \<Rightarrow> u8 list \<Rightarrow> u64 \<Rightarrow> (unit, 'z files_scheme) km" where
  "exec_commit p pagetable sz entry sp path oldsz =
     seq (tf_set p TF_a1 sp)
     (seq (pmod p (\<lambda>r. r\<lparr>p_name := copy_name (last_elem path) (p_name r)\<rparr>))
     (bind (pget p p_pagetable) (\<lambda>oldpagetable.
      seq (pmod p (\<lambda>r. r\<lparr>p_pagetable := pagetable, p_sz := sz\<rparr>))
      (seq (tf_set p TF_epc entry)
      (seq (tf_set p TF_sp sp)
      (proc_freepagetable oldpagetable oldsz))))))"

text \<open>The stack of the new image and the commit.\<close>

definition exec_stack :: "u64 \<Rightarrow> u64 \<Rightarrow> u64 \<Rightarrow> u8 list \<Rightarrow> u64 list \<Rightarrow> (int, 'z files_scheme) km" where
  "exec_stack pagetable sz entry path argv =
     bind curproc (\<lambda>p.
     bind (pget p p_sz) (\<lambda>oldsz.
     let sz = PGROUNDUP sz in
     bind (uvmalloc pagetable sz (sz + 2 * PGSIZE) PTE_W) (\<lambda>sz1.
     if sz1 = 0 then exec_bad pagetable sz None
     else
       seq (uvmclear pagetable (sz1 - 2 * PGSIZE))
       (let stackbase = sz1 - PGSIZE in
        bind (exec_push pagetable stackbase sz1 argv) (\<lambda>x.
        case x of
          None \<Rightarrow> exec_bad pagetable sz1 None
        | Some (sp, ustack) \<Rightarrow>
            let sp = align16 (sp - of_nat ((length ustack + 1) * 8)) in
            if sp < stackbase then exec_bad pagetable sz1 None
            else
              bind (copyout pagetable sp (concat (map (le_bytes 8) (ustack @ [0])))) (\<lambda>r.
              if r < 0 then exec_bad pagetable sz1 None
              else seq (exec_commit p pagetable sz1 entry sp path oldsz)
                (ret (int (length ustack)))))))))"

definition exec :: "u8 list \<Rightarrow> u64 list \<Rightarrow> (int, 'z files_scheme) km" where
  "exec path argv =
     bind curproc (\<lambda>p.
     seq begin_op
     (bind (namei path) (\<lambda>ipp.
      case ipp of
        None \<Rightarrow> seq end_op (ret (-1))
      | Some ip \<Rightarrow>
          seq (ilock (Some ip))
          (bind (readi ip KernBuf 0 (of_nat sizeof_elfhdr)) (\<lambda>(r, bs).
           let elf = get_elfhdr bs in
           if unat r \<noteq> sizeof_elfhdr then exec_bad 0 0 (Some ip)
           else if eh_magic elf \<noteq> ELF_MAGIC then exec_bad 0 0 (Some ip)
           else
             bind (proc_pagetable p) (\<lambda>pagetable.
             if pagetable = 0 then exec_bad 0 0 (Some ip)
             else
               bind (exec_load ip elf pagetable) (\<lambda>(ok, sz).
               if \<not> ok then exec_bad pagetable sz (Some ip)
               else
                 seq (iunlockput ip)
                 (seq end_op
                 (exec_stack pagetable sz (eh_entry elf) path argv)))))))))"

end
