(* ===== verification/Syscall.thy ===== *)
theory Syscall
  imports Exec
begin

text \<open>
  syscall.c without the dispatch, and sysfile.c: fetching the arguments of system calls from the
  trap frame and the user memory, and the system calls of the file system.
\<close>

section \<open>Arguments\<close>

definition fetchaddr :: "u64 \<Rightarrow> (int \<times> u64, 'z procs_scheme) km" where
  "fetchaddr addr =
     bind curproc (\<lambda>p.
     bind (pget p id) (\<lambda>r.
     if addr \<ge> p_sz r \<or> addr + 8 > p_sz r then ret (-1, 0)
     else bind (copyin (p_pagetable r) addr 8) (\<lambda>(x, bs).
       if x \<noteq> 0 then ret (-1, 0) else ret (0, le_word bs))))"

text \<open>The bytes stored in the buffer come with the result.\<close>

definition fetchstr :: "u64 \<Rightarrow> nat \<Rightarrow> (int \<times> u8 list, 'z procs_scheme) km" where
  "fetchstr addr mx =
     bind curproc (\<lambda>p.
     bind (pget p p_pagetable) (\<lambda>pt.
     bind (copyinstr pt addr mx) (\<lambda>(x, bs).
     if x < 0 then ret (-1, bs) else ret (int (strlen bs), bs))))"

definition argraw :: "nat \<Rightarrow> (u64, 'z procs_scheme) km" where
  "argraw n =
     bind curproc (\<lambda>p.
     if n < 6 then tf_get p (TF_a0 + 8 * n) else panic ''argraw'')"

definition argint :: "nat \<Rightarrow> (u32, 'z procs_scheme) km" where
  "argint n = bind (argraw n) (\<lambda>x. ret (ucast x))"

definition argaddr :: "nat \<Rightarrow> (u64, 'z procs_scheme) km" where
  "argaddr n = argraw n"

definition argstr :: "nat \<Rightarrow> nat \<Rightarrow> (int \<times> u8 list, 'z procs_scheme) km" where
  "argstr n mx = bind (argaddr n) (\<lambda>addr. fetchstr addr mx)"

text \<open>A path argument, as a string without its zero byte.\<close>

definition argpath :: "nat \<Rightarrow> (u8 list option, 'z procs_scheme) km" where
  "argpath n = bind (argstr n MAXPATH) (\<lambda>(x, bs).
     ret (if x < 0 then None else Some (takeWhile (\<lambda>c. c \<noteq> 0) bs)))"

section \<open>File descriptors\<close>

definition argfd :: "nat \<Rightarrow> ((nat \<times> nat) option, 'z procs_scheme) km" where
  "argfd n =
     bind (argint n) (\<lambda>fd.
     if fd <s 0 \<or> \<not> sint fd < int NOFILE then ret None
     else bind curproc (\<lambda>p. bind (pget p p_ofile) (\<lambda>ofile.
       ret (map_option (\<lambda>f. (unat fd, f)) (ofile (unat fd))))))"

definition set_ofile :: "nat \<Rightarrow> nat \<Rightarrow> nat option \<Rightarrow> (unit, 'z procs_scheme) km" where
  [km_simps]: "set_ofile p fd f = pmod p (\<lambda>r. r\<lparr>p_ofile := (p_ofile r)(fd := f)\<rparr>)"

definition fdalloc :: "nat \<Rightarrow> (nat option, 'z procs_scheme) km" where
  "fdalloc f =
     bind curproc (\<lambda>p.
     for_until [0..<NOFILE] (\<lambda>fd.
       bind (pget p p_ofile) (\<lambda>ofile.
       if ofile fd = None then seq (set_ofile p fd (Some f)) (ret (Some fd)) else ret None)))"

definition sys_dup :: "(u64, 'z files_scheme) km" where
  "sys_dup =
     bind (argfd 0) (\<lambda>x. case x of None \<Rightarrow> ret (-1)
     | Some (_, f) \<Rightarrow> bind (fdalloc f) (\<lambda>y. case y of None \<Rightarrow> ret (-1)
       | Some fd \<Rightarrow> seq (filedup f) (ret (of_nat fd))))"

definition sys_read :: "(u64, 'z files_scheme) km" where
  "sys_read =
     bind (argaddr 1) (\<lambda>p.
     bind (argint 2) (\<lambda>n.
     bind (argfd 0) (\<lambda>x. case x of None \<Rightarrow> ret (-1)
     | Some (_, f) \<Rightarrow> bind (fileread f p (sint n)) (\<lambda>r. ret (word_of_int r)))))"

definition sys_write :: "(u64, 'z files_scheme) km" where
  "sys_write =
     bind (argaddr 1) (\<lambda>p.
     bind (argint 2) (\<lambda>n.
     bind (argfd 0) (\<lambda>x. case x of None \<Rightarrow> ret (-1)
     | Some (_, f) \<Rightarrow> bind (filewrite f p (sint n)) (\<lambda>r. ret (word_of_int r)))))"

definition sys_close :: "(u64, 'z files_scheme) km" where
  "sys_close =
     bind (argfd 0) (\<lambda>x. case x of None \<Rightarrow> ret (-1)
     | Some (fd, f) \<Rightarrow>
         bind curproc (\<lambda>p.
         seq (set_ofile p fd None)
         (seq (fileclose f)
         (ret 0))))"

definition sys_fstat :: "(u64, 'z files_scheme) km" where
  "sys_fstat =
     bind (argaddr 1) (\<lambda>st.
     bind (argfd 0) (\<lambda>x. case x of None \<Rightarrow> ret (-1)
     | Some (_, f) \<Rightarrow> bind (filestat f st) (\<lambda>r. ret (word_of_int r))))"

section \<open>Links and directories\<close>

text \<open>The label \<^verbatim>\<open>bad\<close> of \<^verbatim>\<open>sys_link\<close>.\<close>

definition link_bad :: "nat \<Rightarrow> (u64, 'z files_scheme) km" where
  "link_bad ip =
     seq (ilock (Some ip))
     (seq (imod ip (\<lambda>r. r\<lparr>i_nlink := i_nlink r - 1\<rparr>))
     (seq (iupdate ip)
     (seq (iunlockput ip)
     (seq end_op
     (ret (-1))))))"

definition link_enter :: "nat \<Rightarrow> nat \<Rightarrow> u8 list \<Rightarrow> (u64, 'z files_scheme) km" where
  "link_enter ip dp name =
     seq (ilock (Some dp))
     (bind (iget_f dp i_dev) (\<lambda>dd.
      bind (iget_f ip id) (\<lambda>r.
      bind (if dd \<noteq> i_dev r then ret (-1) else dirlink dp name (i_inum r)) (\<lambda>x.
      if x < 0 then seq (iunlockput dp) (link_bad ip)
      else
        seq (iunlockput dp)
        (seq (iput ip)
        (seq end_op
        (ret 0)))))))"

definition sys_link :: "(u64, 'z files_scheme) km" where
  "sys_link =
     bind (argpath 0) (\<lambda>oldp. case oldp of None \<Rightarrow> ret (-1) | Some old \<Rightarrow>
     bind (argpath 1) (\<lambda>newp. case newp of None \<Rightarrow> ret (-1) | Some new \<Rightarrow>
     seq begin_op
     (bind (namei old) (\<lambda>ipp.
      case ipp of None \<Rightarrow> seq end_op (ret (-1))
      | Some ip \<Rightarrow>
          seq (ilock (Some ip))
          (bind (iget_f ip i_type) (\<lambda>ty.
           if ty = T_DIR then seq (iunlockput ip) (seq end_op (ret (-1)))
           else
             seq (imod ip (\<lambda>r. r\<lparr>i_nlink := i_nlink r + 1\<rparr>))
             (seq (iupdate ip)
             (seq (iunlock (Some ip))
             (bind (nameiparent new) (\<lambda>dpp.
              case dpp of None \<Rightarrow> link_bad ip
              | Some (dp, name) \<Rightarrow> link_enter ip dp name))))))))))"

definition isdirempty :: "nat \<Rightarrow> (bool, 'z fss_scheme) km" where
  "isdirempty dp =
     bind (iget_f dp i_size) (\<lambda>sz.
     bind (for_until [2..<dir_slots sz] (\<lambda>k.
       bind (readi dp KernBuf (of_nat (k * sizeof_dirent)) (of_nat sizeof_dirent)) (\<lambda>(r, bs).
       if unat r \<noteq> sizeof_dirent then panic ''isdirempty: readi''
       else if de_inum (get_dirent bs) \<noteq> 0 then ret (Some False)
       else ret None)))
     (\<lambda>r. ret (case r of Some b \<Rightarrow> b | None \<Rightarrow> True)))"

definition unlink_bad :: "nat \<Rightarrow> (u64, 'z files_scheme) km" where
  "unlink_bad dp = seq (iunlockput dp) (seq end_op (ret (-1)))"

text \<open>Removing the entry at \<open>off\<close>, whose inode \<open>ip\<close> is locked.\<close>

definition unlink_entry :: "nat \<Rightarrow> nat \<Rightarrow> u32 \<Rightarrow> (u64, 'z files_scheme) km" where
  "unlink_entry dp ip off =
     bind (writei dp (KernFrom (replicate sizeof_dirent 0)) off (of_nat sizeof_dirent)) (\<lambda>r.
     if unat r \<noteq> sizeof_dirent then panic ''unlink: writei''
     else
       bind (iget_f ip i_type) (\<lambda>ty.
       seq (whenk (ty = T_DIR)
         (seq (imod dp (\<lambda>r. r\<lparr>i_nlink := i_nlink r - 1\<rparr>)) (iupdate dp)))
       (seq (iunlockput dp)
       (seq (imod ip (\<lambda>r. r\<lparr>i_nlink := i_nlink r - 1\<rparr>))
       (seq (iupdate ip)
       (seq (iunlockput ip)
       (seq end_op
       (ret 0))))))))"

definition sys_unlink :: "(u64, 'z files_scheme) km" where
  "sys_unlink =
     bind (argpath 0) (\<lambda>pathp. case pathp of None \<Rightarrow> ret (-1) | Some path \<Rightarrow>
     seq begin_op
     (bind (nameiparent path) (\<lambda>dpp.
      case dpp of None \<Rightarrow> seq end_op (ret (-1))
      | Some (dp, name) \<Rightarrow>
          seq (ilock (Some dp))
          (if namecmp name (cstr ''.'') = 0 \<or> namecmp name (cstr ''..'') = 0 then unlink_bad dp
           else
             bind (dirlookup dp name) (\<lambda>f.
             case f of None \<Rightarrow> unlink_bad dp
             | Some (ip, off) \<Rightarrow>
                 seq (ilock (Some ip))
                 (bind (iget_f ip id) (\<lambda>r.
                  if sint (i_nlink r) < 1 then panic ''unlink: nlink < 1''
                  else
                    bind (if i_type r = T_DIR then isdirempty ip else ret True) (\<lambda>e.
                    if \<not> e then seq (iunlockput ip) (unlink_bad dp)
                    else unlink_entry dp ip off))))))))"

text \<open>The label \<^verbatim>\<open>fail\<close> of \<^verbatim>\<open>create\<close>.\<close>

definition create_fail :: "nat \<Rightarrow> nat \<Rightarrow> (nat option, 'z fss_scheme) km" where
  "create_fail ip dp =
     seq (imod ip (\<lambda>r. r\<lparr>i_nlink := 0\<rparr>))
     (seq (iupdate ip)
     (seq (iunlockput ip)
     (seq (iunlockput dp)
     (ret None))))"

text \<open>The new inode, locked, gets its contents and its name.\<close>

definition create_new :: "nat \<Rightarrow> nat \<Rightarrow> u8 list \<Rightarrow> u16 \<Rightarrow> (nat option, 'z fss_scheme) km" where
  "create_new ip dp name type =
     bind (iget_f ip i_inum) (\<lambda>inum.
     bind (iget_f dp i_inum) (\<lambda>pinum.
     bind (if type = T_DIR
           then bind (dirlink ip (cstr ''.'') inum) (\<lambda>x.
             if x < 0 then ret x else dirlink ip (cstr ''..'') pinum)
           else ret 0) (\<lambda>x.
     if x < 0 then create_fail ip dp
     else
       bind (dirlink dp name inum) (\<lambda>x.
       if x < 0 then create_fail ip dp
       else
         seq (whenk (type = T_DIR)
           (seq (imod dp (\<lambda>r. r\<lparr>i_nlink := i_nlink r + 1\<rparr>)) (iupdate dp)))
         (seq (iunlockput dp)
         (ret (Some ip)))))))"

definition create :: "u8 list \<Rightarrow> u16 \<Rightarrow> u16 \<Rightarrow> u16 \<Rightarrow> (nat option, 'z fss_scheme) km" where
  "create path type major minor =
     bind (nameiparent path) (\<lambda>dpp.
     case dpp of None \<Rightarrow> ret None
     | Some (dp, name) \<Rightarrow>
         seq (ilock (Some dp))
         (bind (dirlookup dp name) (\<lambda>f.
          case f of
            Some (ip, _) \<Rightarrow>
              seq (iunlockput dp)
              (seq (ilock (Some ip))
              (bind (iget_f ip i_type) (\<lambda>ty.
               if type = T_FILE \<and> (ty = T_FILE \<or> ty = T_DEVICE) then ret (Some ip)
               else seq (iunlockput ip) (ret None))))
          | None \<Rightarrow>
              bind (iget_f dp i_dev) (\<lambda>dev.
              bind (ialloc dev type) (\<lambda>ipp.
              case ipp of None \<Rightarrow> seq (iunlockput dp) (ret None)
              | Some ip \<Rightarrow>
                  seq (ilock (Some ip))
                  (seq (imod ip (\<lambda>r. r\<lparr>i_major := major, i_minor := minor, i_nlink := 1\<rparr>))
                  (seq (iupdate ip)
                  (create_new ip dp name type))))))))"

end
