(* ===== verification/Sysfile.thy ===== *)
theory Sysfile
  imports Syscall
begin

text \<open>
  sysfile.c, second part: opening and creating files, the current directory, \<^verbatim>\<open>exec\<close> and pipes.
\<close>

definition O_RDONLY :: u32 where "O_RDONLY = 0x000"
definition O_WRONLY :: u32 where "O_WRONLY = 0x001"
definition O_RDWR :: u32 where "O_RDWR = 0x002"
definition O_CREATE :: u32 where "O_CREATE = 0x200"
definition O_TRUNC :: u32 where "O_TRUNC = 0x400"

text \<open>Giving up an open inode at the end of a failed call.\<close>

definition put_fail :: "nat \<Rightarrow> (u64, 'z files_scheme) km" where
  "put_fail ip = seq (iunlockput ip) (seq end_op (ret (-1)))"

text \<open>The locked inode of \<^verbatim>\<open>sys_open\<close>, or none if the call has failed.\<close>

definition open_inode :: "u8 list \<Rightarrow> u32 \<Rightarrow> (nat option, 'z files_scheme) km" where
  "open_inode path omode =
     (if omode AND O_CREATE \<noteq> 0 then
        bind (create path T_FILE 0 0) (\<lambda>ipp.
        case ipp of None \<Rightarrow> seq end_op (ret None) | Some ip \<Rightarrow> ret (Some ip))
      else
        bind (namei path) (\<lambda>ipp.
        case ipp of None \<Rightarrow> seq end_op (ret None)
        | Some ip \<Rightarrow>
            seq (ilock (Some ip))
            (bind (iget_f ip i_type) (\<lambda>ty.
             if ty = T_DIR \<and> omode \<noteq> O_RDONLY
             then seq (iunlockput ip) (seq end_op (ret None))
             else ret (Some ip)))))"

text \<open>Filling in the file structure.\<close>

definition open_file :: "nat \<Rightarrow> nat \<Rightarrow> u32 \<Rightarrow> (unit, 'z files_scheme) km" where
  "open_file f ip omode =
     bind (iget_f ip id) (\<lambda>r.
     seq (if i_type r = T_DEVICE
          then fmod f (\<lambda>x. x\<lparr>f_type := FD_DEVICE, f_major := i_major r\<rparr>)
          else fmod f (\<lambda>x. x\<lparr>f_type := FD_INODE, f_off := 0\<rparr>))
     (fmod f (\<lambda>x. x\<lparr>f_ip := Some ip, f_readable := (omode AND O_WRONLY = 0),
        f_writable := (omode AND O_WRONLY \<noteq> 0 \<or> omode AND O_RDWR \<noteq> 0)\<rparr>)))"

definition sys_open :: "(u64, 'z files_scheme) km" where
  "sys_open =
     bind (argint 1) (\<lambda>omode.
     bind (argpath 0) (\<lambda>pathp. case pathp of None \<Rightarrow> ret (-1) | Some path \<Rightarrow>
     seq begin_op
     (bind (open_inode path omode) (\<lambda>ipp. case ipp of None \<Rightarrow> ret (-1) | Some ip \<Rightarrow>
      bind (iget_f ip id) (\<lambda>r.
      if i_type r = T_DEVICE \<and> (sint (i_major r) < 0 \<or> sint (i_major r) \<ge> int NDEV)
      then put_fail ip
      else
        bind filealloc (\<lambda>fp. case fp of None \<Rightarrow> put_fail ip | Some f \<Rightarrow>
        bind (fdalloc f) (\<lambda>fdp. case fdp of None \<Rightarrow> seq (fileclose f) (put_fail ip) | Some fd \<Rightarrow>
        seq (open_file f ip omode)
        (seq (whenk (omode AND O_TRUNC \<noteq> 0 \<and> i_type r = T_FILE) (itrunc ip))
        (seq (iunlock (Some ip))
        (seq end_op
        (ret (of_nat fd))))))))))))"

definition sys_mkdir :: "(u64, 'z files_scheme) km" where
  "sys_mkdir =
     seq begin_op
     (bind (argpath 0) (\<lambda>pathp.
      bind (case pathp of None \<Rightarrow> ret None | Some path \<Rightarrow> create path T_DIR 0 0) (\<lambda>ipp.
      case ipp of None \<Rightarrow> seq end_op (ret (-1))
      | Some ip \<Rightarrow> seq (iunlockput ip) (seq end_op (ret 0)))))"

definition sys_mknod :: "(u64, 'z files_scheme) km" where
  "sys_mknod =
     seq begin_op
     (bind (argint 1) (\<lambda>major.
      bind (argint 2) (\<lambda>minor.
      bind (argpath 0) (\<lambda>pathp.
      bind (case pathp of None \<Rightarrow> ret None
            | Some path \<Rightarrow> create path T_DEVICE (ucast major) (ucast minor)) (\<lambda>ipp.
      case ipp of None \<Rightarrow> seq end_op (ret (-1))
      | Some ip \<Rightarrow> seq (iunlockput ip) (seq end_op (ret 0)))))))"

definition sys_chdir :: "(u64, 'z files_scheme) km" where
  "sys_chdir =
     bind curproc (\<lambda>p.
     seq begin_op
     (bind (argpath 0) (\<lambda>pathp.
      bind (case pathp of None \<Rightarrow> ret None | Some path \<Rightarrow> namei path) (\<lambda>ipp.
      case ipp of None \<Rightarrow> seq end_op (ret (-1))
      | Some ip \<Rightarrow>
          seq (ilock (Some ip))
          (bind (iget_f ip i_type) (\<lambda>ty.
           if ty \<noteq> T_DIR then put_fail ip
           else
             seq (iunlock (Some ip))
             (bind (pget p p_cwd) (\<lambda>cwd.
              seq (iput_ptr cwd)
              (seq end_op
              (seq (pmod p (\<lambda>r. r\<lparr>p_cwd := Some ip\<rparr>))
              (ret 0)))))))))))"

text \<open>The loop of \<^verbatim>\<open>sys_exec\<close>: whether it ended well, and the pages it has allocated. \<^verbatim>\<open>i\<close> is the
  number of these pages.\<close>

definition exec_args :: "u64 \<Rightarrow> (bool \<times> u64 list, 'z files_scheme) km" where
  "exec_args uargv =
     loop (MAXARG + 1) (\<lambda>argv.
       if length argv \<ge> MAXARG then ret (Inr (False, argv))
       else
         bind (fetchaddr (uargv + 8 * of_nat (length argv))) (\<lambda>(x, uarg).
         if x < 0 then ret (Inr (False, argv))
         else if uarg = 0 then ret (Inr (True, argv))
         else
           bind kalloc (\<lambda>page.
           if page = 0 then ret (Inr (False, argv))
           else
             bind (fetchstr uarg 4096) (\<lambda>(x, bs).
             seq (on_mem (\<lambda>m. wr m (unat page) bs))
             (if x < 0 then ret (Inr (False, argv @ [page]))
              else ret (Inl (argv @ [page]))))))) []"

definition sys_exec :: "(u64, 'z files_scheme) km" where
  "sys_exec =
     bind (argaddr 1) (\<lambda>uargv.
     bind (argpath 0) (\<lambda>pathp. case pathp of None \<Rightarrow> ret (-1) | Some path \<Rightarrow>
     bind (exec_args uargv) (\<lambda>(ok, argv).
     if ok then
       bind (exec path argv) (\<lambda>r.
       seq (forall_do argv kfree)
       (ret (word_of_int r)))
     else seq (forall_do argv kfree) (ret (-1)))))"

definition pipe_fail :: "nat \<Rightarrow> nat \<Rightarrow> (u64, 'z files_scheme) km" where
  "pipe_fail rfile wfile = seq (fileclose rfile) (seq (fileclose wfile) (ret (-1)))"

definition sys_pipe :: "(u64, 'z files_scheme) km" where
  "sys_pipe =
     bind curproc (\<lambda>p.
     bind (argaddr 0) (\<lambda>fdarray.
     bind pipealloc (\<lambda>x. case x of None \<Rightarrow> ret (-1) | Some (rfile, wfile) \<Rightarrow>
     bind (fdalloc rfile) (\<lambda>y. case y of None \<Rightarrow> pipe_fail rfile wfile | Some fd0 \<Rightarrow>
     bind (fdalloc wfile) (\<lambda>y. case y of
       None \<Rightarrow> seq (set_ofile p fd0 None) (pipe_fail rfile wfile)
     | Some fd1 \<Rightarrow>
         bind (pget p p_pagetable) (\<lambda>pt.
         bind (copyout pt fdarray (le_bytes 4 (of_nat fd0 :: u32))) (\<lambda>r0.
         bind (if r0 < 0 then ret r0
               else copyout pt (fdarray + 4) (le_bytes 4 (of_nat fd1 :: u32))) (\<lambda>r1.
         if r1 < 0 then
           seq (set_ofile p fd0 None)
           (seq (set_ofile p fd1 None)
           (pipe_fail rfile wfile))
         else ret 0))))))))"

end
