(* ===== verification/Trap.thy ===== *)
theory Trap
  imports Sysfile
begin

text \<open>
  sysproc.c, the dispatch of syscall.c, trap.c and plic.c: system calls, device interrupts and the
  clock. The registers of supervisor mode are kept per hart. The interrupt controller is not part
  of the program: what a read of a register returns is a function of the accesses before it. The
  assembly of the trampoline is outside the model; \<^verbatim>\<open>usertrapret\<close> returns the argument it is
  called with.
\<close>

record sregs =
  sr_stvec :: u64
  sr_sepc :: u64
  sr_scause :: u64
  sr_stval :: u64
  sr_sip :: u64

datatype pevent = PWrite u64 u32 | PRead u64

record traps = files +
  ticks :: u32
  sregs :: "nat \<Rightarrow> sregs"
  ptrace :: "pevent list"
  pdev :: "pevent list \<Rightarrow> u64 \<Rightarrow> u32"
  forkret_first :: bool
  started :: bool

definition sreg :: "(sregs \<Rightarrow> 'a) \<Rightarrow> ('a, 'z traps_scheme) km" where
  [km_simps]: "sreg f = gets (\<lambda>s. f (sregs s (tp (mach s))))"

definition set_sreg :: "(sregs \<Rightarrow> sregs) \<Rightarrow> (unit, 'z traps_scheme) km" where
  [km_simps]: "set_sreg f = modify (\<lambda>s. s\<lparr>sregs := (sregs s)(tp (mach s) := f (sregs s (tp (mach s))))\<rparr>)"

definition w_stvec :: "u64 \<Rightarrow> (unit, 'z traps_scheme) km" where
  [km_simps]: "w_stvec x = set_sreg (\<lambda>r. r\<lparr>sr_stvec := x\<rparr>)"

definition w_sepc :: "u64 \<Rightarrow> (unit, 'z traps_scheme) km" where
  [km_simps]: "w_sepc x = set_sreg (\<lambda>r. r\<lparr>sr_sepc := x\<rparr>)"

definition r_sepc :: "(u64, 'z traps_scheme) km" where
  [km_simps]: "r_sepc = sreg sr_sepc"

definition r_scause :: "(u64, 'z traps_scheme) km" where
  [km_simps]: "r_scause = sreg sr_scause"

definition r_stval :: "(u64, 'z traps_scheme) km" where
  [km_simps]: "r_stval = sreg sr_stval"

definition r_sip :: "(u64, 'z traps_scheme) km" where
  [km_simps]: "r_sip = sreg sr_sip"

definition w_sip :: "u64 \<Rightarrow> (unit, 'z traps_scheme) km" where
  [km_simps]: "w_sip x = set_sreg (\<lambda>r. r\<lparr>sr_sip := x\<rparr>)"

definition r_satp :: "(u64, 'z traps_scheme) km" where
  [km_simps]: "r_satp = gets (\<lambda>s. satp s (tp (mach s)))"

definition r_tp :: "(u64, 'z traps_scheme) km" where
  [km_simps]: "r_tp = gets (\<lambda>s. of_nat (tp (mach s)))"

section \<open>The interrupt controller\<close>

definition plic_write :: "u64 \<Rightarrow> u32 \<Rightarrow> (unit, 'z traps_scheme) km" where
  [km_simps]: "plic_write a v = modify (\<lambda>s. s\<lparr>ptrace := ptrace s @ [PWrite a v]\<rparr>)"

definition plicinit :: "(unit, 'z traps_scheme) km" where
  "plicinit =
     seq (plic_write (PLIC + of_nat UART0_IRQ * 4) 1)
     (plic_write (PLIC + of_nat VIRTIO0_IRQ * 4) 1)"

definition plicinithart :: "(unit, 'z traps_scheme) km" where
  "plicinithart =
     bind (gets (\<lambda>s. cpuid (mach s))) (\<lambda>hart.
     seq (plic_write (PLIC_SENABLE hart) (push_bit UART0_IRQ 1 OR push_bit VIRTIO0_IRQ 1))
     (plic_write (PLIC_SPRIORITY hart) 0))"

definition plic_claim :: "(u32, 'z traps_scheme) km" where
  "plic_claim =
     bind (gets (\<lambda>s. PLIC_SCLAIM (cpuid (mach s)))) (\<lambda>a.
     bind (gets (\<lambda>s. pdev s (ptrace s) a)) (\<lambda>irq.
     seq (modify (\<lambda>s. s\<lparr>ptrace := ptrace s @ [PRead a]\<rparr>))
     (ret irq)))"

definition plic_complete :: "u32 \<Rightarrow> (unit, 'z traps_scheme) km" where
  "plic_complete irq =
     bind (gets (\<lambda>s. PLIC_SCLAIM (cpuid (mach s)))) (\<lambda>a. plic_write a irq)"

section \<open>System calls of processes\<close>

definition sys_exit :: "(u64, 'z traps_scheme) km" where
  "sys_exit = bind (argint 0) (\<lambda>n. seq (exit n) (ret 0))"

definition sys_getpid :: "(u64, 'z traps_scheme) km" where
  "sys_getpid = bind curproc (\<lambda>p. bind (pget p p_pid) (\<lambda>pid. ret (scast pid)))"

definition sys_fork :: "(u64, 'z traps_scheme) km" where
  "sys_fork = bind fork (\<lambda>r. ret (word_of_int r))"

definition sys_wait :: "(u64, 'z traps_scheme) km" where
  "sys_wait = bind (argaddr 0) (\<lambda>p. bind (wait p) (\<lambda>r. ret (word_of_int r)))"

definition sys_sbrk :: "(u64, 'z traps_scheme) km" where
  "sys_sbrk =
     bind (argint 0) (\<lambda>n.
     bind curproc (\<lambda>p.
     bind (pget p p_sz) (\<lambda>addr.
     bind (growproc n) (\<lambda>r.
     if r < 0 then ret (-1) else ret addr))))"

text \<open>The loop of \<^verbatim>\<open>sys_sleep\<close>; \<^verbatim>\<open>ticks - ticks0 < n\<close> compares unsigned.\<close>

definition sys_sleep_loop :: "u32 \<Rightarrow> u32 \<Rightarrow> (u64, 'z traps_scheme) km" where
  "sys_sleep_loop n ticks0 =
     bind (gets ticks) (\<lambda>t.
     if t - ticks0 < n then
       bind curproc (\<lambda>p. bind (killed p) (\<lambda>k.
       if k then seq (release TicksLock) (ret (-1))
       else seq (sleep ChanTicks TicksLock) (ret 0)))
     else seq (release TicksLock) (ret 0))"

definition sys_sleep :: "(u64, 'z traps_scheme) km" where
  "sys_sleep =
     bind (argint 0) (\<lambda>n.
     seq (acquire TicksLock)
     (bind (gets ticks) (\<lambda>ticks0. sys_sleep_loop n ticks0)))"

definition sys_kill :: "(u64, 'z traps_scheme) km" where
  "sys_kill = bind (argint 0) (\<lambda>pid. bind (kill pid) (\<lambda>r. ret (word_of_int r)))"

definition sys_uptime :: "(u64, 'z traps_scheme) km" where
  "sys_uptime =
     seq (acquire TicksLock)
     (bind (gets ticks) (\<lambda>x.
      seq (release TicksLock)
      (ret (ucast x))))"

text \<open>The table of system calls (syscall.h).\<close>

definition syscalls :: "int \<Rightarrow> (u64, 'z traps_scheme) km option" where
  "syscalls num =
     (if num = 1 then Some sys_fork
      else if num = 2 then Some sys_exit
      else if num = 3 then Some sys_wait
      else if num = 4 then Some sys_pipe
      else if num = 5 then Some sys_read
      else if num = 6 then Some sys_kill
      else if num = 7 then Some sys_exec
      else if num = 8 then Some sys_fstat
      else if num = 9 then Some sys_chdir
      else if num = 10 then Some sys_dup
      else if num = 11 then Some sys_getpid
      else if num = 12 then Some sys_sbrk
      else if num = 13 then Some sys_sleep
      else if num = 14 then Some sys_uptime
      else if num = 15 then Some sys_open
      else if num = 16 then Some sys_write
      else if num = 17 then Some sys_mknod
      else if num = 18 then Some sys_unlink
      else if num = 19 then Some sys_link
      else if num = 20 then Some sys_mkdir
      else if num = 21 then Some sys_close
      else None)"

definition syscall :: "(unit, 'z traps_scheme) km" where
  "syscall =
     bind curproc (\<lambda>p.
     bind (tf_get p TF_a7) (\<lambda>a7.
     let num = ucast a7 :: u32 in
     case syscalls (sint num) of
       Some f \<Rightarrow> bind f (\<lambda>r. tf_set p TF_a0 r)
     | None \<Rightarrow>
         bind (pget p id) (\<lambda>r.
         seq (printf (cstr ''%d %s: unknown sys call %d\<newline>'')
                [PInt (p_pid r), PStr (Some (takeWhile (\<lambda>c. c \<noteq> 0) (p_name r))), PInt num])
         (tf_set p TF_a0 (-1)))))"

section \<open>Traps\<close>

definition SSTATUS_SPP :: u64 where "SSTATUS_SPP = push_bit 8 1"
definition SSTATUS_SPIE :: u64 where "SSTATUS_SPIE = push_bit 5 1"

definition trapinit :: "(unit, 'z traps_scheme) km" where
  "trapinit = initlock TicksLock ''time''"

definition trapinithart :: "(unit, 'z traps_scheme) km" where
  "trapinithart = bind (gets (\<lambda>s. kernelvec (syms s))) w_stvec"

definition clockintr :: "(unit, 'z traps_scheme) km" where
  "clockintr =
     seq (acquire TicksLock)
     (seq (modify (\<lambda>s. s\<lparr>ticks := ticks s + 1\<rparr>))
     (seq (wakeup ChanTicks)
     (release TicksLock)))"

definition devintr :: "(int, 'z traps_scheme) km" where
  "devintr =
     bind r_scause (\<lambda>scause.
     if scause AND 0x8000000000000000 \<noteq> 0 \<and> scause AND 0xff = 9 then
       bind plic_claim (\<lambda>irq.
       seq (if irq = of_nat UART0_IRQ then uartintr
            else if irq = of_nat VIRTIO0_IRQ then virtio_disk_intr
            else whenk (irq \<noteq> 0) (printf (cstr ''unexpected interrupt irq=%d\<newline>'') [PInt irq]))
       (seq (whenk (irq \<noteq> 0) (plic_complete irq))
       (ret 1)))
     else if scause = 0x8000000000000001 then
       bind (gets (\<lambda>s. cpuid (mach s))) (\<lambda>hart.
       seq (whenk (hart = 0) clockintr)
       (bind r_sip (\<lambda>x.
        seq (w_sip (x AND NOT 2))
        (ret 2))))
     else ret 0)"

definition usertrapret :: "(u64, 'z traps_scheme) km" where
  "usertrapret =
     bind curproc (\<lambda>p.
     seq (on_mach (modify intr_off))
     (bind (gets syms) (\<lambda>sy.
      seq (w_stvec (TRAMPOLINE + (uservec sy - trampoline sy)))
      (bind r_satp (\<lambda>ksatp.
       seq (tf_set p TF_kernel_satp ksatp)
       (bind (pget p p_kstack) (\<lambda>kstack.
        seq (tf_set p TF_kernel_sp (kstack + PGSIZE))
        (seq (tf_set p TF_kernel_trap (usertrap_addr sy))
        (bind r_tp (\<lambda>hart.
         seq (tf_set p TF_kernel_hartid hart)
         (bind (gets (\<lambda>s. r_sstatus (mach s))) (\<lambda>x.
          seq (on_mach (modify (w_sstatus ((x AND NOT SSTATUS_SPP) OR SSTATUS_SPIE))))
          (bind (tf_get p TF_epc) (\<lambda>epc.
           seq (w_sepc epc)
           (bind (pget p p_pagetable) (\<lambda>pt.
            ret (MAKE_SATP pt)))))))))))))))))"

text \<open>What \<^verbatim>\<open>usertrap\<close> does once the trap is handled; after a yield it goes on with
  \<^verbatim>\<open>usertrapret\<close>.\<close>

definition usertrap_end :: "nat \<Rightarrow> int \<Rightarrow> (u64, 'z traps_scheme) km" where
  "usertrap_end p which_dev =
     bind (killed p) (\<lambda>k.
     seq (whenk k (exit (-1)))
     (seq (whenk (which_dev = 2) yield)
     usertrapret))"

definition usertrap :: "(u64, 'z traps_scheme) km" where
  "usertrap =
     bind (gets (\<lambda>s. r_sstatus (mach s))) (\<lambda>st.
     if st AND SSTATUS_SPP \<noteq> 0 then panic ''usertrap: not from user mode''
     else
       bind (gets (\<lambda>s. kernelvec (syms s))) (\<lambda>k.
       seq (w_stvec k)
       (bind curproc (\<lambda>p.
        bind r_sepc (\<lambda>sepc.
        seq (tf_set p TF_epc sepc)
        (bind r_scause (\<lambda>scause.
         if scause = 8 then
           bind (killed p) (\<lambda>dead.
           seq (whenk dead (exit (-1)))
           (bind (tf_get p TF_epc) (\<lambda>epc.
            seq (tf_set p TF_epc (epc + 4))
            (seq (on_mach (modify intr_on))
            (seq syscall
            (usertrap_end p 0))))))
         else
           bind devintr (\<lambda>which_dev.
           if which_dev \<noteq> 0 then usertrap_end p which_dev
           else
             bind r_stval (\<lambda>stval.
             bind (pget p p_pid) (\<lambda>pid.
             seq (printf (cstr ''usertrap(): unexpected scause %p pid=%d\<newline>'') [PPtr scause, PInt pid])
             (seq (printf (cstr ''            sepc=%p stval=%p\<newline>'') [PPtr sepc, PPtr stval])
             (seq (setkilled p)
             (usertrap_end p 0)))))))))))))"

definition kerneltrap_end :: "u64 \<Rightarrow> u64 \<Rightarrow> (unit, 'z traps_scheme) km" where
  "kerneltrap_end sepc st =
     seq (w_sepc sepc)
     (on_mach (modify (w_sstatus st)))"

definition kerneltrap :: "(unit, 'z traps_scheme) km" where
  "kerneltrap =
     bind r_sepc (\<lambda>sepc.
     bind r_scause (\<lambda>scause.
     bind (gets (\<lambda>s. r_sstatus (mach s))) (\<lambda>st.
     if st AND SSTATUS_SPP = 0 then panic ''kerneltrap: not from supervisor mode''
     else
       bind (gets (\<lambda>s. intr_get (mach s))) (\<lambda>ie.
       if ie then panic ''kerneltrap: interrupts enabled''
       else
         bind devintr (\<lambda>which_dev.
         if which_dev = 0 then
           bind r_sepc (\<lambda>pc.
           bind r_stval (\<lambda>stval.
           seq (printf (cstr ''scause %p\<newline>'') [PPtr scause])
           (seq (printf (cstr ''sepc=%p stval=%p\<newline>'') [PPtr pc, PPtr stval])
           (panic ''kerneltrap''))))
         else
           bind (if which_dev = 2 then myproc else ret None) (\<lambda>mp.
           bind (case mp of None \<Rightarrow> ret False | Some p \<Rightarrow> pget p (\<lambda>q. p_state q = RUNNING)) (\<lambda>run.
           seq (whenk run yield)
           (kerneltrap_end sepc st))))))))"

text \<open>\<^verbatim>\<open>forkret\<close> of proc.c.\<close>

definition forkret :: "(u64, 'z traps_scheme) km" where
  "forkret =
     bind curproc (\<lambda>p.
     seq (release (ProcLock p))
     (bind (gets forkret_first) (\<lambda>first.
      seq (whenk first
        (seq (modify (\<lambda>s. s\<lparr>forkret_first := False\<rparr>))
        (fsinit ROOTDEV)))
      usertrapret)))"

end
