(* ===== verification/Boot.thy ===== *)
theory Boot
  imports Trap
begin

text \<open>
  start.c and main.c: the way of a hart from machine mode to the scheduler. The registers of
  machine mode that \<^verbatim>\<open>start\<close> sets up are a record of their own; the addresses of \<^verbatim>\<open>main\<close>,
  \<^verbatim>\<open>timervec\<close> and \<^verbatim>\<open>timer_scratch\<close>, which the linker chooses, and the clock are parameters.
\<close>

section \<open>Machine mode\<close>

definition MSTATUS_MPP_MASK :: u64 where "MSTATUS_MPP_MASK = push_bit 11 3"
definition MSTATUS_MPP_S :: u64 where "MSTATUS_MPP_S = push_bit 11 1"
definition MSTATUS_MIE :: u64 where "MSTATUS_MIE = push_bit 3 1"
definition SIE_SEIE :: u64 where "SIE_SEIE = push_bit 9 1"
definition SIE_STIE :: u64 where "SIE_STIE = push_bit 5 1"
definition SIE_SSIE :: u64 where "SIE_SSIE = push_bit 1 1"
definition MIE_MTIE :: u64 where "MIE_MTIE = push_bit 7 1"

record mregs =
  m_hartid :: u64
  m_status :: u64
  m_epc :: u64
  m_satp :: u64
  m_medeleg :: u64
  m_mideleg :: u64
  m_sie :: u64
  m_mie :: u64
  m_pmpaddr0 :: u64
  m_pmpcfg0 :: u64
  m_mtvec :: u64
  m_mscratch :: u64
  m_tp :: u64
  m_mtimecmp :: "u64 \<Rightarrow> u64"
  m_scratch :: "nat \<Rightarrow> nat \<Rightarrow> u64"

definition timer_interval :: u64 where "timer_interval = 1000000"

definition timerinit :: "u64 \<Rightarrow> u64 \<Rightarrow> u64 \<Rightarrow> mregs \<Rightarrow> mregs" where
  "timerinit timervec timer_scratch mtime r =
     (let id = unat (m_hartid r);
          r = r\<lparr>m_mtimecmp := (m_mtimecmp r)(CLINT_MTIMECMP id := mtime + timer_interval)\<rparr>;
          r = r\<lparr>m_scratch := (m_scratch r)(id := (m_scratch r id)(3 := CLINT_MTIMECMP id))\<rparr>;
          r = r\<lparr>m_scratch := (m_scratch r)(id := (m_scratch r id)(4 := timer_interval))\<rparr>;
          r = r\<lparr>m_mscratch := timer_scratch + of_nat id * 40\<rparr>;
          r = r\<lparr>m_mtvec := timervec\<rparr>;
          r = r\<lparr>m_status := m_status r OR MSTATUS_MIE\<rparr>
      in r\<lparr>m_mie := m_mie r OR MIE_MTIE\<rparr>)"

definition start :: "u64 \<Rightarrow> u64 \<Rightarrow> u64 \<Rightarrow> u64 \<Rightarrow> mregs \<Rightarrow> mregs" where
  "start main timervec timer_scratch mtime r =
     (let r = r\<lparr>m_status := (m_status r AND NOT MSTATUS_MPP_MASK) OR MSTATUS_MPP_S\<rparr>;
          r = r\<lparr>m_epc := main\<rparr>;
          r = r\<lparr>m_satp := 0\<rparr>;
          r = r\<lparr>m_medeleg := 0xffff\<rparr>;
          r = r\<lparr>m_mideleg := 0xffff\<rparr>;
          r = r\<lparr>m_sie := m_sie r OR SIE_SEIE OR SIE_STIE OR SIE_SSIE\<rparr>;
          r = r\<lparr>m_pmpaddr0 := 0x3fffffffffffff\<rparr>;
          r = r\<lparr>m_pmpcfg0 := 0xf\<rparr>;
          r = timerinit timervec timer_scratch mtime r
      in r\<lparr>m_tp := m_hartid r\<rparr>)"

section \<open>main\<close>

definition main_boot :: "(unit, 'z traps_scheme) km" where
  "main_boot =
     seq consoleinit
     (seq printfinit
     (seq (printf (cstr ''\<newline>'') [])
     (seq (printf (cstr ''xv6 kernel is booting\<newline>'') [])
     (seq (printf (cstr ''\<newline>'') [])
     (seq kinit
     (seq kvminit
     (seq kvminithart
     (seq procinit
     (seq trapinit
     (seq trapinithart
     (seq plicinit
     (seq plicinithart
     (seq binit
     (seq iinit
     (seq fileinit
     (seq virtio_disk_init
     (seq userinit
     (modify (\<lambda>s. s\<lparr>started := True\<rparr>)))))))))))))))))))"

text \<open>The other harts wait until the first one has booted.\<close>

definition main_other :: "(unit, 'z traps_scheme) km" where
  "main_other =
     bind (gets started) (\<lambda>b.
     if \<not> b then hang
     else
       bind (gets (\<lambda>s. cpuid (mach s))) (\<lambda>hart.
       seq (printf (cstr ''hart %d starting\<newline>'') [PInt (of_nat hart)])
       (seq kvminithart
       (seq trapinithart
       plicinithart))))"

text \<open>\<^verbatim>\<open>main\<close> up to the endless loop of the scheduler.\<close>

definition main :: "(unit, 'z traps_scheme) km" where
  "main =
     bind (gets (\<lambda>s. cpuid (mach s))) (\<lambda>hart.
     seq (if hart = 0 then main_boot else main_other)
     scheduler_start)"

end
