(* ===== verification/Demo.thy ===== *)
theory Demo
  imports Trap Procsync Usercopy
begin

text \<open>
  One concrete kernel state, on which the witnesses of the later theories run: process 0 runs with
  one page mapped at address 0, process 1 sleeps on the clock, every lock is free, every table
  is empty, and the devices answer 0.
\<close>

definition demo_buf :: buf where
  "demo_buf = \<lparr>b_valid = False, b_disk = False, b_dev = 0, b_blockno = 0, b_refcnt = 0, b_prev = 0, b_next = 0\<rparr>"

definition demo_inode :: inode where
  "demo_inode = \<lparr>i_dev = 0, i_inum = 0, i_ref = 0, i_valid = False, i_type = 0, i_major = 0, i_minor = 0,
     i_nlink = 0, i_size = 0, i_addrs = (\<lambda>_. 0)\<rparr>"

definition demo_queue :: vqueue where
  "demo_queue = \<lparr>q_desc = (\<lambda>_. \<lparr>d_addr = DmaNone, d_len = 0, d_flags = 0, d_next = 0\<rparr>),
     q_avail = (\<lambda>_. 0), q_avail_idx = 0, q_used = (\<lambda>_. 0), q_used_idx = 0,
     q_ops = (\<lambda>_. \<lparr>rq_type = 0, rq_sector = 0\<rparr>), q_status = (\<lambda>_. 0), q_data = (\<lambda>_ _. 0), q_disk = (\<lambda>_ _. 0)\<rparr>"

definition demo :: traps where
  "demo = \<lparr>mach = demo_machine (Some 0), syms = boot_syms, mem = demo_mem, freelist = 0,
     kernel_pagetable = 0, satp = (\<lambda>_. 0),
     proctab = (\<lambda>_. proc0)(0 := proc0\<lparr>p_state := RUNNING, p_pid := 1, p_pagetable := 0x80023000, p_sz := 4096\<rparr>,
       1 := proc0\<lparr>p_state := SLEEPING, p_pid := 2, p_chan := Some ChanTicks\<rparr>),
     nextpid = 3, initproc = Some 0,
     uart_tx_buf = (\<lambda>_. 0), uart_tx_w = 0, uart_tx_r = 0, utrace = [], udev = (\<lambda>_ _. 0),
     panicked = False, pr_locking = True,
     cons_buf = (\<lambda>_. 0), cons_r = 0, cons_w = 0, cons_e = 0, devsw = (\<lambda>_. \<lparr>dv_read = None, dv_write = None\<rparr>),
     slk = (\<lambda>_. \<lparr>sl_locked = False, sl_name = '''', sl_pid = 0\<rparr>),
     vq = demo_queue, vfree = (\<lambda>_. True), vused_idx = 0, vinfo = (\<lambda>_. None), vpages = (0, 0, 0),
     vwrites = [], vmmio = (\<lambda>_ _. 0), vdev = (\<lambda>q. q), bufs = (\<lambda>_. demo_buf),
     lg_start = 2, lg_size = 30, lg_outstanding = 0, lg_committing = False, lg_dev = 1, lh_n = 0, lh_block = (\<lambda>_. 0),
     fs_sb = \<lparr>sb_magic = 0x10203040, sb_size = 1000, sb_nblocks = 954, sb_ninodes = 200, sb_nlog = 30,
       sb_logstart = 2, sb_inodestart = 32, sb_bmapstart = 45\<rparr>, itable = (\<lambda>_. demo_inode),
     pipetab = (\<lambda>_. \<lparr>pi_data = (\<lambda>_. 0), pi_nread = 0, pi_nwrite = 0, pi_readopen = True, pi_writeopen = True\<rparr>),
     ftable = (\<lambda>_. \<lparr>f_type = FD_NONE, f_ref = 0, f_readable = False, f_writable = False, f_pipe = 0, f_ip = None,
       f_off = 0, f_major = 0\<rparr>),
     ticks = 0, sregs = (\<lambda>_. \<lparr>sr_stvec = 0, sr_sepc = 0, sr_scause = 0, sr_stval = 0, sr_sip = 0\<rparr>),
     ptrace = [], pdev = (\<lambda>_ _. 0), forkret_first = True, started = True\<rparr>"

lemma demo_simps [simp]:
  "mach demo = demo_machine (Some 0)" "mem demo = demo_mem" "syms demo = boot_syms" "freelist demo = 0"
  "proctab demo 0 = proc0\<lparr>p_state := RUNNING, p_pid := 1, p_pagetable := 0x80023000, p_sz := 4096\<rparr>"
  by (simp_all add: demo_def)

lemma demo_wf: "user_wf demo 0x80023000 []" "upage demo_mem 0x80023000 0"
  using demo_user_wf by (simp_all add: user_wf_def vm_inv_def kmem_inv_def demo_user_def)

end
