(* ===== verification/Ring.thy ===== *)
theory Ring
  imports Prelude
begin

text \<open>
  Rings with free-running counters, as pipes, the console and the serial port have them: a buffer
  of \<open>N\<close> bytes, a write counter and a read counter that wrap around with their type. The contents
  are a list; the locale \<open>fifo\<close> is the contract of a queue on it, with the history of a sequence of
  operations as its consequence.
\<close>

definition ring_list :: "nat \<Rightarrow> (nat \<Rightarrow> 'a) \<Rightarrow> 'w::len word \<Rightarrow> 'w word \<Rightarrow> 'a list" where
  "ring_list N buf r w = map (\<lambda>i. buf (unat (r + of_nat i) mod N)) [0..<unat (w - r)]"

lemma length_ring_list [simp]: "length (ring_list N buf r w) = unat (w - r)"
  by (simp add: ring_list_def)

lemma ring_list_Nil [simp]: "ring_list N buf r r = []"
  by (simp add: ring_list_def)

lemma ring_list_empty_iff: "ring_list N buf r w = [] \<longleftrightarrow> r = w"
proof -
  have "ring_list N buf r w = [] \<longleftrightarrow> unat (w - r) = 0" by (metis length_0_conv length_ring_list)
  then show ?thesis by (auto simp: unat_eq_0)
qed

lemma ring_index:
  assumes "N dvd 2 ^ LENGTH('w)"
  shows "unat (r + of_nat i :: 'w::len word) mod N = (unat r + i) mod N"
proof -
  have "unat (r + of_nat i) = (unat r + i) mod 2 ^ LENGTH('w)"
    by (simp add: unat_word_ariths unsigned_of_nat take_bit_eq_mod mod_add_right_eq)
  then show ?thesis by (simp add: mod_mod_cancel [OF assms])
qed

lemma unat_succ_diff:
  assumes "Suc (unat (w - r)) < 2 ^ LENGTH('w)"
  shows "unat (w + 1 - r :: 'w::len word) = Suc (unat (w - r))"
proof -
  have "w + 1 - r = (w - r) + 1" by simp
  moreover have "unat ((w - r) + 1) = Suc (unat (w - r))"
    using assms by (simp add: unat_word_ariths)
  ultimately show ?thesis by (simp only:)
qed

lemma ring_put:
  fixes r w :: "'w::len word"
  assumes N: "N dvd 2 ^ LENGTH('w)" "N < 2 ^ LENGTH('w)" and room: "unat (w - r) < N"
  shows "ring_list N (buf(unat w mod N := c)) r (w + 1) = ring_list N buf r w @ [c]"
proof -
  define k where "k = unat (w - r)"
  have k: "k < N" and w: "w = r + of_nat k" using room by (simp_all add: k_def)
  have len: "unat (w + 1 - r) = Suc k"
    unfolding k_def by (rule unat_succ_diff) (use room N(2) in linarith)
  have diff: "unat (r + of_nat i) mod N \<noteq> unat w mod N" if "i < k" for i
  proof
    assume "unat (r + of_nat i) mod N = unat w mod N"
    then have "(unat r + i) mod N = (unat r + k) mod N" by (simp add: w ring_index [OF N(1)])
    then have "(unat r + k - (unat r + i)) mod N = 0" by (metis mod_eq_dvd_iff_nat le_add_diff_inverse2 dvd_imp_mod_0 add_le_cancel_left less_imp_le that)
    with that k show False by simp
  qed
  have "ring_list N (buf(unat w mod N := c)) r (w + 1)
      = map (\<lambda>i. (buf(unat w mod N := c)) (unat (r + of_nat i) mod N)) ([0..<k] @ [k])"
    by (simp add: ring_list_def len)
  also have "\<dots> = map (\<lambda>i. buf (unat (r + of_nat i) mod N)) [0..<k] @ [c]"
    using diff by (simp add: w)
  finally show ?thesis by (simp add: ring_list_def k_def)
qed

lemma ring_take:
  fixes r w :: "'w::len word"
  assumes "r \<noteq> w"
  shows "ring_list N buf r w = buf (unat r mod N) # ring_list N buf (r + 1) w"
proof -
  have "unat (w - r) \<noteq> 0" using assms by (simp add: unat_eq_0)
  then obtain n where n: "unat (w - r) = Suc n" by (cases "unat (w - r)") auto
  have e: "w - (r + 1) = (w - r) - 1" by simp
  have "unat ((w - r) - 1) = unat (w - r) - unat (1 :: 'w word)"
    by (rule unat_sub) (simp add: word_le_nat_alt n)
  then have n': "unat (w - (r + 1)) = n" unfolding n e by simp
  have upt: "[0..<Suc n] = 0 # map Suc [0..<n]" by (metis map_Suc_upt upt_conv_Cons zero_less_Suc)
  show ?thesis
    unfolding ring_list_def n n' upt by (simp add: comp_def add.assoc)
qed

section \<open>Queues\<close>

datatype 'a fifo_op = Put 'a | Get

text \<open>A sequence of operations, where a full queue refuses a byte and an empty one gives none: the
  bytes accepted, the bytes given out and the last state.\<close>

fun fifo_run ::
  "('q \<Rightarrow> bool) \<Rightarrow> ('q \<Rightarrow> bool) \<Rightarrow> ('a \<Rightarrow> 'q \<Rightarrow> 'q) \<Rightarrow> ('q \<Rightarrow> 'a) \<Rightarrow> ('q \<Rightarrow> 'q)
     \<Rightarrow> 'a fifo_op list \<Rightarrow> 'q \<Rightarrow> 'a list \<times> 'a list \<times> 'q" where
  "fifo_run emp full put peek take1 [] q = ([], [], q)"
| "fifo_run emp full put peek take1 (Put a # ops) q =
     (if full q then fifo_run emp full put peek take1 ops q
      else (let (i, r, q') = fifo_run emp full put peek take1 ops (put a q) in (a # i, r, q')))"
| "fifo_run emp full put peek take1 (Get # ops) q =
     (if emp q then fifo_run emp full put peek take1 ops q
      else (let (i, r, q') = fifo_run emp full put peek take1 ops (take1 q) in (i, peek q # r, q')))"

locale fifo =
  fixes abs :: "'q \<Rightarrow> 'a list" and cap :: nat
    and put :: "'a \<Rightarrow> 'q \<Rightarrow> 'q" and peek :: "'q \<Rightarrow> 'a" and take1 :: "'q \<Rightarrow> 'q"
    and emp :: "'q \<Rightarrow> bool" and full :: "'q \<Rightarrow> bool"
  assumes abs_put: "length (abs q) < cap \<Longrightarrow> abs (put c q) = abs q @ [c]"
    and abs_take: "abs q \<noteq> [] \<Longrightarrow> abs q = peek q # abs (take1 q)"
    and emp_iff: "emp q \<longleftrightarrow> abs q = []"
    and full_iff: "length (abs q) \<le> cap \<Longrightarrow> full q \<longleftrightarrow> length (abs q) = cap"
begin

lemma abs_fold_put:
  "length (abs q) + length bs \<le> cap \<Longrightarrow> abs (fold put bs q) = abs q @ bs"
  by (induction bs arbitrary: q) (simp_all add: abs_put)

lemma abs_take_n:
  "n \<le> length (abs q) \<Longrightarrow> abs ((take1 ^^ n) q) = drop n (abs q)"
proof (induction n)
  case (Suc n)
  then have "abs ((take1 ^^ n) q) \<noteq> []" by simp
  from abs_take [OF this] Suc show ?case
    by (metis Suc_leD drop_Suc funpow.simps(2) list.sel(3) o_apply tl_drop)
qed simp

lemma peek_nth: "n < length (abs q) \<Longrightarrow> peek ((take1 ^^ n) q) = abs q ! n"
  using abs_take_n [of n q] abs_take [of "(take1 ^^ n) q"]
  by (metis Cons_nth_drop_Suc drop_eq_Nil less_imp_le_nat linorder_not_le list.sel(1))

lemma run_history:
  "length (abs q) \<le> cap \<Longrightarrow> fifo_run emp full put peek take1 ops q = (i, r, q') \<Longrightarrow>
     abs q @ i = r @ abs q' \<and> length (abs q') \<le> cap"
proof (induction ops arbitrary: q i r q')
  case Nil
  then show ?case by simp
next
  case (Cons op ops)
  show ?case
  proof (cases op)
    case (Put a)
    show ?thesis
    proof (cases "full q")
      case True
      then show ?thesis using Cons Put by simp
    next
      case False
      with full_iff [OF Cons.prems(1)] Cons.prems(1) have l: "length (abs q) < cap" by simp
      obtain i' where i': "fifo_run emp full put peek take1 ops (put a q) = (i', r, q')" "i = a # i'"
        using Cons.prems(2) False Put by (auto split: prod.splits)
      have "length (abs (put a q)) \<le> cap" using l by (simp add: abs_put)
      from Cons.IH [OF this i'(1)] show ?thesis using l i'(2) by (simp add: abs_put)
    qed
  next
    case Get
    show ?thesis
    proof (cases "emp q")
      case True
      then show ?thesis using Cons Get by simp
    next
      case False
      then have q: "abs q = peek q # abs (take1 q)" by (intro abs_take) (simp add: emp_iff)
      obtain r' where r': "fifo_run emp full put peek take1 ops (take1 q) = (i, r', q')" "r = peek q # r'"
        using Cons.prems(2) False Get by (auto split: prod.splits)
      have "length (abs (take1 q)) \<le> cap" using Cons.prems(1) q by (metis Suc_leD length_Cons)
      from Cons.IH [OF this r'(1)] show ?thesis using q r'(2) by simp
    qed
  qed
qed

end

end
