(* ===== verification/Pipe_props.thy ===== *)
theory Pipe_props
  imports Demo Ring
begin

text \<open>
  Pipes as queues: the ring of a pipe is an interpretation of the queue contract, \<^verbatim>\<open>pipewrite\<close>
  appends the bytes of the user to it and \<^verbatim>\<open>piperead\<close> takes the oldest ones out.
\<close>

section \<open>The ring of a pipe\<close>

definition pipe_bytes :: "pipe \<Rightarrow> u8 list" where
  "pipe_bytes r = ring_list PIPESIZE (pi_data r) (pi_nread r) (pi_nwrite r)"

lemma PIPESIZE_dvd: "PIPESIZE dvd 2 ^ LENGTH(32)"
proof -
  have "(2::nat) ^ LENGTH(32) = 512 * 2 ^ 23" by simp
  then show ?thesis unfolding PIPESIZE_def by (metis dvd_triv_left)
qed

lemma pi_full_iff:
  assumes "length (pipe_bytes r) \<le> PIPESIZE"
  shows "pi_full r \<longleftrightarrow> length (pipe_bytes r) = PIPESIZE"
proof -
  have "pi_full r \<longleftrightarrow> pi_nwrite r - pi_nread r = of_nat PIPESIZE"
    by (auto simp: pi_full_def algebra_simps)
  also have "\<dots> \<longleftrightarrow> unat (pi_nwrite r - pi_nread r) = unat (of_nat PIPESIZE :: u32)"
    by (simp only: word_unat_eq_iff)
  finally show ?thesis by (simp add: pipe_bytes_def PIPESIZE_def)
qed

interpretation pq: fifo pipe_bytes PIPESIZE pi_put pi_peek pi_take pi_empty pi_full
proof
  fix q :: pipe and c
  show "length (pipe_bytes q) < PIPESIZE \<Longrightarrow> pipe_bytes (pi_put c q) = pipe_bytes q @ [c]"
    using ring_put [OF PIPESIZE_dvd, of "pi_nwrite q" "pi_nread q"]
    by (simp add: pipe_bytes_def pi_put_def PIPESIZE_def)
  show "pipe_bytes q \<noteq> [] \<Longrightarrow> pipe_bytes q = pi_peek q # pipe_bytes (pi_take q)"
    by (simp add: pipe_bytes_def pi_peek_def pi_take_def ring_list_empty_iff) (rule ring_take)
  show "pi_empty q \<longleftrightarrow> pipe_bytes q = []"
    by (auto simp: pipe_bytes_def pi_empty_def ring_list_empty_iff)
  show "length (pipe_bytes q) \<le> PIPESIZE \<Longrightarrow> pi_full q \<longleftrightarrow> length (pipe_bytes q) = PIPESIZE"
    by (rule pi_full_iff)
qed

lemma pi_fold_put_open [simp]:
  "pi_readopen (fold pi_put bs r) = pi_readopen r" "pi_writeopen (fold pi_put bs r) = pi_writeopen r"
  by (induction bs arbitrary: r) (simp_all add: pi_put_def)

section \<open>What both directions share\<close>

lemma user_wf_cong:
  "mem s = mem t \<Longrightarrow> syms s = syms t \<Longrightarrow> freelist s = freelist t \<Longrightarrow> user_wf s pt ps = user_wf t pt ps"
  by (simp add: user_wf_def vm_inv_def kmem_inv_def)

lemma killed_eq:
  "sane (mach s) \<Longrightarrow> ProcLock p \<notin> held (mach s) \<Longrightarrow>
     killed p s = Ret (p_killed (proctab s p)) (s\<lparr>mach := quiet (mach s)\<rparr>)"
  by (simp add: killed_def km_simps)

definition user_range :: "'z kmem_scheme \<Rightarrow> u64 \<Rightarrow> u64 \<Rightarrow> nat \<Rightarrow> bool" where
  "user_range s pt va n \<longleftrightarrow> (\<forall>a. unat va \<le> a \<and> a < unat va + n \<longrightarrow> upage (mem s) pt (a div 4096))"

lemma user_range_add:
  assumes "user_range s pt va n" and "i < n"
  shows "unat (va + of_nat i) = unat va + i" "user_range s pt (va + of_nat i) (n - i)"
proof -
  have "upage (mem s) pt ((unat va + i) div 4096)" using assms by (simp add: user_range_def)
  then have lt: "unat va + i < 2 ^ 64" by (simp add: upage_def div_less_iff_less_mult)
  then have "i < 2 ^ 64" by simp
  then have "unat (of_nat i :: u64) = i" by (simp add: unsigned_of_nat take_bit_nat_eq_self)
  with lt show u: "unat (va + of_nat i) = unat va + i" by (simp add: unat_add64)
  show "user_range s pt (va + of_nat i) (n - i)"
    using assms unfolding user_range_def u by auto
qed

lemma copyin_byte:
  assumes "user_wf s pt ps" and "user_range s pt va 1"
  shows "copyin pt va 1 s = Ret (0, [ubyte (mem s) pt (unat va)]) s"
  using copyin_wp [OF assms(1), of va 1] assms(2)
  by (auto elim!: wpE simp: user_range_def split: if_splits)

text \<open>A process \<open>pr\<close> with a well-formed address space runs, and the locks it needs are free.\<close>

definition pipe_ready :: "'z pipes_scheme \<Rightarrow> u64 \<Rightarrow> nat \<Rightarrow> u64 list \<Rightarrow> bool" where
  "pipe_ready s pi pr ps \<longleftrightarrow> sane (mach s) \<and> cproc (mycpu (mach s)) = Some pr
     \<and> PipeLock pi \<notin> held (mach s) \<and> (\<forall>p. ProcLock p \<notin> held (mach s))
     \<and> user_wf s (p_pagetable (proctab s pr)) ps"

section \<open>pipewrite\<close>

lemma pipewrite_loop_eq:
  fixes s :: "'z pipes_scheme"
  assumes m: "mach s = taken (PipeLock pi) m" "sane m" "\<forall>p. ProcLock p \<notin> held m"
    and wf: "user_wf s (p_pagetable (proctab s pr)) ps"
    and open_: "pi_readopen (pipetab s pi)" and live: "\<not> p_killed (proctab s pr)"
    and bs: "bs = map (ubyte (mem s) (p_pagetable (proctab s pr))) [unat addr..<unat addr + n]"
    and rng: "user_range s (p_pagetable (proctab s pr)) addr n"
    and room: "length (pipe_bytes (pipetab s pi)) + n \<le> PIPESIZE"
  shows "wp (loop (n + 1) (pipewrite_turn pi pr addr (int n)) 0)
     (\<lambda>r s'. r = Some (int n) \<and> s' = s\<lparr>pipetab := (pipetab s)(pi := fold pi_put bs (pipetab s pi))\<rparr>) s"
proof -
  let ?st = "\<lambda>k. s\<lparr>pipetab := (pipetab s)(pi := fold pi_put (take k bs) (pipetab s pi))\<rparr>"
  have len: "length bs = n" using bs by simp
  show ?thesis
  proof (rule wp_loop [where I = "\<lambda>i s'. \<exists>k \<le> n. i = int k \<and> s' = ?st k" and V = "\<lambda>i. nat (int n - i)"], goal_cases)
    case 1
    show ?case by (auto intro: exI [of _ 0])
  next
    case 2
    show ?case by simp
  next
    case (3 i s')
    then obtain k where k: "k \<le> n" "i = int k" "s' = ?st k" by blast
    show ?case
    proof (cases "k < n")
      case False
      with k len show ?thesis by (simp add: pipewrite_turn_def)
    next
      case True
      let ?pt = "p_pagetable (proctab s pr)" and ?q = "fold pi_put (take k bs) (pipetab s pi)"
      note r = user_range_add [OF rng True]
      have kl: "killed pr s' = Ret False s'"
        using m live by (simp add: k killed_eq)
      have "length (pipe_bytes ?q) = length (pipe_bytes (pipetab s pi)) + k"
        using pq.abs_fold_put [of "pipetab s pi" "take k bs"] room k(1) len by simp
      then have nf: "\<not> pi_full ?q" using pi_full_iff [of ?q] room True by simp
      have "user_wf s' ?pt ps" using wf user_wf_cong [of s' s] by (simp add: k)
      moreover have "user_range s' ?pt (addr + of_nat k) 1"
        using r(2) True by (auto simp: user_range_def k)
      ultimately have ci: "copyin ?pt (addr + of_nat k) 1 s' = Ret (0, [ubyte (mem s) ?pt (unat addr + k)]) s'"
        using copyin_byte [of s' ?pt ps "addr + of_nat k"] r(1) by (simp add: k)
      have b: "bs ! k = ubyte (mem s) ?pt (unat addr + k)" using True by (simp add: bs)
      have nxt: "pi_put (ubyte (mem s) ?pt (unat addr + k)) ?q = fold pi_put (take (Suc k) bs) (pipetab s pi)"
        using True len by (simp add: take_Suc_conv_app_nth b)
      have turn: "pipewrite_turn pi pr addr (int n) i s' = Ret (Inl (int (Suc k))) (?st (Suc k))"
        using True kl nf ci open_ nxt by (simp add: pipewrite_turn_def km_simps deref_def k)
      have I: "\<exists>k' \<le> n. int (Suc k) = int k' \<and> ?st (Suc k) = ?st k'"
        using True by (intro exI [of _ "Suc k"]) simp
      have V: "nat (int n - int (Suc k)) < nat (int n - i)" using True k(2) by simp
      show ?thesis unfolding wp_def turn by (simp only: outcome.case sum.case I V simp_thms)
    qed
  qed
qed

lemma pipewrite_eq:
  fixes s :: "'z pipes_scheme"
  assumes rdy: "pipe_ready s pi pr ps"
    and open_: "pi_readopen (pipetab s pi)" and live: "\<not> p_killed (proctab s pr)"
    and rng: "user_range s (p_pagetable (proctab s pr)) addr n"
    and room: "length (pipe_bytes (pipetab s pi)) + n \<le> PIPESIZE"
  shows "pipewrite pi addr (int n) s = Ret (int n) (s\<lparr>mach := quiet (mach s),
     pipetab := (pipetab s)(pi := fold pi_put
       (map (ubyte (mem s) (p_pagetable (proctab s pr))) [unat addr..<unat addr + n]) (pipetab s pi)),
     proctab := wake_all (Some (ChanPipeRead pi)) (Some pr) {..<NPROC} (proctab s)\<rparr>)"
proof -
  let ?m = "quiet (mach s)" and ?pt = "p_pagetable (proctab s pr)"
  let ?s1 = "s\<lparr>mach := taken (PipeLock pi) ?m\<rparr>"
  note r = rdy [unfolded pipe_ready_def]
  let ?bs = "map (ubyte (mem s) ?pt) [unat addr..<unat addr + n]"
  have "user_wf ?s1 ?pt ps" using r user_wf_cong [of ?s1 s] by simp
  then have lp: "loop (n + 1) (pipewrite_turn pi pr addr (int n)) 0 ?s1
      = Ret (Some (int n)) (?s1\<lparr>pipetab := (pipetab s)(pi := fold pi_put ?bs (pipetab s pi))\<rparr>)"
    using pipewrite_loop_eq [of ?s1 pi ?m pr ps ?bs addr n] r open_ live rng room
    by (auto simp: wp_def user_range_def split: outcome.splits)
  have "procs_unlocked (taken (PipeLock pi) ?m)" using r by (auto simp: procs_unlocked_def)
  with r lp show ?thesis
    by (simp add: pipewrite_def pipewrite_loop_def km_simps wakeup_eq)
qed

section \<open>piperead\<close>

text \<open>The state after \<open>k\<close> bytes have been copied out, from \<open>s\<close>.\<close>

definition read_at :: "'z pipes_scheme \<Rightarrow> u64 \<Rightarrow> u64 \<Rightarrow> u64 \<Rightarrow> u64 list \<Rightarrow> nat \<Rightarrow> 'z pipes_scheme \<Rightarrow> bool" where
  "read_at s pi pt addr ps k s' \<longleftrightarrow>
     s' = s\<lparr>mem := mem s', pipetab := (pipetab s)(pi := (pi_take ^^ k) (pipetab s pi))\<rparr>
   \<and> user_wf s' pt ps
   \<and> (\<forall>v. upage (mem s') pt v = upage (mem s) pt v)
   \<and> (\<forall>y. upage (mem s) pt (y div 4096) \<longrightarrow> ubyte (mem s') pt y =
        (if unat addr \<le> y \<and> y < unat addr + k then pipe_bytes (pipetab s pi) ! (y - unat addr)
         else ubyte (mem s) pt y))"

lemma read_at_0: "user_wf s pt ps \<Longrightarrow> read_at s pi pt addr ps 0 s"
  by (auto simp: read_at_def)

lemma piperead_turn_step:
  fixes s :: "'z pipes_scheme"
  assumes at_: "read_at s pi pt addr ps k s'" and pt: "pt = p_pagetable (proctab s pr)"
    and rng: "user_range s pt addr n" "k < n" and more: "k < length (pipe_bytes (pipetab s pi))"
  shows "\<exists>s''. piperead_turn pi pr addr k s' = Ret None s'' \<and> read_at s pi pt addr ps (Suc k) s''"
proof -
  let ?q = "(pi_take ^^ k) (pipetab s pi)" and ?b = "pipe_bytes (pipetab s pi)"
  from at_ have s': "s' = s\<lparr>mem := mem s', pipetab := (pipetab s)(pi := ?q)\<rparr>"
    and wf: "user_wf s' pt ps" and up: "\<And>v. upage (mem s') pt v = upage (mem s) pt v"
    and ub: "\<And>y. upage (mem s) pt (y div 4096) \<Longrightarrow> ubyte (mem s') pt y =
        (if unat addr \<le> y \<and> y < unat addr + k then ?b ! (y - unat addr) else ubyte (mem s) pt y)"
    unfolding read_at_def by blast+
  then obtain m where sm: "s' = s\<lparr>mem := m, pipetab := (pipetab s)(pi := ?q)\<rparr>" by blast
  have tabs: "pipetab s' pi = ?q" "proctab s' = proctab s" by (simp_all add: sm)
  note r = user_range_add [OF rng]
  have ne: "\<not> pi_empty ?q" using pq.emp_iff [of ?q] pq.abs_take_n [of k "pipetab s pi"] more by simp
  have pk: "pi_peek ?q = ?b ! k" by (rule pq.peek_nth [OF more])
  let ?t = "s'\<lparr>pipetab := (pipetab s')(pi := pi_take ?q)\<rparr>"
  have wft: "user_wf ?t pt ps" using wf user_wf_cong [of ?t s'] by simp
  have "user_range ?t pt (addr + of_nat k) 1" using r(2) rng(2) up by (auto simp: user_range_def)
  then obtain s'' where co: "copyout pt (addr + of_nat k) [?b ! k] ?t = Ret 0 s''"
    and w: "wrote ?t pt (unat addr + k) [?b ! k] 1 s''"
    using copyout_wp [OF wft, of "addr + of_nat k" "[?b ! k]"] r(1)
    by (auto elim!: wpE simp: user_range_def split: if_splits)
  note ww = wrote_wf [OF wft w]
  have s'': "s'' = ?t\<lparr>mem := mem s''\<rparr>" using w unfolding wrote_def by blast
  have turn: "piperead_turn pi pr addr k s' = Ret None s''"
    using ne pk co by (simp add: piperead_turn_def km_simps tabs pt)
  have b: "ubyte (mem s'') pt y = (if unat addr \<le> y \<and> y < unat addr + Suc k
      then ?b ! (y - unat addr) else ubyte (mem s) pt y)" if "upage (mem s) pt (y div 4096)" for y
  proof -
    have "ubyte (mem s'') pt y = (if y = unat addr + k then ?b ! k else ubyte (mem s') pt y)"
      using w that ww(4) up by (auto simp: wrote_def ubyte_def)
    then show ?thesis using ub [OF that] by auto
  qed
  have "s'' = s\<lparr>mem := mem s'', pipetab := (pipetab s)(pi := (pi_take ^^ Suc k) (pipetab s pi))\<rparr>"
    by (subst s'') (simp add: sm)
  moreover have "upage (mem s'') pt v = upage (mem s) pt v" for v using ww(3) up by simp
  ultimately have "read_at s pi pt addr ps (Suc k) s''"
    using ww(1) b unfolding read_at_def by blast
  with turn show ?thesis by blast
qed

lemma piperead_scan:
  fixes s :: "'z pipes_scheme"
  assumes "read_at s pi pt addr ps k s'" and "pt = p_pagetable (proctab s pr)"
    and "user_range s pt addr (min n (length (pipe_bytes (pipetab s pi))))"
    and "k \<le> min n (length (pipe_bytes (pipetab s pi)))"
  shows "\<exists>s''. for_until [k..<n] (piperead_turn pi pr addr) s' =
      Ret (if n \<le> length (pipe_bytes (pipetab s pi)) then None
           else Some (int (length (pipe_bytes (pipetab s pi))))) s''
    \<and> read_at s pi pt addr ps (min n (length (pipe_bytes (pipetab s pi)))) s''"
  using assms
proof (induction "n - k" arbitrary: k s')
  case 0
  then show ?case by (auto simp: km_simps)
next
  case (Suc d)
  let ?len = "length (pipe_bytes (pipetab s pi))"
  have k: "[k..<n] = k # [Suc k..<n]" using Suc.hyps(2) by (simp add: upt_conv_Cons)
  show ?case
  proof (cases "k < ?len")
    case True
    with Suc.hyps(2) have kn: "k < min n ?len" by simp
    obtain s1 where s1: "piperead_turn pi pr addr k s' = Ret None s1" "read_at s pi pt addr ps (Suc k) s1"
      using piperead_turn_step [OF Suc.prems(1,2,3) kn True] by blast
    show ?thesis
      using Suc.hyps(1) [of "Suc k", OF _ s1(2) Suc.prems(2,3)] Suc.hyps(2) kn
      by (simp add: k bind_def s1(1))
  next
    case False
    then have kl: "k = ?len" using Suc.prems(4) by simp
    have q: "pipetab s' pi = (pi_take ^^ k) (pipetab s pi)"
      using Suc.prems(1) unfolding read_at_def by (metis fun_upd_same pipes.select_convs(1) pipes.surjective pipes.update_convs(1))
    have "pi_empty (pipetab s' pi)"
      using pq.emp_iff pq.abs_take_n [of k "pipetab s pi"] by (simp add: q kl)
    then have "for_until [k..<n] (piperead_turn pi pr addr) s' = Ret (Some (int k)) s'"
      by (simp add: k bind_def km_simps piperead_turn_def)
    then show ?thesis using Suc.prems(1) Suc.hyps(2) kl by auto
  qed
qed

lemma piperead_eq:
  fixes s :: "'z pipes_scheme"
  assumes rdy: "pipe_ready s pi pr ps" and pt: "pt = p_pagetable (proctab s pr)"
    and k: "k = min n (length (pipe_bytes (pipetab s pi)))"
    and some: "pipe_bytes (pipetab s pi) \<noteq> [] \<or> \<not> pi_writeopen (pipetab s pi)"
    and rng: "user_range s pt addr k"
  shows "\<exists>m. piperead pi addr (int n) s = Ret (int k) (s\<lparr>mach := quiet (mach s), mem := m,
       pipetab := (pipetab s)(pi := (pi_take ^^ k) (pipetab s pi)),
       proctab := wake_all (Some (ChanPipeWrite pi)) (Some pr) {..<NPROC} (proctab s)\<rparr>)
     \<and> (\<forall>y. upage (mem s) pt (y div 4096) \<longrightarrow> ubyte m pt y =
          (if unat addr \<le> y \<and> y < unat addr + k then pipe_bytes (pipetab s pi) ! (y - unat addr)
           else ubyte (mem s) pt y))"
proof -
  let ?m = "quiet (mach s)" and ?b = "pipe_bytes (pipetab s pi)"
  let ?s1 = "s\<lparr>mach := taken (PipeLock pi) ?m\<rparr>"
  note r = rdy [unfolded pipe_ready_def]
  have "user_wf ?s1 pt ps" using r pt user_wf_cong [of ?s1 s] by simp
  from piperead_scan [OF read_at_0 [OF this, of pi addr], of pr n] rng obtain s2
    where s2: "for_until [0..<n] (piperead_turn pi pr addr) ?s1 =
        Ret (if n \<le> length ?b then None else Some (int (length ?b))) s2"
      "read_at ?s1 pi pt addr ps k s2" by (auto simp: k pt user_range_def)
  define m where "m = mem s2"
  have m: "s2 = ?s1\<lparr>mem := m, pipetab := (pipetab s)(pi := (pi_take ^^ k) (pipetab s pi))\<rparr>"
    using s2(2) unfolding read_at_def m_def by simp
  have b: "\<forall>y. upage (mem s) pt (y div 4096) \<longrightarrow> ubyte m pt y =
          (if unat addr \<le> y \<and> y < unat addr + k then ?b ! (y - unat addr) else ubyte (mem s) pt y)"
    using s2(2) unfolding read_at_def m_def by simp
  have cp: "piperead_copy pi pr addr (int n) ?s1 = Ret (int k) s2"
    using s2(1) k by (simp add: piperead_copy_def bind_def km_simps)
  have ne: "\<not> (pi_empty (pipetab s pi) \<and> pi_writeopen (pipetab s pi))"
    using some pq.emp_iff by blast
  have "procs_unlocked (taken (PipeLock pi) ?m)" using r by (auto simp: procs_unlocked_def)
  then have "piperead pi addr (int n) s = Ret (int k) (s\<lparr>mach := quiet (mach s), mem := m,
       pipetab := (pipetab s)(pi := (pi_take ^^ k) (pipetab s pi)),
       proctab := wake_all (Some (ChanPipeWrite pi)) (Some pr) {..<NPROC} (proctab s)\<rparr>)"
    using r cp ne unfolding m
    by (cases "pi_empty (pipetab s pi)") (simp_all add: piperead_def piperead_loop_def km_simps wakeup_eq)
  with b show ?thesis by blast
qed

section \<open>Properties\<close>

text \<open>
  C29: \<^verbatim>\<open>pipewrite\<close> of \<open>n\<close> bytes that are mapped for the user, to a pipe whose read end is
  open and that has room for them, returns \<open>n\<close>: the bytes are appended to the content of the
  pipe, in order, the processes that wait for data become runnable, and the lock is free again.
\<close>

theorem pipewrite_appends:
  assumes "pipe_ready s pi pr ps" and "pi_readopen (pipetab s pi)" and "\<not> p_killed (proctab s pr)"
    and "user_range s (p_pagetable (proctab s pr)) addr n"
    and "length (pipe_bytes (pipetab s pi)) + n \<le> PIPESIZE"
  shows "\<exists>q. pipewrite pi addr (int n) s = Ret (int n) (s\<lparr>mach := quiet (mach s),
       pipetab := (pipetab s)(pi := q),
       proctab := wake_all (Some (ChanPipeRead pi)) (Some pr) {..<NPROC} (proctab s)\<rparr>)
     \<and> pipe_bytes q = pipe_bytes (pipetab s pi)
         @ map (ubyte (mem s) (p_pagetable (proctab s pr))) [unat addr..<unat addr + n]"
  using pipewrite_eq [OF assms] pq.abs_fold_put [of "pipetab s pi"] assms(5) by auto

lemma demo_pipe_ready: "pipe_ready demo pi 0 []"
  using demo_wf(1) by (simp add: pipe_ready_def proc0_def)

lemma demo_pipe_simps:
  "pipetab demo pi = \<lparr>pi_data = (\<lambda>_. 0), pi_nread = 0, pi_nwrite = 0, pi_readopen = True, pi_writeopen = True\<rparr>"
  "user_range demo 0x80023000 8 3" "p_pagetable (proctab demo 0) = 0x80023000" "\<not> p_killed (proctab demo 0)"
  using demo_wf(2) by (auto simp: demo_def proc0_def user_range_def)

theorem pipewrite_appends_witness:
  "\<exists>q s'. pipewrite 0x80027000 8 3 demo = Ret 3 s' \<and> pipetab s' 0x80027000 = q \<and> length (pipe_bytes q) = 3"
proof -
  have "pipe_bytes (pipetab demo 0x80027000) = []"
    by (simp add: demo_pipe_simps(1) pipe_bytes_def ring_list_def)
  then show ?thesis
    using pipewrite_appends [OF demo_pipe_ready [of "0x80027000"], of 8 3] demo_pipe_simps(2,4)
    unfolding demo_pipe_simps(3) by (auto simp: demo_pipe_simps(1) PIPESIZE_def)
qed

text \<open>
  C30: \<^verbatim>\<open>piperead\<close> of at most \<open>n\<close> bytes from a pipe that is not empty, or has no writer
  left, returns the number \<open>k\<close> of bytes it copies, which is \<open>n\<close> or all there are: the oldest
  \<open>k\<close> bytes of the pipe are at the user's address, in order, no other byte of the user has changed,
  the pipe holds the rest, and the processes that wait for room become runnable.
\<close>

theorem piperead_takes:
  assumes "pipe_ready s pi pr ps" and "pt = p_pagetable (proctab s pr)"
    and "k = min n (length (pipe_bytes (pipetab s pi)))"
    and "pipe_bytes (pipetab s pi) \<noteq> [] \<or> \<not> pi_writeopen (pipetab s pi)"
    and "user_range s pt addr k"
  shows "\<exists>m q. piperead pi addr (int n) s = Ret (int k) (s\<lparr>mach := quiet (mach s), mem := m,
       pipetab := (pipetab s)(pi := q),
       proctab := wake_all (Some (ChanPipeWrite pi)) (Some pr) {..<NPROC} (proctab s)\<rparr>)
     \<and> pipe_bytes (pipetab s pi) = map (ubyte m pt) [unat addr..<unat addr + k] @ pipe_bytes q
     \<and> (\<forall>y. upage (mem s) pt (y div 4096) \<and> \<not> (unat addr \<le> y \<and> y < unat addr + k)
          \<longrightarrow> ubyte m pt y = ubyte (mem s) pt y)"
proof -
  let ?b = "pipe_bytes (pipetab s pi)"
  obtain m where m: "piperead pi addr (int n) s = Ret (int k) (s\<lparr>mach := quiet (mach s), mem := m,
       pipetab := (pipetab s)(pi := (pi_take ^^ k) (pipetab s pi)),
       proctab := wake_all (Some (ChanPipeWrite pi)) (Some pr) {..<NPROC} (proctab s)\<rparr>)"
    and b: "\<forall>y. upage (mem s) pt (y div 4096) \<longrightarrow> ubyte m pt y =
          (if unat addr \<le> y \<and> y < unat addr + k then ?b ! (y - unat addr) else ubyte (mem s) pt y)"
    using piperead_eq [OF assms] by blast
  have "map (ubyte m pt) [unat addr..<unat addr + k] = take k ?b"
    using b assms(3,5) by (intro nth_equalityI) (auto simp: user_range_def)
  then have "?b = map (ubyte m pt) [unat addr..<unat addr + k] @ pipe_bytes ((pi_take ^^ k) (pipetab s pi))"
    using pq.abs_take_n [of k "pipetab s pi"] assms(3) by simp
  moreover have "\<forall>y. upage (mem s) pt (y div 4096) \<and> \<not> (unat addr \<le> y \<and> y < unat addr + k)
      \<longrightarrow> ubyte m pt y = ubyte (mem s) pt y" using b by auto
  ultimately show ?thesis using m by blast
qed

theorem piperead_takes_witness:
  "\<exists>s'. piperead 0x80027000 8 3 (demo\<lparr>pipetab := (\<lambda>_. pi_put 7 (pipetab demo 0))\<rparr>) = Ret 1 s'
     \<and> ubyte (mem s') 0x80023000 8 = 7"
proof -
  let ?q = "pi_put 7 (pipetab demo 0)"
  let ?s = "demo\<lparr>pipetab := (\<lambda>_. ?q)\<rparr>"
  have b: "pipe_bytes ?q = [7]"
    by (simp add: demo_pipe_simps pi_put_def pipe_bytes_def ring_list_def PIPESIZE_def)
  have "pipe_ready ?s 0x80027000 0 []"
    using demo_pipe_ready user_wf_cong [of ?s demo] by (simp add: pipe_ready_def proc0_def)
  moreover have "user_range ?s 0x80023000 8 1" using demo_wf(2) by (auto simp: user_range_def)
  ultimately show ?thesis
    using piperead_takes [of ?s "0x80027000" 0 "[]" "0x80023000" 1 3 8] b by (auto simp: demo_pipe_simps(3))
qed

text \<open>
  C11: a pipe is a queue of at most 512 bytes. Over any sequence of the single-byte steps
  of \<^verbatim>\<open>pipewrite\<close> and \<^verbatim>\<open>piperead\<close>, where a full pipe refuses a byte and an empty one gives
  none, the bytes given out followed by those still in the pipe are the bytes that were in
  it followed by those accepted: none is lost, duplicated or reordered, also when the
  32-bit counters wrap around.
\<close>

theorem pipe_fifo:
  assumes "length (pipe_bytes q) \<le> PIPESIZE"
    and "fifo_run pi_empty pi_full pi_put pi_peek pi_take ops q = (ins, outs, q')"
  shows "pipe_bytes q @ ins = outs @ pipe_bytes q' \<and> length (pipe_bytes q') \<le> PIPESIZE"
  by (rule pq.run_history [OF assms])

theorem pipe_fifo_witness:
  "\<exists>q'. fifo_run pi_empty pi_full pi_put pi_peek pi_take [Put 1, Get, Get, Put 2]
       \<lparr>pi_data = (\<lambda>_. 0), pi_nread = 0xffffffff, pi_nwrite = 0xffffffff, pi_readopen = True, pi_writeopen = True\<rparr>
       = ([1, 2], [1], q') \<and> pipe_bytes q' = [2]"
proof -
  let ?q = "\<lparr>pi_data = (\<lambda>_. 0), pi_nread = 0xffffffff, pi_nwrite = 0xffffffff, pi_readopen = True, pi_writeopen = True\<rparr>"
  obtain q' where r: "fifo_run pi_empty pi_full pi_put pi_peek pi_take [Put 1, Get, Get, Put 2] ?q = ([1, 2], [1], q')"
    by (simp add: pi_empty_def pi_full_def pi_put_def pi_peek_def pi_take_def PIPESIZE_def)
  have "pipe_bytes ?q = []" by (simp add: pipe_bytes_def ring_list_def)
  with pipe_fifo [OF _ r] r show ?thesis by auto
qed

end
