(* ===== verification/Sleeplock_props.thy ===== *)
theory Sleeplock_props
  imports Demo
begin

text \<open>
  Closed forms of the sleep locks: what \<^verbatim>\<open>acquiresleep\<close>, \<^verbatim>\<open>releasesleep\<close> and
  \<^verbatim>\<open>holdingsleep\<close> do from a process that holds no spin lock.
\<close>

text \<open>Process \<open>p\<close> runs and no spin lock is held.\<close>

definition running :: "nat \<Rightarrow> machine \<Rightarrow> bool" where
  "running p m \<longleftrightarrow> sane m \<and> held m = {} \<and> noff (mycpu m) = 0 \<and> cproc (mycpu m) = Some p"

lemma runningD:
  assumes "running p m"
  shows "sane m" "held m = {}" "noff (mycpu m) = 0" "cproc (mycpu m) = Some p" "procs_unlocked m"
  using assms by (simp_all add: running_def procs_unlocked_def)

lemma running_quiet [simp]: "running p (quiet m) = running p m"
  by (auto simp: running_def sane_def)

definition sl_taken :: "u32 \<Rightarrow> sleeplock \<Rightarrow> sleeplock" where
  "sl_taken pid k = k\<lparr>sl_locked := True, sl_pid := pid\<rparr>"

definition sl_freed :: "sleeplock \<Rightarrow> sleeplock" where
  "sl_freed k = k\<lparr>sl_locked := False, sl_pid := 0\<rparr>"

lemma sl_simps [simp]:
  "sl_locked (sl_taken pid k)" "sl_pid (sl_taken pid k) = pid" "\<not> sl_locked (sl_freed k)"
  "sl_pid (sl_freed k) = 0"
  by (simp_all add: sl_taken_def sl_freed_def)

lemma curpid_eq [km_simps]:
  "sane (mach s) \<Longrightarrow> cproc (mycpu (mach s)) = Some p \<Longrightarrow>
     curpid s = Ret (p_pid (proctab s p)) (s\<lparr>mach := quiet (mach s)\<rparr>)"
  by (simp add: curpid_def km_simps)

lemma acquiresleep_eq:
  assumes "running p (mach s)" and "\<not> sl_locked (slk s l)"
  shows "acquiresleep l s = Ret () (s\<lparr>mach := quiet (mach s),
     slk := (slk s)(l := sl_taken (p_pid (proctab s p)) (slk s l))\<rparr>)"
  using runningD [OF assms(1)] assms(2)
  by (simp add: acquiresleep_def acquiresleep_loop_def km_simps sl_taken_def)

lemma acquiresleep_waits:
  assumes "running p (mach s)" and "sl_locked (slk s l)"
  shows "acquiresleep l s = Stop Switched (s\<lparr>mach := taken (ProcLock p) (mach s),
     proctab := (proctab s)(p := (proctab s p)\<lparr>p_chan := Some (ChanSleep l), p_state := SLEEPING\<rparr>)\<rparr>)"
  using runningD [OF assms(1)] assms(2) sleep_eq [of "s\<lparr>mach := taken (SleepLk l) (mach s)\<rparr>" "SleepLk l" "mach s" p]
  by (simp add: acquiresleep_def acquiresleep_loop_def km_simps)

lemma releasesleep_eq:
  assumes "running p (mach s)"
  shows "releasesleep l s = Ret () (s\<lparr>mach := quiet (mach s),
     slk := (slk s)(l := sl_freed (slk s l)),
     proctab := wake_all (Some (ChanSleep l)) (Some p) {..<NPROC} (proctab s)\<rparr>)"
  using runningD [OF assms] by (simp add: releasesleep_def km_simps sl_freed_def)

lemma holdingsleep_eq:
  assumes "running p (mach s)"
  shows "holdingsleep l s = Ret (sl_locked (slk s l) \<and> sl_pid (slk s l) = p_pid (proctab s p))
     (s\<lparr>mach := quiet (mach s)\<rparr>)"
  using runningD [OF assms] by (cases "sl_locked (slk s l)") (simp_all add: holdingsleep_def km_simps)

end
