(* ===== verification/Virtio_props.thy ===== *)
theory Virtio_props
  imports Sleeplock_props
begin

text \<open>
  A disk request from start to end: with a device that serves the request at the head of the
  available ring, \<^verbatim>\<open>virtio_disk_rw\<close> transfers exactly one block between the buffer and the
  disk and leaves the driver idle again; with one that never answers, it never returns and the
  disk is as it was.
\<close>

section \<open>The device\<close>

text \<open>The service of one request, as the virtio specification has it: the device follows the chain
  of three descriptors, transfers the data, writes the status and puts the head of the chain on
  the used ring.\<close>

definition serve :: "vqueue \<Rightarrow> vqueue" where
  "serve q =
     (let i = q_avail q (unat (q_used_idx q) mod VNUM);
          d1 = q_desc q (d_next (q_desc q i));
          d2 = q_desc q (d_next d1)
      in case (d_addr (q_desc q i), d_addr d1, d_addr d2) of
           (DmaOps r, DmaData b, DmaStatus j) \<Rightarrow>
             let blk = unat (rq_sector (q_ops q r)) div (BSIZE div 512);
                 n = unat (d_len d1);
                 q' = (if rq_type (q_ops q r) = VIRTIO_BLK_T_IN
                       then q\<lparr>q_data := (q_data q)(b := wr (q_data q b) 0 (rd (q_disk q blk) 0 n))\<rparr>
                       else q\<lparr>q_disk := (q_disk q)(blk := wr (q_disk q blk) 0 (rd (q_data q b) 0 n))\<rparr>)
             in q'\<lparr>q_status := (q_status q)(j := 0), q_used := (q_used q)(unat (q_used_idx q) mod VNUM := i),
                  q_used_idx := q_used_idx q + 1\<rparr>
         | _ \<Rightarrow> q)"

text \<open>A device that is given one request serves it or, once it has lost power, does not answer.\<close>

definition blk_device :: "(vqueue \<Rightarrow> vqueue) \<Rightarrow> bool" where
  "blk_device d \<longleftrightarrow> (\<forall>q. q_avail_idx q = q_used_idx q + 1 \<longrightarrow> d q = serve q \<or> d q = q)"

section \<open>The steps of a request\<close>

definition disk_idle :: "'z vdisk_scheme \<Rightarrow> bool" where
  "disk_idle s \<longleftrightarrow> (\<forall>i<VNUM. vfree s i) \<and> vused_idx s = q_used_idx (vq s) \<and> q_avail_idx (vq s) = q_used_idx (vq s)"

lemma VNUM_val: "VNUM = 8" by (simp add: VNUM_def)

lemma alloc3_desc_idle:
  assumes "\<forall>i<VNUM. vfree s i"
  shows "alloc3_desc s = Ret (Some (0, 1, 2)) (s\<lparr>vfree := (vfree s)(0 := False, 1 := False, 2 := False)\<rparr>)"
proof -
  have v: "[0..<VNUM] = [0, 1, 2, 3, 4, 5, 6, 7]" by (simp add: VNUM_val upt_rec)
  show ?thesis
    using assms unfolding alloc3_desc_def alloc_desc_def v by (simp add: km_simps VNUM_val)
qed

lemma loop_step: "0 < n \<Longrightarrow> loop n f x = bind (f x) (\<lambda>y. case y of Inl x' \<Rightarrow> loop (n - 1) f x' | Inr r \<Rightarrow> ret r)"
  by (cases n) simp_all

definition acked :: "'z vdisk_scheme \<Rightarrow> (nat \<times> u32) list" where
  "acked s = vwrites s @ [(VIRTIO_MMIO_INTERRUPT_ACK, vmmio s (vwrites s) VIRTIO_MMIO_INTERRUPT_STATUS AND 3)]"

text \<open>The interrupt handler when there is nothing, or one finished request.\<close>

lemma virtio_disk_intr_none:
  assumes "sane (mach s)" and "VdiskLock \<notin> held (mach s)" and "vused_idx s = q_used_idx (vq s)"
  shows "virtio_disk_intr s = Ret () (s\<lparr>mach := quiet (mach s), vwrites := acked s\<rparr>)"
  using assms
  by (simp add: virtio_disk_intr_def km_simps loop_step virtio_intr_turn_def acked_def)

lemma virtio_disk_intr_one:
  assumes "sane (mach s)" and "VdiskLock \<notin> held (mach s)" and "procs_unlocked (mach s)"
    and "q_used_idx (vq s) = vused_idx s + 1"
    and "i = q_used (vq s) (unat (vused_idx s) mod VNUM)" and "q_status (vq s) i = 0" and "vinfo s i = Some b"
  shows "virtio_disk_intr s = Ret () (s\<lparr>mach := quiet (mach s), vwrites := acked s,
      bufs := (bufs s)(b := (bufs s b)\<lparr>b_disk := False\<rparr>), vused_idx := vused_idx s + 1,
      proctab := wake_all (Some (ChanBuf b)) (cproc (mycpu (mach s))) {..<NPROC} (proctab s)\<rparr>)"
  using assms
  by (simp add: virtio_disk_intr_def km_simps loop_step virtio_intr_turn_def acked_def)

section \<open>Waiting for the device\<close>

text \<open>The machine while the scheduler runs.\<close>

definition idle :: "machine \<Rightarrow> machine" where
  "idle m = set_mycpu (\<lambda>c. c\<lparr>cproc := None\<rparr>) (quiet m)"

lemma idle_simps [simp]:
  "sane m \<Longrightarrow> sane (idle m)" "held (idle m) = held m" "cproc (mycpu (idle m)) = None"
  "noff (mycpu m) = 0 \<Longrightarrow> quiet (idle m) = idle m"
  by (auto simp: idle_def sane_def held_def)
    (cases "cpus m (tp m)", simp add: quiet_def set_mycpu_def mycpu_def cpuid_def intr_get_iff)

lemma pick_resume:
  assumes m: "sane m" "noff (mycpu m) = 0" "cproc (mycpu m) = Some p" "ProcLock p \<notin> held m" "lk \<notin> held m"
    and s: "mach s = idle m" "p_state (proctab s p) = RUNNABLE" and i: "i = intr_get m"
  shows "bind (sched_pick p) (\<lambda>r. if r then sleep_resume p i lk else f) s
    = Ret () (s\<lparr>mach := taken lk m,
        proctab := (proctab s)(p := (proctab s p)\<lparr>p_state := RUNNING, p_chan := None\<rparr>)\<rparr>)"
proof -
  let ?busy = "set_mycpu (\<lambda>c. c\<lparr>cproc := Some p\<rparr>)"
  have busy: "?busy (idle m) = quiet m"
    using m(2,3) by (cases "cpus m (tp m)") (simp add: idle_def quiet_def set_mycpu_def mycpu_def cpuid_def)
  let ?s4 = "s\<lparr>mach := taken (ProcLock p) (quiet m), proctab := (proctab s)(p := (proctab s p)\<lparr>p_state := RUNNING\<rparr>)\<rparr>"
  have "sched_pick p s = Ret True ?s4"
    using sched_pick_eq [of s p] m s busy by (simp add: set_cproc_taken)
  moreover have "sleep_resume p (intr_get m) lk ?s4 = Ret () (?s4\<lparr>mach := taken lk (with_intr (intr_get m) (quiet m)),
      proctab := (proctab ?s4)(p := (proctab ?s4 p)\<lparr>p_chan := None\<rparr>)\<rparr>)"
    using m by (intro sleep_resume_eq) simp_all
  moreover have "with_intr (intr_get m) (quiet m) = quiet m"
    using with_intr_same [of "quiet m"] by simp
  ultimately show ?thesis by (simp add: bind_def i)
qed

text \<open>The process table when \<open>p\<close> has slept on a channel and was woken with the others there.\<close>

definition slept :: "wchan \<Rightarrow> nat \<Rightarrow> (nat \<Rightarrow> proc) \<Rightarrow> nat \<Rightarrow> proc" where
  "slept chan p tab = (wake_all (Some chan) None {..<NPROC} tab)(p := (tab p)\<lparr>p_chan := None, p_state := RUNNING\<rparr>)"

lemma slept_pid [simp]: "p_pid (slept chan q tab r) = p_pid (tab r)"
  by (auto simp: slept_def wake_all_def woken_def)

definition waiting :: "nat \<Rightarrow> nat \<Rightarrow> 'z vdisk_scheme \<Rightarrow> machine \<Rightarrow> bool" where
  "waiting b p s m \<longleftrightarrow> running p m \<and> mach s = taken VdiskLock m \<and> p < NPROC"

lemma waiting_sleep:
  assumes "waiting b p s m"
  shows "sleep (ChanBuf b) VdiskLock s = Stop Switched (s\<lparr>mach := taken (ProcLock p) m,
     proctab := (proctab s)(p := (proctab s p)\<lparr>p_chan := Some (ChanBuf b), p_state := SLEEPING\<rparr>)\<rparr>)"
  using assms by (intro sleep_eq) (auto simp: waiting_def running_def)

lemma waiting_back:
  assumes "waiting b p s m"
  shows "sched_back p (s\<lparr>mach := taken (ProcLock p) m, proctab := t\<rparr>) = Ret () (s\<lparr>mach := idle m, proctab := t\<rparr>)"
  using assms by (subst sched_back_eq [where m = m]) (simp_all add: waiting_def running_def idle_def)

lemma disk_wait_served:
  assumes w: "waiting b p s m" and q: "q = vdev s (vq s)"
    and one: "q_used_idx q = vused_idx s + 1" "i = q_used q (unat (vused_idx s) mod VNUM)"
      "q_status q i = 0" "vinfo s i = Some b"
  shows "disk_wait b p s = Ret () (s\<lparr>vq := q, vwrites := acked s, vused_idx := vused_idx s + 1,
     bufs := (bufs s)(b := (bufs s b)\<lparr>b_disk := False\<rparr>), proctab := slept (ChanBuf b) p (proctab s)\<rparr>)"
proof -
  let ?t = "(proctab s)(p := (proctab s p)\<lparr>p_chan := Some (ChanBuf b), p_state := SLEEPING\<rparr>)"
  note r = w [unfolded waiting_def running_def]
  let ?s2 = "s\<lparr>mach := idle m, proctab := ?t, vq := q\<rparr>"
  have i: "intena (mycpu (taken (ProcLock p) m)) = intr_get m"
    using r by (simp add: taken_def quiet_def)
  have intr: "virtio_disk_intr ?s2 = Ret () (?s2\<lparr>vwrites := acked s,
      bufs := (bufs s)(b := (bufs s b)\<lparr>b_disk := False\<rparr>), vused_idx := vused_idx s + 1,
      proctab := wake_all (Some (ChanBuf b)) None {..<NPROC} ?t\<rparr>)"
    using virtio_disk_intr_one [of ?s2 i b] one r by (simp add: procs_unlocked_def acked_def)
  have run: "p_state (wake_all (Some (ChanBuf b)) None {..<NPROC} ?t p) = RUNNABLE"
    using r by (simp add: wake_all_def woken_def)
  have tab: "(wake_all (Some (ChanBuf b)) None {..<NPROC} ?t)
      (p := (wake_all (Some (ChanBuf b)) None {..<NPROC} ?t p)\<lparr>p_state := RUNNING, p_chan := None\<rparr>)
      = slept (ChanBuf b) p (proctab s)"
    using r by (cases "proctab s p") (auto simp: slept_def wake_all_def woken_def)
  note pr = pick_resume [of m p VdiskLock "?s2\<lparr>vwrites := acked s,
      bufs := (bufs s)(b := (bufs s b)\<lparr>b_disk := False\<rparr>), vused_idx := vused_idx s + 1,
      proctab := wake_all (Some (ChanBuf b)) None {..<NPROC} ?t\<rparr>"]
  show ?thesis
    unfolding disk_wait_def waiting_sleep [OF w]
    using r intr pr run tab by (simp add: seq_def waiting_back [OF w] i on_vq_def modify_def q [symmetric])
qed

lemma disk_wait_dead:
  assumes w: "waiting b p s m" and q: "vdev s (vq s) = vq s" and i: "vused_idx s = q_used_idx (vq s)"
  shows "\<exists>s'. disk_wait b p s = Stop Hang s' \<and> vq s' = vq s \<and> vdev s' = vdev s"
proof -
  let ?t = "(proctab s)(p := (proctab s p)\<lparr>p_chan := Some (ChanBuf b), p_state := SLEEPING\<rparr>)"
  note r = w [unfolded waiting_def running_def]
  let ?s2 = "s\<lparr>mach := idle m, proctab := ?t\<rparr>"
  have intr: "virtio_disk_intr ?s2 = Ret () (?s2\<lparr>vwrites := acked s\<rparr>)"
    using virtio_disk_intr_none [of ?s2] r i by (simp add: acked_def)
  have pk: "sched_pick p (?s2\<lparr>vwrites := acked s\<rparr>) = Ret False (?s2\<lparr>vwrites := acked s\<rparr>)"
    using sched_pick_eq [of "?s2\<lparr>vwrites := acked s\<rparr>" p] r by simp
  show ?thesis
    unfolding disk_wait_def waiting_sleep [OF w]
    using intr pk by (simp add: seq_def bind_def waiting_back [OF w] on_vq_def modify_def q)
qed

section \<open>A whole request\<close>

definition request :: "nat \<Rightarrow> bool \<Rightarrow> u32 \<Rightarrow> vqueue \<Rightarrow> vqueue" where
  "request b out bn q = q\<lparr>
     q_ops := (q_ops q)(0 := \<lparr>rq_type = (if out then VIRTIO_BLK_T_OUT else VIRTIO_BLK_T_IN),
       rq_sector = ucast (bn * 2)\<rparr>),
     q_desc := (q_desc q)(
       0 := \<lparr>d_addr = DmaOps 0, d_len = 16, d_flags = VRING_DESC_F_NEXT, d_next = 1\<rparr>,
       1 := \<lparr>d_addr = DmaData b, d_len = of_nat BSIZE,
              d_flags = (if out then 0 else VRING_DESC_F_WRITE) OR VRING_DESC_F_NEXT, d_next = 2\<rparr>,
       2 := \<lparr>d_addr = DmaStatus 0, d_len = 1, d_flags = VRING_DESC_F_WRITE, d_next = 0\<rparr>),
     q_status := (q_status q)(0 := 0xff),
     q_avail := (q_avail q)(unat (q_avail_idx q) mod VNUM := 0),
     q_avail_idx := q_avail_idx q + 1\<rparr>"

lemma BSIZE_val: "BSIZE = 1024" by (simp add: BSIZE_def)

lemma virtio_submit_eq:
  "virtio_submit b out (0, 1, 2) s = Ret () (s\<lparr>vq := request b out (b_blockno (bufs s b)) (vq s),
     bufs := (bufs s)(b := (bufs s b)\<lparr>b_disk := True\<rparr>), vinfo := (vinfo s)(0 := Some b),
     vwrites := vwrites s @ [(VIRTIO_MMIO_QUEUE_NOTIFY, 0)]\<rparr>)"
  by (simp add: virtio_submit_def km_simps Let_def request_def BSIZE_val)

text \<open>The block of the disk that a block number means; 32-bit arithmetic makes the sector number.\<close>

definition blk :: "u32 \<Rightarrow> nat" where
  "blk bn = unat (bn * 2) div 2"

definition moved :: "nat \<Rightarrow> bool \<Rightarrow> u32 \<Rightarrow> vqueue \<Rightarrow> vqueue" where
  "moved b out bn q =
     (if out then q\<lparr>q_disk := (q_disk q)(blk bn := wr (q_disk q (blk bn)) 0 (rd (q_data q b) 0 BSIZE))\<rparr>
      else q\<lparr>q_data := (q_data q)(b := wr (q_data q b) 0 (rd (q_disk q (blk bn)) 0 BSIZE))\<rparr>)"

lemma serve_request:
  assumes "q_avail_idx q = q_used_idx q"
  shows "serve (request b out bn q) =
    (request b out bn (moved b out bn q))\<lparr>q_status := (q_status q)(0 := 0),
      q_used := (q_used q)(unat (q_used_idx q) mod VNUM := 0), q_used_idx := q_used_idx q + 1\<rparr>"
proof -
  have s: "unat (ucast (bn * 2) :: u64) = unat (bn * 2)"
    using unat_lt32 [of "bn * 2"] by (simp add: unsigned_ucast_eq take_bit_nat_eq_self)
  have t: "VIRTIO_BLK_T_OUT \<noteq> VIRTIO_BLK_T_IN" by (simp add: VIRTIO_BLK_T_OUT_def VIRTIO_BLK_T_IN_def)
  show ?thesis
    using assms t 
    by (cases out) (simp_all add: serve_def request_def moved_def Let_def blk_def BSIZE_val s)
qed

lemma wake_all_twice [simp]: "wake_all c me P (wake_all c me P t) = wake_all c me P t"
  by (rule ext) (simp add: wake_all_def woken_def)

lemma free_desc_eq:
  assumes "i < VNUM" and "\<not> vfree s i" and "sane (mach s)" and "procs_unlocked (mach s)"
  shows "free_desc i s = Ret () (s\<lparr>mach := quiet (mach s),
     vq := (vq s)\<lparr>q_desc := (q_desc (vq s))(i := desc0)\<rparr>, vfree := (vfree s)(i := True),
     proctab := wake_all (Some ChanDiskFree) (cproc (mycpu (mach s))) {..<NPROC} (proctab s)\<rparr>)"
  using assms by (simp add: free_desc_def km_simps)

lemma flags_next:
  "VRING_DESC_F_NEXT \<noteq> 0" "VRING_DESC_F_WRITE AND VRING_DESC_F_NEXT = 0"
  "((if w then 0 else VRING_DESC_F_WRITE) OR VRING_DESC_F_NEXT) AND VRING_DESC_F_NEXT \<noteq> 0"
  by (simp_all add: VRING_DESC_F_NEXT_def VRING_DESC_F_WRITE_def)

lemma free_chain_request:
  assumes q: "q_desc (vq s) = q_desc (request b out bn q)"
    and f: "\<not> vfree s 0" "\<not> vfree s 1" "\<not> vfree s 2" and m: "mach s = taken l m" "sane m" "procs_unlocked (taken l m)"
  shows "free_chain_v 0 s = Ret () (s\<lparr>
     vq := (vq s)\<lparr>q_desc := (q_desc (vq s))(0 := desc0, 1 := desc0, 2 := desc0)\<rparr>,
     vfree := (vfree s)(0 := True, 1 := True, 2 := True),
     proctab := wake_all (Some ChanDiskFree) (cproc (mycpu m)) {..<NPROC} (proctab s)\<rparr>)"
proof -
  have v: "VNUM + 1 = Suc (Suc (Suc 6))" by (simp add: VNUM_val)
  have 0: "free_chain_turn 0 s = Ret (Inl 1) (s\<lparr>vq := (vq s)\<lparr>q_desc := (q_desc (vq s))(0 := desc0)\<rparr>,
      vfree := (vfree s)(0 := True), proctab := wake_all (Some ChanDiskFree) (cproc (mycpu m)) {..<NPROC} (proctab s)\<rparr>)"
    (is "_ = Ret _ ?s1")
    using assms free_desc_eq [of 0 s]
    by (simp add: free_chain_turn_def km_simps q request_def flags_next VNUM_val)
  have 1: "free_chain_turn 1 ?s1 = Ret (Inl 2) (?s1\<lparr>vq := (vq s)\<lparr>q_desc := (q_desc (vq s))(0 := desc0, 1 := desc0)\<rparr>,
      vfree := (vfree s)(0 := True, 1 := True)\<rparr>)" (is "_ = Ret _ ?s2")
    using assms free_desc_eq [of 1 ?s1]
    by (simp add: free_chain_turn_def km_simps q request_def flags_next VNUM_val)
  have 2: "free_chain_turn 2 ?s2 = Ret (Inr ()) (?s1\<lparr>vq := (vq s)\<lparr>q_desc := (q_desc (vq s))(0 := desc0, 1 := desc0, 2 := desc0)\<rparr>,
      vfree := (vfree s)(0 := True, 1 := True, 2 := True)\<rparr>)"
    using assms free_desc_eq [of 2 ?s2]
    by (simp add: free_chain_turn_def km_simps q request_def flags_next VNUM_val)
  show ?thesis
    unfolding free_chain_v_def v by (simp only: loop.simps bind_def 0 1 2 outcome.case sum.case ret_def) simp
qed

text \<open>The state after a request that was served, from \<open>s\<close>.\<close>

definition rw_done :: "nat \<Rightarrow> bool \<Rightarrow> nat \<Rightarrow> 'z vdisk_scheme \<Rightarrow> 'z vdisk_scheme \<Rightarrow> bool" where
  "rw_done b out p s s' \<longleftrightarrow> (\<exists>q w t. s' = s\<lparr>mach := quiet (mach s), vq := q, vwrites := w, proctab := t,
       vused_idx := vused_idx s + 1, vinfo := (vinfo s)(0 := None),
       bufs := (bufs s)(b := (bufs s b)\<lparr>b_disk := False\<rparr>)\<rparr>
     \<and> q_data q = q_data (moved b out (b_blockno (bufs s b)) (vq s))
     \<and> q_disk q = q_disk (moved b out (b_blockno (bufs s b)) (vq s))
     \<and> (\<forall>r. p_pid (t r) = p_pid (proctab s r)) \<and> disk_idle s')"

lemma rw_doneI:
  assumes "q_data q = q_data (moved b out (b_blockno (bufs s b)) (vq s))"
    and "q_disk q = q_disk (moved b out (b_blockno (bufs s b)) (vq s))"
    and "\<And>r. p_pid (t r) = p_pid (proctab s r)" and "disk_idle s"
    and "q_used_idx q = q_used_idx (vq s) + 1" "q_avail_idx q = q_used_idx (vq s) + 1"
  shows "rw_done b out p s (s\<lparr>mach := quiet (mach s), vq := q, vwrites := w, proctab := t,
       vused_idx := vused_idx s + 1, vinfo := (vinfo s)(0 := None),
       bufs := (bufs s)(b := (bufs s b)\<lparr>b_disk := False\<rparr>)\<rparr>)"
  unfolding rw_done_def
  by (intro exI [of _ q] exI [of _ w] exI [of _ t]) (use assms in \<open>simp add: disk_idle_def\<close>)

lemma virtio_disk_rw_served:
  fixes s :: "'z vdisk_scheme"
  assumes run: "running p (mach s)" "p < NPROC" and idl: "disk_idle s"
    and dev: "vdev s (request b out (b_blockno (bufs s b)) (vq s)) = serve (request b out (b_blockno (bufs s b)) (vq s))"
  shows "\<exists>s'. virtio_disk_rw b out s = Ret () s' \<and> rw_done b out p s s'"
proof -
  let ?bn = "b_blockno (bufs s b)" let ?q = "request b out ?bn (vq s)"
  let ?m = "quiet (mach s)"
  let ?s1 = "s\<lparr>vfree := (vfree s)(0 := False, 1 := False, 2 := False), vq := ?q,
      bufs := (bufs s)(b := (bufs s b)\<lparr>b_disk := True\<rparr>), vinfo := (vinfo s)(0 := Some b),
      vwrites := vwrites s @ [(VIRTIO_MMIO_QUEUE_NOTIFY, 0)],
      mach := taken VdiskLock ?m\<rparr>"
  note r = runningD [OF run(1)] 
  note i = idl [unfolded disk_idle_def]
  have w: "waiting b p ?s1 ?m" using run by (simp add: waiting_def)
  have sv: "vdev ?s1 (vq ?s1) = serve ?q" using dev by simp
  let ?s2 = "?s1\<lparr>vq := serve ?q, vwrites := acked ?s1, vused_idx := vused_idx s + 1,
     bufs := (bufs s)(b := (bufs s b)\<lparr>b_disk := False\<rparr>), proctab := slept (ChanBuf b) p (proctab s)\<rparr>"
  note sq = serve_request [of "vq s" b out ?bn]
  have wait: "disk_wait b p ?s1 = Ret () ?s2"
    using disk_wait_served [OF w sv [symmetric], of 0] i sq by (simp add: request_def)
  have lp: "loop 2 (virtio_wait_turn b p) () ?s1 = Ret () ?s2"
    using wait by (simp add: numeral_2_eq_2 virtio_wait_turn_def bind_def gets_def seq_def ret_def)
  let ?s3 = "?s2\<lparr>vinfo := (vinfo s)(0 := None)\<rparr>"
  have "free_chain_v 0 ?s3 = Ret () (?s3\<lparr>
     vq := (vq ?s3)\<lparr>q_desc := (q_desc (vq ?s3))(0 := desc0, 1 := desc0, 2 := desc0)\<rparr>,
     vfree := (vfree ?s3)(0 := True, 1 := True, 2 := True),
     proctab := wake_all (Some ChanDiskFree) (cproc (mycpu ?m)) {..<NPROC} (proctab ?s3)\<rparr>)"
    by (rule free_chain_request [where m = ?m and l = VdiskLock and b = b and out = out and bn = ?bn and q = "vq s"])
      (use r sq i in \<open>simp_all add: moved_def request_def\<close>)
  moreover have "(vfree s)(0 := True, 1 := True, 2 := True) = vfree s"
    using i by (intro ext) (auto simp: VNUM_val)
  ultimately have "virtio_disk_rw b out s = Ret () (s\<lparr>mach := ?m,
      vq := (serve ?q)\<lparr>q_desc := (q_desc (serve ?q))(0 := desc0, 1 := desc0, 2 := desc0)\<rparr>, vwrites := acked ?s1,
      proctab := wake_all (Some ChanDiskFree) (cproc (mycpu ?m)) {..<NPROC} (slept (ChanBuf b) p (proctab s)),
      vused_idx := vused_idx s + 1, vinfo := (vinfo s)(0 := None),
      bufs := (bufs s)(b := (bufs s b)\<lparr>b_disk := False\<rparr>)\<rparr>)"
    using r i lp by (simp add: virtio_disk_rw_def alloc3_desc_idle virtio_submit_eq [simplified] km_simps)
  moreover have "rw_done b out p s (s\<lparr>mach := ?m,
      vq := (serve ?q)\<lparr>q_desc := (q_desc (serve ?q))(0 := desc0, 1 := desc0, 2 := desc0)\<rparr>, vwrites := acked ?s1,
      proctab := wake_all (Some ChanDiskFree) (cproc (mycpu ?m)) {..<NPROC} (slept (ChanBuf b) p (proctab s)),
      vused_idx := vused_idx s + 1, vinfo := (vinfo s)(0 := None),
      bufs := (bufs s)(b := (bufs s b)\<lparr>b_disk := False\<rparr>)\<rparr>)"
    by (rule rw_doneI) (use idl i sq in \<open>auto simp: request_def moved_def wake_all_def woken_def\<close>)
  ultimately show ?thesis by blast
qed

lemma virtio_disk_rw_dead:
  fixes s :: "'z vdisk_scheme"
  assumes run: "running p (mach s)" "p < NPROC" and idl: "disk_idle s"
    and dev: "vdev s (request b out (b_blockno (bufs s b)) (vq s)) = request b out (b_blockno (bufs s b)) (vq s)"
  shows "\<exists>s'. virtio_disk_rw b out s = Stop Hang s' \<and> q_disk (vq s') = q_disk (vq s) \<and> vdev s' = vdev s"
proof -
  let ?q = "request b out (b_blockno (bufs s b)) (vq s)" let ?m = "quiet (mach s)"
  let ?s1 = "s\<lparr>vfree := (vfree s)(0 := False, 1 := False, 2 := False), vq := ?q,
      bufs := (bufs s)(b := (bufs s b)\<lparr>b_disk := True\<rparr>), vinfo := (vinfo s)(0 := Some b),
      vwrites := vwrites s @ [(VIRTIO_MMIO_QUEUE_NOTIFY, 0)],
      mach := taken VdiskLock ?m\<rparr>"
  note r = runningD [OF run(1)]
  note i = idl [unfolded disk_idle_def]
  have "waiting b p ?s1 ?m" using run by (simp add: waiting_def)
  from disk_wait_dead [OF this] dev i obtain s'
    where s': "disk_wait b p ?s1 = Stop Hang s'" "vq s' = ?q" "vdev s' = vdev s"
    by (auto simp: request_def)
  have "loop 2 (virtio_wait_turn b p) () ?s1 = Stop Hang s'"
    using s'(1) by (simp add: numeral_2_eq_2 virtio_wait_turn_def bind_def gets_def seq_def)
  then have "virtio_disk_rw b out s = Stop Hang s'"
    using r i by (simp add: virtio_disk_rw_def alloc3_desc_idle virtio_submit_eq [simplified] km_simps)
  with s' show ?thesis by (simp add: request_def)
qed

end
