(* ===== verification/Bio_list.thy ===== *)
theory Bio_list
  imports Virtio_props
begin

text \<open>
  The buffer cache at the level of its list: the two scans find what they look for, \<^verbatim>\<open>bget\<close>
  returns the buffer of a block or recycles the least recently used free one, and \<^verbatim>\<open>brelse\<close>
  moves a buffer nobody uses to the front.
\<close>

section \<open>Doubly linked lists\<close>

fun links :: "(nat \<Rightarrow> nat) \<Rightarrow> (nat \<Rightarrow> nat) \<Rightarrow> nat list \<Rightarrow> bool" where
  "links nx pv (x # y # zs) = (nx x = y \<and> pv y = x \<and> links nx pv (y # zs))"
| "links nx pv _ = True"

lemma links_append: "links nx pv (xs @ x # ys) \<longleftrightarrow> links nx pv (xs @ [x]) \<and> links nx pv (x # ys)"
proof (induction xs)
  case Nil
  show ?case by simp
next
  case (Cons z xs)
  then show ?case by (cases xs) auto
qed

lemma links_upd:
  "z \<notin> set (butlast xs) \<Longrightarrow> links (nx(z := v)) pv xs = links nx pv xs"
  "z \<notin> set (tl xs) \<Longrightarrow> links nx (pv(z := v)) xs = links nx pv xs"
  by (induction nx pv xs rule: links.induct) auto

lemma links_rev: "links nx pv (rev xs) = links pv nx xs"
proof (induction pv nx xs rule: links.induct)
  case (1 nx pv x y zs)
  have "links pv nx (rev (x # y # zs)) = links pv nx (rev zs @ y # [x])" by simp
  also have "\<dots> \<longleftrightarrow> links pv nx (rev (y # zs)) \<and> links pv nx [y, x]"
    by (subst links_append) simp
  finally show ?case using 1 by auto
qed auto

lemma links_mid:
  assumes "links nx pv (h # A @ b # B @ [h])"
  shows "pv b = last (h # A)" "nx b = hd (B @ [h])"
proof -
  obtain n T where bn: "B @ [h] = n # T" by (cases B) auto
  obtain P p where pb: "h # A = P @ [p]" by (metis append_butlast_last_id list.distinct(1))
  have e: "h # A @ b # B @ [h] = P @ p # b # n # T"
    using bn pb by (metis append.assoc append_Cons append_Nil)
  show "pv b = last (h # A)" "nx b = hd (B @ [h])"
    using assms [unfolded e] links_append [of nx pv P p "b # n # T"] unfolding bn pb by simp_all
qed

text \<open>Taking an element out and putting one in at the front.\<close>

lemma links_unlink:
  assumes "links nx pv (h # A @ b # B @ [h])" and "distinct (A @ b # B)" and "h \<notin> set (A @ b # B)"
  shows "links (nx(pv b := nx b)) (pv(nx b := pv b)) (h # A @ B @ [h])"
proof -
  obtain n T where bn: "B @ [h] = n # T" by (cases B) auto
  obtain P p where pb: "h # A = P @ [p]" by (metis append_butlast_last_id list.distinct(1))
  have e: "h # A @ b # B @ [h] = P @ p # b # n # T" "h # A @ B @ [h] = P @ p # n # T"
    using bn pb by (metis append.assoc append_Cons append_Nil)+
  have l: "links nx pv (P @ [p])" "links nx pv (p # b # n # T)"
    using assms(1) links_append [of nx pv P p "b # n # T"] by (simp_all add: e)
  then have v: "pv b = p" "nx b = n" "links nx pv (n # T)" by auto
  have d: "distinct (P @ [p] @ b # B)" using assms(2,3) pb
    by (metis Cons_eq_appendI append.assoc distinct.simps(2))
  have p: "p \<notin> set P" "p \<notin> set (butlast (n # T))"
    using d bn by (auto simp: butlast_append simp flip: bn)
  have n: "n \<notin> set (tl (P @ [p]))" "n \<notin> set T"
    using assms(2,3) bn by (cases B; auto simp flip: pb)+
  let ?nx = "nx(p := n)" and ?pv = "pv(n := p)"
  have "links ?nx ?pv (P @ [p])"
    using l(1) p(1) n(1) links_upd(1) [of p "P @ [p]" nx n ?pv] links_upd(2) [of n "P @ [p]" nx pv p] by simp
  moreover have "links ?nx ?pv (n # T)"
    using v(3) p(2) n(2) links_upd(1) [of p "n # T" nx n ?pv] links_upd(2) [of n "n # T" nx pv p] by simp
  ultimately show ?thesis
    using links_append [of ?nx ?pv P p "n # T"] unfolding e(2) v by simp
qed

lemma links_link_front:
  assumes "links nx pv (h # A @ [h])" and "b \<notin> set A" and "b \<noteq> h" and "distinct A" and "h \<notin> set A"
  shows "links (nx(b := nx h, h := b)) (pv(b := h, nx h := b)) (h # b # A @ [h])"
proof -
  have n: "nx h = hd (A @ [h])" using assms(1) by (cases A) auto
  have "links nx pv (A @ [h])" using assms(1) by (cases A) auto
  moreover have "hd (A @ [h]) \<notin> set (tl (A @ [h]))" using assms(4,5) by (cases A) auto
  ultimately have "links (nx(b := nx h, h := b)) (pv(b := h, nx h := b)) (A @ [h])"
    using assms(2,3,5) n
    by (subst links_upd(1), simp, subst links_upd(1), simp, subst links_upd(2), simp,
        subst links_upd(2)) (cases A; auto)+
  then show ?thesis using n assms(2,3) by (cases A) (auto simp: fun_upd_def)
qed

section \<open>The list of buffers\<close>

text \<open>The buffers from the most to the least recently used one.\<close>

definition blist :: "(nat \<Rightarrow> buf) \<Rightarrow> nat list \<Rightarrow> bool" where
  "blist bf L \<longleftrightarrow> links (\<lambda>b. b_next (bf b)) (\<lambda>b. b_prev (bf b)) (bhead # L @ [bhead])
     \<and> distinct L \<and> set L = {..<NBUF}"

lemma blistD:
  assumes "blist bf L"
  shows "distinct L" "set L = {..<NBUF}" "bhead \<notin> set L" "length L = NBUF"
  using assms distinct_card [of L] by (auto simp: blist_def)

lemma scan_loop:
  assumes "\<And>b. f b s = (if b = h then Ret (Inr None) s
      else if P b then Ret (Inr (Some b)) s else Ret (Inl (nx b)) s)"
    and "links nx pv (xs @ [h])" and "h \<notin> set xs" and "length xs < n"
  shows "loop n f (hd (xs @ [h])) s = Ret (find P xs) s"
  using assms(2-4)
proof (induction xs arbitrary: n)
  case Nil
  then show ?case by (cases n) (simp_all add: bind_def assms(1) ret_def)
next
  case (Cons x xs)
  then obtain k where k: "n = Suc k" by (cases n) auto
  have "nx x = hd (xs @ [h])" "links nx pv (xs @ [h])" using Cons.prems(1) by (cases xs; auto)+
  with Cons show ?case by (simp add: k bind_def assms(1) ret_def)
qed

lemma scan_cached_eq:
  assumes "blist (bufs s) L"
  shows "scan_cached dev bn s = Ret (find (\<lambda>b. b_dev (bufs s b) = dev \<and> b_blockno (bufs s b) = bn) L) s"
proof -
  let ?nx = "\<lambda>b. b_next (bufs s b)" and ?pv = "\<lambda>b. b_prev (bufs s b)"
  have "links ?nx ?pv (L @ [bhead])" "b_next (bufs s bhead) = hd (L @ [bhead])"
    using assms by (cases L; simp add: blist_def)+
  moreover note blistD [OF assms]
  ultimately show ?thesis
    unfolding scan_cached_def
    by (simp add: bind_def gets_def del: loop.simps) (rule scan_loop [where nx = ?nx and pv = ?pv], auto simp: km_simps)
qed

lemma scan_free_eq:
  assumes "blist (bufs s) L"
  shows "scan_free s = Ret (find (\<lambda>b. b_refcnt (bufs s b) = 0) (rev L)) s"
proof -
  let ?nx = "\<lambda>b. b_next (bufs s b)" and ?pv = "\<lambda>b. b_prev (bufs s b)"
  have r: "links ?pv ?nx (bhead # rev L @ [bhead])"
    using assms links_rev [of ?pv ?nx "bhead # L @ [bhead]"] by (simp add: blist_def)
  then have "links ?pv ?nx (rev L @ [bhead])" "b_prev (bufs s bhead) = hd (rev L @ [bhead])"
    by (cases "rev L"; simp)+
  moreover note blistD [OF assms]
  ultimately show ?thesis
    unfolding scan_free_def
    by (simp add: bind_def gets_def del: loop.simps) (rule scan_loop [where nx = ?pv and pv = ?nx], auto simp: km_simps)
qed

text \<open>Only the links matter for the list.\<close>

lemma blist_cong:
  assumes "\<And>b. b_next (bf b) = b_next (bf' b)" "\<And>b. b_prev (bf b) = b_prev (bf' b)"
  shows "blist bf L = blist bf' L"
  using assms by (simp add: blist_def)

definition put_next :: "nat \<Rightarrow> nat \<Rightarrow> (nat \<Rightarrow> buf) \<Rightarrow> nat \<Rightarrow> buf" where
  "put_next b n bf = bf(b := (bf b)\<lparr>b_next := n\<rparr>)"

definition put_prev :: "nat \<Rightarrow> nat \<Rightarrow> (nat \<Rightarrow> buf) \<Rightarrow> nat \<Rightarrow> buf" where
  "put_prev b n bf = bf(b := (bf b)\<lparr>b_prev := n\<rparr>)"

lemma set_next_put: "set_next b n s = Ret () (s\<lparr>bufs := put_next b n (bufs s)\<rparr>)"
  and set_prev_put: "set_prev b n s = Ret () (s\<lparr>bufs := put_prev b n (bufs s)\<rparr>)"
  by (simp_all add: km_simps put_next_def put_prev_def)

lemma put_sel [simp]:
  "b_next (put_next b n bf c) = (if c = b then n else b_next (bf c))"
  "b_prev (put_prev b n bf c) = (if c = b then n else b_prev (bf c))"
  "b_next (put_prev b n bf c) = b_next (bf c)" "b_prev (put_next b n bf c) = b_prev (bf c)"
  by (simp_all add: put_next_def put_prev_def)

text \<open>Two versions of the buffers that differ in their links only.\<close>

definition relinked :: "(nat \<Rightarrow> buf) \<Rightarrow> (nat \<Rightarrow> buf) \<Rightarrow> bool" where
  "relinked bf bf' \<longleftrightarrow> (\<forall>c. b_valid (bf' c) = b_valid (bf c) \<and> b_disk (bf' c) = b_disk (bf c)
     \<and> b_dev (bf' c) = b_dev (bf c) \<and> b_blockno (bf' c) = b_blockno (bf c) \<and> b_refcnt (bf' c) = b_refcnt (bf c))"

lemma relinked_put [simp]:
  "relinked bf bf" "relinked bf (put_next b n bf') = relinked bf bf'" "relinked bf (put_prev b n bf') = relinked bf bf'"
  by (auto simp: relinked_def put_next_def put_prev_def)

lemma move_front_eq:
  assumes L: "blist (bufs s) L" and b: "b < NBUF"
  shows "\<exists>bf. move_front b s = Ret () (s\<lparr>bufs := bf\<rparr>) \<and> blist bf (b # remove1 b L)
    \<and> relinked (bufs s) bf"
proof -
  let ?nx = "\<lambda>b. b_next (bufs s b)" and ?pv = "\<lambda>b. b_prev (bufs s b)"
  note d = blistD [OF L]
  from b d obtain A B where AB: "L = A @ b # B" by (metis in_set_conv_decomp lessThan_iff)
  let ?nx1 = "?nx(?pv b := ?nx b)" and ?pv1 = "?pv(?nx b := ?pv b)"
  let ?nx2 = "?nx1(b := ?nx1 bhead, bhead := b)" and ?pv2 = "?pv1(b := bhead, ?nx1 bhead := b)"
  have h: "b \<noteq> bhead" "bhead \<notin> set A" "bhead \<notin> set B" "b \<notin> set A" "b \<notin> set B" "distinct (A @ B)"
    using d b AB by auto
  have l0: "links ?nx ?pv (bhead # A @ b # B @ [bhead])" using L by (simp add: blist_def AB)
  have d0: "distinct (A @ b # B)" "bhead \<notin> set (A @ b # B)" using d(1,3) AB by simp_all
  have "links ?nx1 ?pv1 (bhead # (A @ B) @ [bhead])"
    using links_unlink [OF l0 d0] by (simp only: append.assoc)
  moreover have "b \<notin> set (A @ B)" "bhead \<notin> set (A @ B)" using h by simp_all
  ultimately have l: "links ?nx2 ?pv2 (bhead # b # (A @ B) @ [bhead])"
    using links_link_front [of ?nx1 ?pv1 bhead "A @ B" b] h(1,6) by blast
  have ne: "?pv b \<noteq> b" "?nx b \<noteq> b"
    using links_mid [OF l0] h by (auto simp: hd_append)
  define bf1 where "bf1 = put_next (?pv b) (?nx b) (put_prev (?nx b) (?pv b) (bufs s))"
  define bf where "bf = put_next bhead b (put_prev (?nx1 bhead) b (put_prev b bhead (put_next b (?nx1 bhead) bf1)))"
  have n1: "(\<lambda>c. b_next (bf1 c)) = ?nx1" "(\<lambda>c. b_prev (bf1 c)) = ?pv1"
    by (intro ext; simp add: bf1_def)+
  have nh: "b_next (bf1 bhead) = ?nx1 bhead" using fun_cong [OF n1(1)] .
  have "move_front b s = seq (modify (bufs_update (\<lambda>_. bf1))) (link_front b) s"
    using ne(2) by (simp add: move_front_def bind_def seq_def gets_def modify_def set_next_put set_prev_put
        bf1_def)
  also have "\<dots> = Ret () (s\<lparr>bufs := bf\<rparr>)"
    using h(1) nh by (simp add: link_front_def bind_def seq_def gets_def modify_def set_next_put set_prev_put bf_def)
  finally have mv: "move_front b s = Ret () (s\<lparr>bufs := bf\<rparr>)" .
  have n2: "(\<lambda>c. b_next (bf c)) = ?nx2" "(\<lambda>c. b_prev (bf c)) = ?pv2"
    by (rule ext; simp add: bf_def fun_cong [OF n1(1)] fun_cong [OF n1(2)])+
  have "blist bf (b # remove1 b L)"
  proof -
    have "remove1 b L = A @ B" using AB h(4) by (simp add: remove1_append)
    moreover have "set (b # A @ B) = {..<NBUF}" using d(2) AB by auto
    ultimately show ?thesis using l h unfolding blist_def n2 by simp
  qed
  moreover have "relinked (bufs s) bf" by (simp add: bf_def bf1_def)
  ultimately show ?thesis using mv by blast
qed

end
