(* ===== verification/Crash.thy ===== *)
theory Crash
  imports Prelude
begin

text \<open>
  Weakest preconditions with a crash condition: a routine either returns in a state that
  satisfies the postcondition, or it waits forever for a device that has stopped, in a state that
  satisfies the crash condition. It neither panics nor ends in another way.
\<close>

definition wpc :: "('a, 's) km \<Rightarrow> ('a \<Rightarrow> 's \<Rightarrow> bool) \<Rightarrow> ('s \<Rightarrow> bool) \<Rightarrow> 's \<Rightarrow> bool" where
  "wpc m Q C s = (case m s of Ret a s' \<Rightarrow> Q a s' | Stop e s' \<Rightarrow> e = Hang \<and> C s')"

named_theorems wpc_simps

lemma wpc_ret [wpc_simps]: "wpc (ret x) Q C = Q x"
  by (rule ext) (simp add: wpc_def ret_def)

lemma wpc_bind [wpc_simps]: "wpc (bind m f) Q C = wpc m (\<lambda>a. wpc (f a) Q C) C"
  by (rule ext) (simp add: wpc_def bind_def split: outcome.splits)

lemma wpc_seq [wpc_simps]: "wpc (seq m n) Q C = wpc m (\<lambda>a. wpc n Q C) C"
  by (rule ext) (simp add: wpc_def seq_def split: outcome.splits)

lemma wpc_gets [wpc_simps]: "wpc (gets f) Q C = (\<lambda>s. Q (f s) s)"
  by (rule ext) (simp add: wpc_def gets_def)

lemma wpc_modify [wpc_simps]: "wpc (modify f) Q C = (\<lambda>s. Q () (f s))"
  by (rule ext) (simp add: wpc_def modify_def)

lemma wpc_whenk [wpc_simps]: "wpc (whenk b m) Q C = (if b then wpc m Q C else Q ())"
  by (rule ext) (simp add: wpc_def whenk_def)

lemma wpc_Ret: "m s = Ret a s' \<Longrightarrow> wpc m Q C s = Q a s'"
  by (simp add: wpc_def)

lemma wpc_conseq:
  assumes "wpc m Q C s" and "\<And>a s'. Q a s' \<Longrightarrow> Q' a s'" and "\<And>s'. C s' \<Longrightarrow> C' s'"
  shows "wpc m Q' C' s"
  using assms by (auto simp: wpc_def split: outcome.splits)

lemma wpc_forall_do:
  assumes "I xs s"
    and "\<And>i is s. I (i # is) s \<Longrightarrow> wpc (f i) (\<lambda>_ s'. I is s') C s"
    and "\<And>s. I [] s \<Longrightarrow> Q () s"
  shows "wpc (forall_do xs f) Q C s"
  using assms(1)
proof (induction xs arbitrary: s)
  case Nil
  then show ?case by (simp add: assms(3) wpc_simps)
next
  case (Cons i xs)
  from assms(2) [OF Cons.prems] show ?case
    unfolding forall_do.simps wpc_seq by (rule wpc_conseq) (auto intro: Cons.IH)
qed

lemma wpcE:
  assumes "wpc m Q C s"
  obtains a s' where "m s = Ret a s'" "Q a s'" | s' where "m s = Stop Hang s'" "C s'"
  using assms by (auto simp: wpc_def split: outcome.splits)

end
