(* ===== verification/Bio_props.thy ===== *)
theory Bio_props
  imports Bio_list Crash
begin

text \<open>
  The buffer cache as a store of blocks. The abstract state gives for every block of the device its
  reference count, whether it is locked, its current value and its value on the disk; every
  routine of bio.c is shown to make the corresponding step on it, or to wait forever for a device
  that has stopped, with the disk in the state before or after the transfer.
\<close>

section \<open>Closed forms of bget\<close>

lemma bget_cached:
  assumes "running p (mach s)" and "blist (bufs s) L"
    and "find (\<lambda>b. b_dev (bufs s b) = dev \<and> b_blockno (bufs s b) = bn) L = Some b"
    and "\<not> sl_locked (slk s (BufLock b))"
  shows "bget dev bn s = Ret b (s\<lparr>mach := quiet (mach s),
     bufs := (bufs s)(b := (bufs s b)\<lparr>b_refcnt := b_refcnt (bufs s b) + 1\<rparr>),
     slk := (slk s)(BufLock b := sl_taken (p_pid (proctab s p)) (slk s (BufLock b)))\<rparr>)"
  using runningD [OF assms(1)] assms
  by (simp add: bget_def km_simps scan_cached_eq [where L = L] acquiresleep_eq)

lemma bget_recycle:
  assumes "running p (mach s)" and "blist (bufs s) L"
    and "find (\<lambda>b. b_dev (bufs s b) = dev \<and> b_blockno (bufs s b) = bn) L = None"
    and "find (\<lambda>b. b_refcnt (bufs s b) = 0) (rev L) = Some b" and "\<not> sl_locked (slk s (BufLock b))"
  shows "bget dev bn s = Ret b (s\<lparr>mach := quiet (mach s),
     bufs := (bufs s)(b := (bufs s b)\<lparr>b_dev := dev, b_blockno := bn, b_valid := False, b_refcnt := 1\<rparr>),
     slk := (slk s)(BufLock b := sl_taken (p_pid (proctab s p)) (slk s (BufLock b)))\<rparr>)"
  using runningD [OF assms(1)] assms
  by (simp add: bget_def km_simps scan_cached_eq [where L = L] scan_free_eq [where L = L] acquiresleep_eq)

lemma bget_full:
  assumes "running p (mach s)" and "blist (bufs s) L"
    and "find (\<lambda>b. b_dev (bufs s b) = dev \<and> b_blockno (bufs s b) = bn) L = None"
    and "find (\<lambda>b. b_refcnt (bufs s b) = 0) (rev L) = None"
  shows "bget dev bn s = Stop (Panic ''bget: no buffers'') (s\<lparr>mach := taken BcacheLock (mach s)\<rparr>)"
  using runningD [OF assms(1)] assms
  by (simp add: bget_def km_simps scan_cached_eq [where L = L] scan_free_eq [where L = L])

section \<open>The abstract store\<close>

record ablocks =
  a_refs :: "nat \<Rightarrow> nat"
  a_lock :: "nat \<Rightarrow> bool"
  a_val :: "nat \<Rightarrow> u8 list"
  a_disk :: "nat \<Rightarrow> u8 list"

definition content :: "bytes \<Rightarrow> u8 list" where
  "content d = rd d 0 BSIZE"

definition dk :: "'z vdisk_scheme \<Rightarrow> nat \<Rightarrow> u8 list" where
  "dk s n = content (q_disk (vq s) n)"

text \<open>What one buffer says about the abstract state.\<close>

definition buf_ok :: "u32 \<Rightarrow> u32 \<Rightarrow> ablocks \<Rightarrow> buf \<Rightarrow> sleeplock \<Rightarrow> bytes \<Rightarrow> bool" where
  "buf_ok dv pid A r k d \<longleftrightarrow>
     (if b_dev r = dv then
        unat (b_blockno r) < 2 ^ 31
      \<and> a_refs A (unat (b_blockno r)) = unat (b_refcnt r)
      \<and> a_lock A (unat (b_blockno r)) = sl_locked k
      \<and> a_val A (unat (b_blockno r)) = (if b_valid r then content d else a_disk A (unat (b_blockno r)))
      \<and> (sl_locked k \<longrightarrow> b_valid r \<and> sl_pid k = pid \<and> b_refcnt r \<noteq> 0)
      \<and> (b_refcnt r = 0 \<longrightarrow> a_val A (unat (b_blockno r)) = a_disk A (unat (b_blockno r)))
      else b_refcnt r = 0 \<and> \<not> sl_locked k \<and> \<not> b_valid r)"

definition caches :: "u32 \<Rightarrow> 'z vdisk_scheme \<Rightarrow> nat \<Rightarrow> nat \<Rightarrow> bool" where
  "caches dv s b n \<longleftrightarrow> b < NBUF \<and> b_dev (bufs s b) = dv \<and> unat (b_blockno (bufs s b)) = n"

text \<open>The current process \<open>p\<close> is the only one that uses the disk, the device \<open>V\<close>.\<close>

definition brel :: "(vqueue \<Rightarrow> vqueue) \<Rightarrow> u32 \<Rightarrow> nat \<Rightarrow> 'z vdisk_scheme \<Rightarrow> ablocks \<Rightarrow> bool" where
  "brel V dv p s A \<longleftrightarrow> running p (mach s) \<and> p < NPROC \<and> disk_idle s \<and> vdev s = V \<and> blk_device V
     \<and> (\<exists>L. blist (bufs s) L)
     \<and> (\<forall>b<NBUF. buf_ok dv (p_pid (proctab s p)) A (bufs s b) (slk s (BufLock b)) (q_data (vq s) b))
     \<and> (\<forall>b c n. caches dv s b n \<and> caches dv s c n \<longrightarrow> b = c)
     \<and> (\<forall>n. (\<forall>b. \<not> caches dv s b n) \<longrightarrow> a_refs A n = 0 \<and> \<not> a_lock A n \<and> a_val A n = a_disk A n)
     \<and> a_disk A = dk s"

text \<open>The parts of the state that the routines of bio.c may change.\<close>

definition bframe :: "'z vdisk_scheme \<Rightarrow> 'z vdisk_scheme \<Rightarrow> bool" where
  "bframe s s' \<longleftrightarrow> s' = s\<lparr>mach := mach s', proctab := proctab s', slk := slk s', vq := vq s', vfree := vfree s',
     vused_idx := vused_idx s', vinfo := vinfo s', vwrites := vwrites s', bufs := bufs s'\<rparr>"

text \<open>The disk when the device has stopped.\<close>

definition live_device :: "(vqueue \<Rightarrow> vqueue) \<Rightarrow> bool" where
  "live_device d \<longleftrightarrow> (\<forall>q. q_avail_idx q = q_used_idx q + 1 \<longrightarrow> d q = serve q)"

definition crashed :: "(vqueue \<Rightarrow> vqueue) \<Rightarrow> ((nat \<Rightarrow> u8 list) \<Rightarrow> bool) \<Rightarrow> 'z vdisk_scheme \<Rightarrow> bool" where
  "crashed V D s \<longleftrightarrow> \<not> live_device V \<and> D (dk s)"

lemma bframe_refl: "bframe s s"
  by (simp add: bframe_def)

lemma bframe_trans:
  assumes "bframe s t" and "bframe t u"
  shows "bframe s u"
proof -
  obtain m pt k q f ui i w bf where t: "t = s\<lparr>mach := m, proctab := pt, slk := k, vq := q, vfree := f,
      vused_idx := ui, vinfo := i, vwrites := w, bufs := bf\<rparr>" using assms(1) unfolding bframe_def by blast
  show ?thesis using assms(2) unfolding bframe_def t by simp
qed

lemma bframe_vdev: "bframe s t \<Longrightarrow> vdev t = vdev s"
proof -
  assume "bframe s t"
  then obtain m pt k q f ui i w bf where "t = s\<lparr>mach := m, proctab := pt, slk := k, vq := q, vfree := f,
      vused_idx := ui, vinfo := i, vwrites := w, bufs := bf\<rparr>" unfolding bframe_def by blast
  then show ?thesis by simp
qed

section \<open>One request\<close>

lemma content_wr [simp]: "length bs = BSIZE \<Longrightarrow> content (wr m 0 bs) = bs"
  by (simp add: content_def)

lemma length_content [simp]: "length (content d) = BSIZE"
  by (simp add: content_def)

lemma blk_unat: "unat bn < 2 ^ 31 \<Longrightarrow> blk bn = unat bn"
  by (simp add: blk_def unat_word_ariths)

text \<open>What a served request makes of the state.\<close>

lemma rw_doneD:
  assumes "rw_done b out p s s'" and "unat (b_blockno (bufs s b)) < 2 ^ 31"
  shows "bframe s s'" "mach s' = quiet (mach s)" "slk s' = slk s" "vdev s' = vdev s"
    "p_pid (proctab s' r) = p_pid (proctab s r)" "disk_idle s'"
    "bufs s' = (bufs s)(b := (bufs s b)\<lparr>b_disk := False\<rparr>)"
    "dk s' n = (if out \<and> n = unat (b_blockno (bufs s b)) then content (q_data (vq s) b) else dk s n)"
    "content (q_data (vq s') c) = (if \<not> out \<and> c = b then dk s (unat (b_blockno (bufs s b))) else content (q_data (vq s) c))"
proof -
  obtain q w t where s': "s' = s\<lparr>mach := quiet (mach s), vq := q, vwrites := w, proctab := t,
       vused_idx := vused_idx s + 1, vinfo := (vinfo s)(0 := None),
       bufs := (bufs s)(b := (bufs s b)\<lparr>b_disk := False\<rparr>)\<rparr>"
    and q: "q_data q = q_data (moved b out (b_blockno (bufs s b)) (vq s))"
      "q_disk q = q_disk (moved b out (b_blockno (bufs s b)) (vq s))"
    and t: "\<forall>r. p_pid (t r) = p_pid (proctab s r)" and d: "disk_idle s'"
    using assms(1) unfolding rw_done_def by blast
  show "bframe s s'" by (simp add: bframe_def s')
  show "mach s' = quiet (mach s)" "slk s' = slk s" "vdev s' = vdev s"
    "p_pid (proctab s' r) = p_pid (proctab s r)" "disk_idle s'"
    "bufs s' = (bufs s)(b := (bufs s b)\<lparr>b_disk := False\<rparr>)"
    using t d by (simp_all add: s')
  have c: "rd m 0 BSIZE = content m" for m by (simp add: content_def)
  show "dk s' n = (if out \<and> n = unat (b_blockno (bufs s b)) then content (q_data (vq s) b) else dk s n)"
    "content (q_data (vq s') c) = (if \<not> out \<and> c = b then dk s (unat (b_blockno (bufs s b))) else content (q_data (vq s) c))"
    using blk_unat [OF assms(2)] by (auto simp: s' dk_def q moved_def c)
qed

lemma rw_wpc:
  assumes "running p (mach s)" and "p < NPROC" and "disk_idle s" and "vdev s = V" "blk_device V"
    and "\<And>s'. rw_done b out p s s' \<Longrightarrow> Q () s'" and "D (dk s)"
  shows "wpc (virtio_disk_rw b out) Q (crashed V D) s"
proof -
  let ?q = "request b out (b_blockno (bufs s b)) (vq s)"
  have i: "q_avail_idx ?q = q_used_idx ?q + 1" using assms(3) by (simp add: request_def disk_idle_def)
  show ?thesis
  proof (cases "vdev s ?q = serve ?q")
    case True
    from virtio_disk_rw_served [OF assms(1-3) True] assms(6) show ?thesis by (auto simp: wpc_def)
  next
    case False
    then have "vdev s ?q = ?q" "\<not> live_device V"
      using assms(4,5) i by (auto simp: blk_device_def live_device_def)
    with virtio_disk_rw_dead [OF assms(1-3), of b out] assms(7) show ?thesis
      by (auto simp: wpc_def crashed_def dk_def [abs_def])
  qed
qed

section \<open>Steps that change one buffer\<close>

lemma brelD:
  assumes "brel V dv p s A"
  shows "running p (mach s)" "p < NPROC" "disk_idle s" "vdev s = V \<and> blk_device V" "\<exists>L. blist (bufs s) L"
    "b < NBUF \<Longrightarrow> buf_ok dv (p_pid (proctab s p)) A (bufs s b) (slk s (BufLock b)) (q_data (vq s) b)"
    "caches dv s b n \<Longrightarrow> caches dv s c n \<Longrightarrow> b = c"
    "(\<And>b. \<not> caches dv s b n) \<Longrightarrow> a_refs A n = 0 \<and> \<not> a_lock A n \<and> a_val A n = a_disk A n"
    "a_disk A = dk s"
  using assms unfolding brel_def by blast+

lemma brel_cached:
  assumes "brel V dv p s A" and "caches dv s b n"
  shows "n < 2 ^ 31" "a_refs A n = unat (b_refcnt (bufs s b))" "a_lock A n = sl_locked (slk s (BufLock b))"
    "a_val A n = (if b_valid (bufs s b) then content (q_data (vq s) b) else a_disk A n)"
    "a_lock A n \<Longrightarrow> b_valid (bufs s b) \<and> sl_pid (slk s (BufLock b)) = p_pid (proctab s p) \<and> b_refcnt (bufs s b) \<noteq> 0"
    "a_refs A n = 0 \<Longrightarrow> a_val A n = a_disk A n"
  using brelD(6) [OF assms(1), of b] assms(2) by (auto simp: buf_ok_def caches_def unat_eq_0)

definition same_buf :: "'z vdisk_scheme \<Rightarrow> 'z vdisk_scheme \<Rightarrow> nat \<Rightarrow> bool" where
  "same_buf s s' c \<longleftrightarrow> b_dev (bufs s' c) = b_dev (bufs s c) \<and> b_blockno (bufs s' c) = b_blockno (bufs s c)
     \<and> b_refcnt (bufs s' c) = b_refcnt (bufs s c) \<and> b_valid (bufs s' c) = b_valid (bufs s c)
     \<and> slk s' (BufLock c) = slk s (BufLock c) \<and> content (q_data (vq s') c) = content (q_data (vq s) c)"

definition agree :: "nat \<Rightarrow> ablocks \<Rightarrow> ablocks \<Rightarrow> bool" where
  "agree n A A' \<longleftrightarrow> (\<forall>k. k \<noteq> n \<longrightarrow> a_refs A' k = a_refs A k \<and> a_lock A' k = a_lock A k
     \<and> a_val A' k = a_val A k \<and> a_disk A' k = a_disk A k)"

lemma brel_step:
  assumes rel: "brel V dv p s A" and b: "b < NBUF" and run: "running p (mach s')" "disk_idle s'"
    and const: "vdev s' = vdev s" "\<And>r. p_pid (proctab s' r) = p_pid (proctab s r)" and L: "blist (bufs s') L"
    and same: "\<And>c. c < NBUF \<Longrightarrow> c \<noteq> b \<Longrightarrow> same_buf s s' c"
    and new: "caches dv s' b n" "buf_ok dv (p_pid (proctab s p)) A' (bufs s' b) (slk s' (BufLock b)) (q_data (vq s') b)"
    and others: "\<And>c. c \<noteq> b \<Longrightarrow> \<not> caches dv s c n"
    and old: "\<And>k. k \<noteq> n \<Longrightarrow> caches dv s b k \<Longrightarrow> a_refs A k = 0"
    and agr: "agree n A A'" and dsk: "a_disk A' = dk s'"
  shows "brel V dv p s' A'"
proof -
  note D = brelD [OF rel]
  have ca: "caches dv s' c k = caches dv s c k" if "c \<noteq> b" for c k
    using same [of c] that by (auto simp: caches_def same_buf_def)
  have ok: "buf_ok dv (p_pid (proctab s' p)) A' (bufs s' c) (slk s' (BufLock c)) (q_data (vq s') c)" if "c < NBUF" for c
  proof (cases "c = b")
    case True
    then show ?thesis using new(2) const(2) by simp
  next
    case False
    have "b_dev (bufs s c) = dv \<longrightarrow> unat (b_blockno (bufs s c)) \<noteq> n"
      using others [OF False] that by (auto simp: caches_def)
    then show ?thesis
      using D(6) [OF that] same [OF that False] agr const(2) by (auto simp: buf_ok_def same_buf_def agree_def)
  qed
  have abs: "a_refs A' k = 0 \<and> \<not> a_lock A' k \<and> a_val A' k = a_disk A' k" if k: "\<And>c. \<not> caches dv s' c k" for k
  proof -
    have kn: "k \<noteq> n" using new(1) k by auto
    have "a_refs A k = 0 \<and> \<not> a_lock A k \<and> a_val A k = a_disk A k"
    proof (cases "caches dv s b k")
      case True
      with old [OF kn] have "a_refs A k = 0" by simp
      with brel_cached [OF rel True] show ?thesis by (auto simp: unat_eq_0)
    next
      case False
      with k ca have "\<And>c. \<not> caches dv s c k" by metis
      then show ?thesis by (rule D(8))
    qed
    with agr kn show ?thesis by (simp add: agree_def)
  qed
  have uniq: "c = d" if "caches dv s' c k" "caches dv s' d k" for c d k
    using that D(7) [of c k d] ca others new(1) by (metis caches_def)
  show ?thesis
    unfolding brel_def using D(2,4) run const(1) L ok uniq abs dsk by auto
qed

section \<open>bread\<close>

definition a_get :: "nat \<Rightarrow> ablocks \<Rightarrow> ablocks" where
  "a_get n A = A\<lparr>a_refs := (a_refs A)(n := Suc (a_refs A n)), a_lock := (a_lock A)(n := True)\<rparr>"

lemma agree_get [simp]: "agree n A (a_get n A)" by (simp add: agree_def a_get_def)

lemma of_nat_block:
  assumes "n < 2 ^ 31"
  shows "unat (of_nat n :: u32) = n" "bn = of_nat n \<longleftrightarrow> unat (bn :: u32) = n"
proof -
  show u: "unat (of_nat n :: u32) = n" using assms by (simp add: unsigned_of_nat take_bit_nat_eq_self)
  show "bn = of_nat n \<longleftrightarrow> unat (bn :: u32) = n" using u by (metis word_unat_eq_iff)
qed

lemma find_SomeD: "find P L = Some b \<Longrightarrow> b \<in> set L \<and> P b"
  by (induction L) (auto split: if_splits)

lemma find_unique:
  assumes "b \<in> set L" and "P b" and "\<And>c. c \<in> set L \<Longrightarrow> P c \<Longrightarrow> c = b"
  shows "find P L = Some b"
proof (cases "find P L")
  case None
  then show ?thesis using assms(1,2) by (auto simp: find_None_iff)
next
  case (Some c)
  then show ?thesis using find_SomeD [OF Some] assms(3) by blast
qed

lemma find_hit:
  assumes "brel V dv p s A" and "blist (bufs s) L" and "caches dv s b n"
  shows "find (\<lambda>b. b_dev (bufs s b) = dv \<and> b_blockno (bufs s b) = of_nat n) L = Some b"
proof (rule find_unique)
  note n = of_nat_block [OF brel_cached(1) [OF assms(1,3)]]
  show "b \<in> set L" "b_dev (bufs s b) = dv \<and> b_blockno (bufs s b) = of_nat n"
    using assms(3) blistD(2) [OF assms(2)] by (auto simp: caches_def n)
  fix c assume "c \<in> set L" "b_dev (bufs s c) = dv \<and> b_blockno (bufs s c) = of_nat n"
  then have "caches dv s c n" using blistD(2) [OF assms(2)] by (auto simp: caches_def n)
  then show "c = b" using brelD(7) [OF assms(1) _ assms(3)] by blast
qed

lemma find_miss:
  assumes "blist (bufs s) L" and "n < 2 ^ 31" and "\<And>b. \<not> caches dv s b n"
  shows "find (\<lambda>b. b_dev (bufs s b) = dv \<and> b_blockno (bufs s b) = of_nat n) L = None"
  using assms(3) blistD(2) [OF assms(1)] by (auto simp: find_None_iff caches_def of_nat_block [OF assms(2)])

lemma free_buffer:
  assumes rel: "brel V dv p s A" and L: "blist (bufs s) L" and room: "card {n. 0 < a_refs A n} < NBUF"
  shows "\<exists>b. find (\<lambda>b. b_refcnt (bufs s b) = 0) (rev L) = Some b \<and> b < NBUF \<and> b_refcnt (bufs s b) = 0"
proof (rule ccontr)
  assume a: "\<not> ?thesis"
  note d = blistD [OF L]
  have "find (\<lambda>b. b_refcnt (bufs s b) = 0) (rev L) = None"
  proof (cases "find (\<lambda>b. b_refcnt (bufs s b) = 0) (rev L)")
    case (Some b)
    from find_SomeD [OF this] a Some d(2) show ?thesis by auto
  qed
  then have nz: "b_refcnt (bufs s b) \<noteq> 0" if "b < NBUF" for b using d(2) that by (auto simp: find_None_iff)
  let ?f = "\<lambda>b. unat (b_blockno (bufs s b))"
  have c: "caches dv s b (?f b)" if "b < NBUF" for b
    using brelD(6) [OF rel that] nz [OF that] that by (auto simp: buf_ok_def caches_def split: if_splits)
  have inj: "inj_on ?f {..<NBUF}"
    using c brelD(7) [OF rel] by (intro inj_onI) (metis lessThan_iff)
  have sub: "?f ` {..<NBUF} \<subseteq> {n. 0 < a_refs A n}"
    using brel_cached(2) [OF rel c] nz by (auto simp: unat_gt_0)
  have "finite {n. 0 < a_refs A n}"
  proof (rule finite_subset)
    show "{n. 0 < a_refs A n} \<subseteq> ?f ` {..<NBUF}"
    proof
      fix n assume "n \<in> {n. 0 < a_refs A n}"
      then obtain b where "caches dv s b n" using brelD(8) [OF rel, of n] by auto
      then show "n \<in> ?f ` {..<NBUF}" by (auto simp: caches_def)
    qed
  qed simp
  then have "card (?f ` {..<NBUF}) \<le> card {n. 0 < a_refs A n}" using sub by (rule card_mono)
  with room inj show False by (simp add: card_image)
qed

text \<open>The buffers in use keep their blocks.\<close>

definition keeps :: "u32 \<Rightarrow> ablocks \<Rightarrow> 'z vdisk_scheme \<Rightarrow> 'z vdisk_scheme \<Rightarrow> bool" where
  "keeps dv A s s' \<longleftrightarrow> (\<forall>c k. caches dv s c k \<and> 0 < a_refs A k \<longrightarrow> caches dv s' c k)"

text \<open>What \<^verbatim>\<open>bget\<close> leaves: the buffer of the block, locked, that is valid or about to be read.\<close>

definition bgot :: "u32 \<Rightarrow> nat \<Rightarrow> nat \<Rightarrow> ablocks \<Rightarrow> nat \<Rightarrow> 'z vdisk_scheme \<Rightarrow> 'z vdisk_scheme \<Rightarrow> bool" where
  "bgot dv p n A b s s' \<longleftrightarrow> bframe s s' \<and> b < NBUF \<and> caches dv s' b n \<and> running p (mach s') \<and> disk_idle s'
     \<and> vq s' = vq s \<and> proctab s' = proctab s \<and> (\<exists>L. blist (bufs s') L)
     \<and> (\<forall>c<NBUF. c \<noteq> b \<longrightarrow> same_buf s s' c) \<and> (\<forall>c. c \<noteq> b \<longrightarrow> \<not> caches dv s c n)
     \<and> (\<forall>k. k \<noteq> n \<longrightarrow> caches dv s b k \<longrightarrow> a_refs A k = 0)
     \<and> unat (b_refcnt (bufs s' b)) = Suc (a_refs A n)
     \<and> slk s' (BufLock b) = sl_taken (p_pid (proctab s p)) (slk s (BufLock b))
     \<and> a_val A n = (if b_valid (bufs s' b) then content (q_data (vq s) b) else a_disk A n)"

lemma bget_got:
  assumes rel: "brel V dv p s A" and n: "n < 2 ^ 31" "\<not> a_lock A n" "a_refs A n + 1 < 2 ^ 32"
    and room: "0 < a_refs A n \<or> card {n. 0 < a_refs A n} < NBUF"
  shows "\<exists>b s'. bget dv (of_nat n) s = Ret b s' \<and> bgot dv p n A b s s'"
proof -
  note D = brelD [OF rel]
  from D(5) obtain L where L: "blist (bufs s) L" ..
  show ?thesis
  proof (cases "\<exists>b. caches dv s b n")
    case True
    then obtain b where b: "caches dv s b n" ..
    note B = brel_cached [OF rel b]
    have lk: "\<not> sl_locked (slk s (BufLock b))" using B(3) n(2) by simp
    have r: "unat (b_refcnt (bufs s b) + 1) = Suc (a_refs A n)"
      using n(3) B(2) by (simp add: unat_word_ariths)
    let ?s' = "s\<lparr>mach := quiet (mach s),
     bufs := (bufs s)(b := (bufs s b)\<lparr>b_refcnt := b_refcnt (bufs s b) + 1\<rparr>),
     slk := (slk s)(BufLock b := sl_taken (p_pid (proctab s p)) (slk s (BufLock b)))\<rparr>"
    have "blist (bufs ?s') L" using L by (subst blist_cong [where bf' = "bufs s"]) auto
    moreover have "c \<noteq> b \<Longrightarrow> \<not> caches dv s c n" for c using D(7) [OF b] by blast
    moreover have "k \<noteq> n \<Longrightarrow> \<not> caches dv s b k" for k using b by (auto simp: caches_def)
    ultimately have "bgot dv p n A b s ?s'"
      using D(1,3) b B(4) r by (auto simp: bgot_def bframe_def caches_def disk_idle_def same_buf_def)
    then show ?thesis using bget_cached [OF D(1) L find_hit [OF rel L b] lk] by blast
  next
    case False
    then have "a_refs A n = 0" using D(8) [of n] by blast
    with room have "card {n. 0 < a_refs A n} < NBUF" by simp
    from free_buffer [OF rel L this] obtain b
      where b: "find (\<lambda>b. b_refcnt (bufs s b) = 0) (rev L) = Some b" "b < NBUF" "b_refcnt (bufs s b) = 0" by blast
    have lk: "\<not> sl_locked (slk s (BufLock b))" "caches dv s b k \<Longrightarrow> a_refs A k = 0" for k
      using D(6) [OF b(2)] b(3) by (auto simp: buf_ok_def caches_def split: if_splits)
    let ?s' = "s\<lparr>mach := quiet (mach s),
     bufs := (bufs s)(b := (bufs s b)\<lparr>b_dev := dv, b_blockno := of_nat n, b_valid := False, b_refcnt := 1\<rparr>),
     slk := (slk s)(BufLock b := sl_taken (p_pid (proctab s p)) (slk s (BufLock b)))\<rparr>"
    have "blist (bufs ?s') L" using L by (subst blist_cong [where bf' = "bufs s"]) auto
    moreover have "a_refs A n = 0 \<and> a_val A n = a_disk A n" using D(8) [of n] False by blast
    ultimately have "bgot dv p n A b s ?s'"
      using D(1,3) b(2) lk(2) False of_nat_block(1) [OF n(1)]
      by (auto simp: bgot_def bframe_def caches_def disk_idle_def same_buf_def)
    moreover have "find (\<lambda>b. b_dev (bufs s b) = dv \<and> b_blockno (bufs s b) = of_nat n) L = None"
      using False by (intro find_miss [OF L n(1)]) blast
    ultimately show ?thesis using bget_recycle [OF D(1) L _ b(1) lk(1)] by blast
  qed
qed

lemma bgot_rel:
  assumes rel: "brel V dv p s A" and got: "bgot dv p n A b s s1" and n: "n < 2 ^ 31"
    and s2: "bframe s1 s2" "running p (mach s2)" "disk_idle s2" "\<And>r. p_pid (proctab s2 r) = p_pid (proctab s1 r)"
      "blist (bufs s2) L" "\<And>c. c \<noteq> b \<Longrightarrow> same_buf s1 s2 c" "dk s2 = dk s1" "slk s2 = slk s1" "vdev s2 = vdev s1"
    and b: "b_dev (bufs s2 b) = b_dev (bufs s1 b)" "b_blockno (bufs s2 b) = b_blockno (bufs s1 b)"
      "b_refcnt (bufs s2 b) = b_refcnt (bufs s1 b)" "b_valid (bufs s2 b)"
      "content (q_data (vq s2) b) = a_val A n"
  shows "bframe s s2" "caches dv s2 b n" "brel V dv p s2 (a_get n A)" "keeps dv A s s2"
proof -
  note g = got [unfolded bgot_def]
  note D = brelD [OF rel]
  show f: "bframe s s2" using bframe_trans g s2(1) by blast
  show c: "caches dv s2 b n" using g b(1,2) by (simp add: caches_def)
  have vd: "vdev s1 = vdev s" using g bframe_vdev by blast
  show "brel V dv p s2 (a_get n A)"
  proof (rule brel_step [OF rel, where b = b and n = n and L = L])
    have d: "dk s1 = dk s" using g by (simp add: dk_def [abs_def])
    show "a_disk (a_get n A) = dk s2" using D(9) d s2(7) by (simp add: a_get_def)
    show "buf_ok dv (p_pid (proctab s p)) (a_get n A) (bufs s2 b) (slk s2 (BufLock b)) (q_data (vq s2) b)"
      using c g b n s2(8) by (auto simp: buf_ok_def caches_def a_get_def)
    show "same_buf s s2 c" if "c < NBUF" "c \<noteq> b" for c
      using g s2(6) that by (auto simp: same_buf_def)
  qed (use g s2 c vd in auto)
  show "keeps dv A s s2"
    unfolding keeps_def
  proof (intro allI impI, elim conjE)
    fix d k assume d: "caches dv s d k" and k: "0 < a_refs A k"
    show "caches dv s2 d k"
    proof (cases "d = b")
      case True
      then show ?thesis using g c d k by (metis less_irrefl)
    next
      case False
      then have "same_buf s s1 d" "same_buf s1 s2 d" using g s2(6) d by (auto simp: caches_def)
      with d show ?thesis by (auto simp: caches_def same_buf_def)
    qed
  qed
qed

lemma bread_wpc:
  assumes rel: "brel V dv p s A" and n: "n < 2 ^ 31" "\<not> a_lock A n" "a_refs A n + 1 < 2 ^ 32"
    and room: "0 < a_refs A n \<or> card {n. 0 < a_refs A n} < NBUF" and D: "D (a_disk A)"
    and post: "\<And>b s'. bframe s s' \<Longrightarrow> caches dv s' b n \<Longrightarrow> brel V dv p s' (a_get n A) \<Longrightarrow> keeps dv A s s' \<Longrightarrow> Q b s'"
  shows "wpc (bread dv (of_nat n)) Q (crashed V D) s"
proof -
  from bget_got [OF rel n room] obtain b s1 where bg: "bget dv (of_nat n) s = Ret b s1" and got: "bgot dv p n A b s s1" by blast
  note g = got [unfolded bgot_def]
  from g obtain L where L: "blist (bufs s1) L" by blast
  have d: "dk s1 = a_disk A" using g brelD(9) [OF rel] by (simp add: dk_def [abs_def])
  show ?thesis
  proof (cases "b_valid (bufs s1 b)")
    case True
    have "Q b s1"
      by (rule post; rule bgot_rel [OF rel got n(1), of s1 L]) (use g L True in \<open>auto simp: bframe_refl same_buf_def\<close>)
    then show ?thesis using True by (simp add: bread_def wpc_simps wpc_Ret [where m = "bget dv (of_nat n)", OF bg])
  next
    case False
    have bn: "unat (b_blockno (bufs s1 b)) = n" using g by (simp add: caches_def)
    have "wpc (virtio_disk_rw b False) (\<lambda>_ s2. Q b (s2\<lparr>bufs := (bufs s2)(b := (bufs s2 b)\<lparr>b_valid := True\<rparr>)\<rparr>)) (crashed V D) s1"
    proof (rule rw_wpc)
      show "vdev s1 = V" "blk_device V" using g bframe_vdev [of s s1] brelD(4) [OF rel] by simp_all
      fix s2 assume dn: "rw_done b False p s1 s2"
      have R: "bframe s1 s2" "mach s2 = quiet (mach s1)" "slk s2 = slk s1" "vdev s2 = vdev s1"
        "disk_idle s2" "bufs s2 = (bufs s1)(b := (bufs s1 b)\<lparr>b_disk := False\<rparr>)" "dk s2 = dk s1"
        "\<And>r. p_pid (proctab s2 r) = p_pid (proctab s1 r)"
        "\<And>c. content (q_data (vq s2) c) = (if c = b then dk s1 n else content (q_data (vq s1) c))"
        using rw_doneD [OF dn] bn n(1) by auto
      let ?s3 = "s2\<lparr>bufs := (bufs s2)(b := (bufs s2 b)\<lparr>b_valid := True\<rparr>)\<rparr>"
      have L3: "blist (bufs ?s3) L" using L by (subst blist_cong [where bf' = "bufs s1"]) (auto simp: R)
      have f3: "bframe s1 ?s3" using R(1) bframe_trans [of s1 s2 ?s3] by (simp add: bframe_def)
      show "Q b ?s3"
        by (rule post; rule bgot_rel [OF rel got n(1), of ?s3 L])
          (use g f3 L3 False R d in \<open>auto simp: same_buf_def disk_idle_def dk_def [abs_def]\<close>)
    qed (use g D d brelD(2) [OF rel] in auto)
    then show ?thesis using False by (simp add: bread_def wpc_simps wpc_Ret [where m = "bget dv (of_nat n)", OF bg] bmod_def)
  qed
qed

section \<open>The other routines\<close>

definition a_put :: "nat \<Rightarrow> u8 list \<Rightarrow> ablocks \<Rightarrow> ablocks" where
  "a_put n v A = A\<lparr>a_val := (a_val A)(n := v)\<rparr>"

definition a_sync :: "nat \<Rightarrow> ablocks \<Rightarrow> ablocks" where
  "a_sync n A = A\<lparr>a_disk := (a_disk A)(n := a_val A n)\<rparr>"

definition a_rel :: "nat \<Rightarrow> ablocks \<Rightarrow> ablocks" where
  "a_rel n A = A\<lparr>a_refs := (a_refs A)(n := a_refs A n - 1), a_lock := (a_lock A)(n := False)\<rparr>"

definition a_pin :: "nat \<Rightarrow> ablocks \<Rightarrow> ablocks" where
  "a_pin n A = A\<lparr>a_refs := (a_refs A)(n := Suc (a_refs A n))\<rparr>"

definition a_unpin :: "nat \<Rightarrow> ablocks \<Rightarrow> ablocks" where
  "a_unpin n A = A\<lparr>a_refs := (a_refs A)(n := a_refs A n - 1)\<rparr>"

lemma agree_steps [simp]:
  "agree n A (a_put n v A)" "agree n A (a_sync n A)" "agree n A (a_rel n A)" "agree n A (a_pin n A)"
  "agree n A (a_unpin n A)"
  by (simp_all add: agree_def a_put_def a_sync_def a_rel_def a_pin_def a_unpin_def)

text \<open>A step on the buffer \<open>b\<close> of block \<open>n\<close> that keeps its block number.\<close>

lemma brel_step_at:
  assumes rel: "brel V dv p s A" and b: "caches dv s b n" and run: "running p (mach s')" "disk_idle s'"
    and fr: "bframe s s'" "\<And>r. p_pid (proctab s' r) = p_pid (proctab s r)" and L: "blist (bufs s') L"
    and same: "\<And>c. c \<noteq> b \<Longrightarrow> same_buf s s' c"
    and at_: "b_dev (bufs s' b) = b_dev (bufs s b)" "b_blockno (bufs s' b) = b_blockno (bufs s b)"
    and ok: "buf_ok dv (p_pid (proctab s p)) A' (bufs s' b) (slk s' (BufLock b)) (q_data (vq s') b)"
    and agr: "agree n A A'" and dsk: "a_disk A' = dk s'"
  shows "brel V dv p s' A' \<and> caches dv s' = caches dv s"
proof -
  have c: "caches dv s' d k = caches dv s d k" for d k
    using same [of d] at_ by (cases "d = b") (auto simp: caches_def same_buf_def)
  have o: "\<not> caches dv s d n" if "d \<noteq> b" for d using brelD(7) [OF rel b] that by blast
  have "k \<noteq> n \<Longrightarrow> \<not> caches dv s b k" for k using b by (auto simp: caches_def)
  with o have "brel V dv p s' A'"
    using b c bframe_vdev [OF fr(1)]
    by (intro brel_step [OF rel _ run _ fr(2) L same _ ok _ _ agr dsk]) (auto simp: caches_def)
  with c show ?thesis by (simp add: fun_eq_iff)
qed

lemma set_bdata_brel:
  assumes rel: "brel V dv p s A" and b: "caches dv s b n" and lk: "a_lock A n"
    and s': "s' = s\<lparr>vq := (vq s)\<lparr>q_data := (q_data (vq s))(b := d)\<rparr>\<rparr>"
  shows "brel V dv p s' (a_put n (content d) A) \<and> caches dv s' = caches dv s \<and> bframe s s'"
proof -
  note D = brelD [OF rel] and B = brel_cached [OF rel b]
  from D(5) obtain L where L: "blist (bufs s) L" ..
  have "brel V dv p s' (a_put n (content d) A) \<and> caches dv s' = caches dv s"
    by (rule brel_step_at [OF rel b, where L = L])
      (use D(1,3,9) B(1-5) b lk L in \<open>auto simp: s' disk_idle_def bframe_def same_buf_def buf_ok_def caches_def
        a_put_def agree_def dk_def [abs_def]\<close>)
  then show ?thesis by (simp add: s' bframe_def)
qed

lemma set_bdata_wpc:
  assumes "brel V dv p s A" and "caches dv s b n" and "a_lock A n"
    and "\<And>s'. bframe s s' \<Longrightarrow> brel V dv p s' (a_put n (content (f (q_data (vq s) b))) A)
       \<Longrightarrow> caches dv s' = caches dv s \<Longrightarrow> q_data (vq s') b = f (q_data (vq s) b) \<Longrightarrow> Q () s'"
  shows "wpc (set_bdata b f) Q C s"
  using set_bdata_brel [OF assms(1-3) refl, of "f (q_data (vq s) b)"] assms(4)
  by (simp add: wpc_def set_bdata_def on_vq_def modify_def)

lemma holdingsleep_buf:
  assumes "brel V dv p s A" and "caches dv s b n" and "a_lock A n"
  shows "holdingsleep (BufLock b) s = Ret True (s\<lparr>mach := quiet (mach s)\<rparr>)"
  using holdingsleep_eq [OF brelD(1) [OF assms(1)], of "BufLock b"] brel_cached(3,5) [OF assms(1,2)] assms(3) by simp

lemma bwrite_wpc:
  assumes rel: "brel V dv p s A" and b: "caches dv s b n" and lk: "a_lock A n" and D: "D (a_disk A)"
    and post: "\<And>s'. bframe s s' \<Longrightarrow> brel V dv p s' (a_sync n A) \<Longrightarrow> caches dv s' = caches dv s \<Longrightarrow> Q () s'"
  shows "wpc (bwrite b) Q (crashed V D) s"
proof -
  note R = brelD [OF rel] and B = brel_cached [OF rel b]
  let ?s1 = "s\<lparr>mach := quiet (mach s)\<rparr>"
  from R(5) obtain L where L: "blist (bufs s) L" ..
  have bn: "unat (b_blockno (bufs ?s1 b)) = n" using b by (simp add: caches_def)
  have "wpc (virtio_disk_rw b True) Q (crashed V D) ?s1"
  proof (rule rw_wpc)
    fix s' assume dn: "rw_done b True p ?s1 s'"
    note W = rw_doneD [OF dn, unfolded bn, OF B(1)]
    have L': "blist (bufs s') L" using L by (subst blist_cong [where bf' = "bufs s"]) (auto simp: W(7))
    have fr: "bframe s s'" using bframe_trans [of s ?s1 s'] W(1) by (simp add: bframe_def)
    have "dk s' = (dk s)(n := a_val A n)"
      using B(4,5) lk W(8) by (auto simp: fun_eq_iff dk_def)
    then have "brel V dv p s' (a_sync n A) \<and> caches dv s' = caches dv s"
      using R(1,9) W(2,3,5,6,7,9) B(1-5) b lk fr L'
      by (intro brel_step_at [OF rel b, where L = L])
        (auto simp: same_buf_def buf_ok_def caches_def a_sync_def agree_def)
    with fr post show "Q () s'" by blast
  qed (use R D in \<open>auto simp: disk_idle_def dk_def [abs_def]\<close>)
  then show ?thesis
    by (simp add: bwrite_def wpc_simps wpc_Ret [where m = "holdingsleep (BufLock b)", OF holdingsleep_buf [OF rel b lk]])
qed

lemma unat_minus_1: "w \<noteq> 0 \<Longrightarrow> unat ((w :: u32) - 1) = unat w - 1"
  by (simp add: unat_minus_one)

text \<open>Changing the reference count of a buffer by \<open>f\<close>, with the links as they may be after it.\<close>

lemma brel_count:
  assumes rel: "brel V dv p s A" and b: "caches dv s b n" and bf: "relinked ((bufs s)(b := (bufs s b)\<lparr>b_refcnt := r\<rparr>)) bf"
    and L: "blist bf L" and A': "A' = A\<lparr>a_refs := (a_refs A)(n := unat r), a_lock := (a_lock A)(n := l)\<rparr>"
    and clean: "r = 0 \<Longrightarrow> a_val A n = a_disk A n" and lk: "l \<Longrightarrow> r \<noteq> 0"
    and k: "k = (slk s)(BufLock b := if l then slk s (BufLock b) else kf)" and kf: "\<not> l \<Longrightarrow> \<not> sl_locked kf" and l: "l \<Longrightarrow> a_lock A n"
    and s': "s' = s\<lparr>mach := quiet (mach s), bufs := bf, slk := k, proctab := t\<rparr>"
    and t: "\<And>q. p_pid (t q) = p_pid (proctab s q)"
  shows "bframe s s' \<and> brel V dv p s' A' \<and> caches dv s' = caches dv s"
proof -
  note D = brelD [OF rel] and B = brel_cached [OF rel b]
  have fr: "bframe s s'" by (simp add: s' bframe_def)
  have f: "b_valid (bf c) = b_valid (bufs s c)" "b_dev (bf c) = b_dev (bufs s c)" "b_blockno (bf c) = b_blockno (bufs s c)"
    "b_refcnt (bf c) = (if c = b then r else b_refcnt (bufs s c))" for c
    using bf by (auto simp: relinked_def)
  have "brel V dv p s' A' \<and> caches dv s' = caches dv s"
  proof (rule brel_step_at [OF rel b _ _ fr, where L = L])
    show "buf_ok dv (p_pid (proctab s p)) A' (bufs s' b) (slk s' (BufLock b)) (q_data (vq s') b)"
      using b B clean lk kf l by (auto simp: buf_ok_def caches_def A' s' f k)
  qed (use D(1,3,9) L t f in \<open>auto simp: s' A' k agree_def disk_idle_def same_buf_def dk_def [abs_def]\<close>)
  with fr show ?thesis by blast
qed

lemma bpin_wpc:
  assumes rel: "brel V dv p s A" and b: "caches dv s b n" and rf: "a_refs A n + 1 < 2 ^ 32"
    and post: "\<And>s'. bframe s s' \<Longrightarrow> brel V dv p s' (a_pin n A) \<Longrightarrow> caches dv s' = caches dv s \<Longrightarrow> Q () s'"
  shows "wpc (bpin b) Q C s"
proof -
  note D = brelD [OF rel] and B = brel_cached [OF rel b]
  from D(5) obtain L where L: "blist (bufs s) L" ..
  let ?r = "b_refcnt (bufs s b) + 1" let ?bf = "(bufs s)(b := (bufs s b)\<lparr>b_refcnt := ?r\<rparr>)"
  have u: "unat ?r = Suc (a_refs A n)" using rf B(2) by (simp add: unat_word_ariths)
  have A': "a_pin n A = A\<lparr>a_refs := (a_refs A)(n := unat ?r), a_lock := (a_lock A)(n := a_lock A n)\<rparr>"
    by (simp add: a_pin_def u)
  have L': "blist ?bf L" using L by (subst blist_cong [where bf' = "bufs s"]) auto
  have r0: "?r \<noteq> 0" using u by (metis Suc_neq_Zero unat_0)
  have "bpin b s = Ret () (s\<lparr>mach := quiet (mach s), bufs := ?bf\<rparr>)"
    using runningD [OF D(1)] by (simp add: bpin_def km_simps)
  moreover have "bframe s (s\<lparr>mach := quiet (mach s), bufs := ?bf\<rparr>) \<and> brel V dv p (s\<lparr>mach := quiet (mach s), bufs := ?bf\<rparr>) (a_pin n A)
      \<and> caches dv (s\<lparr>mach := quiet (mach s), bufs := ?bf\<rparr>) = caches dv s"
    by (rule brel_count [OF rel b _ L' A', where k = "slk s" and t = "proctab s" and kf = "slk s (BufLock b)"])
      (use r0 B(3) in \<open>auto simp: relinked_def\<close>)
  ultimately show ?thesis using post by (simp add: wpc_def)
qed

lemma bunpin_wpc:
  assumes rel: "brel V dv p s A" and b: "caches dv s b n" and lk: "a_lock A n" and rf: "1 < a_refs A n"
    and post: "\<And>s'. bframe s s' \<Longrightarrow> brel V dv p s' (a_unpin n A) \<Longrightarrow> caches dv s' = caches dv s \<Longrightarrow> Q () s'"
  shows "wpc (bunpin b) Q C s"
proof -
  note D = brelD [OF rel] and B = brel_cached [OF rel b]
  from D(5) obtain L where L: "blist (bufs s) L" ..
  let ?r = "b_refcnt (bufs s b) - 1" let ?bf = "(bufs s)(b := (bufs s b)\<lparr>b_refcnt := ?r\<rparr>)"
  have u: "unat ?r = a_refs A n - 1" using rf B(2) by (subst unat_minus_1) (auto simp: unat_eq_0)
  have A': "a_unpin n A = A\<lparr>a_refs := (a_refs A)(n := unat ?r), a_lock := (a_lock A)(n := a_lock A n)\<rparr>"
    by (simp add: a_unpin_def u)
  have L': "blist ?bf L" using L by (subst blist_cong [where bf' = "bufs s"]) auto
  have r0: "?r \<noteq> 0" using u rf by (metis diff_is_0_eq linorder_not_le unat_0)
  have "bunpin b s = Ret () (s\<lparr>mach := quiet (mach s), bufs := ?bf\<rparr>)"
    using runningD [OF D(1)] by (simp add: bunpin_def km_simps)
  moreover have "bframe s (s\<lparr>mach := quiet (mach s), bufs := ?bf\<rparr>) \<and> brel V dv p (s\<lparr>mach := quiet (mach s), bufs := ?bf\<rparr>) (a_unpin n A)
      \<and> caches dv (s\<lparr>mach := quiet (mach s), bufs := ?bf\<rparr>) = caches dv s"
    by (rule brel_count [OF rel b _ L' A', where k = "slk s" and t = "proctab s" and kf = "slk s (BufLock b)"])
      (use r0 lk in \<open>auto simp: relinked_def\<close>)
  ultimately show ?thesis using post by (simp add: wpc_def)
qed

text \<open>The list after \<^verbatim>\<open>brelse\<close>: a buffer that nobody uses any more comes first.\<close>

lemma brelse_closed:
  assumes run: "running p (mach s)" and L: "blist (bufs s) L" and b: "b < NBUF"
    and lk: "sl_locked (slk s (BufLock b))" "sl_pid (slk s (BufLock b)) = p_pid (proctab s p)"
    and r: "r = b_refcnt (bufs s b) - 1"
  shows "\<exists>bf. brelse b s = Ret () (s\<lparr>mach := quiet (mach s), bufs := bf,
       slk := (slk s)(BufLock b := sl_freed (slk s (BufLock b))),
       proctab := wake_all (Some (ChanSleep (BufLock b))) (Some p) {..<NPROC} (proctab s)\<rparr>)
     \<and> relinked ((bufs s)(b := (bufs s b)\<lparr>b_refcnt := r\<rparr>)) bf
     \<and> blist bf (if r = 0 then b # remove1 b L else L)"
proof -
  note R = runningD [OF run]
  let ?bf1 = "(bufs s)(b := (bufs s b)\<lparr>b_refcnt := r\<rparr>)"
  have L1: "blist ?bf1 L" using L by (subst blist_cong [where bf' = "bufs s"]) auto
  have h: "holdingsleep (BufLock b) s = Ret True (s\<lparr>mach := quiet (mach s)\<rparr>)"
    using holdingsleep_eq [OF run, of "BufLock b"] lk by simp
  let ?s1 = "s\<lparr>mach := quiet (mach s), slk := (slk s)(BufLock b := sl_freed (slk s (BufLock b))),
     proctab := wake_all (Some (ChanSleep (BufLock b))) (Some p) {..<NPROC} (proctab s)\<rparr>"
  have rs: "releasesleep (BufLock b) (s\<lparr>mach := quiet (mach s)\<rparr>) = Ret () ?s1"
    using releasesleep_eq [of p "s\<lparr>mach := quiet (mach s)\<rparr>" "BufLock b"] run by simp
  let ?s2 = "?s1\<lparr>mach := taken BcacheLock (mach s), bufs := ?bf1\<rparr>"
  show ?thesis
  proof (cases "r = 0")
    case True
    obtain bf where bf: "move_front b ?s2 = Ret () (?s2\<lparr>bufs := bf\<rparr>)" "blist bf (b # remove1 b L)" "relinked ?bf1 bf"
      using move_front_eq [of ?s2 L b] L1 b by auto
    have "brelse b s = Ret () (s\<lparr>mach := quiet (mach s), bufs := bf,
       slk := (slk s)(BufLock b := sl_freed (slk s (BufLock b))),
       proctab := wake_all (Some (ChanSleep (BufLock b))) (Some p) {..<NPROC} (proctab s)\<rparr>)"
      using R h rs bf(1) True r by (simp add: brelse_def km_simps)
    then show ?thesis using bf(2,3) True by (intro exI [of _ bf]) simp
  next
    case False
    have "brelse b s = Ret () (s\<lparr>mach := quiet (mach s), bufs := ?bf1,
       slk := (slk s)(BufLock b := sl_freed (slk s (BufLock b))),
       proctab := wake_all (Some (ChanSleep (BufLock b))) (Some p) {..<NPROC} (proctab s)\<rparr>)"
      using R h rs False r by (simp add: brelse_def km_simps)
    then show ?thesis using L1 False by (intro exI [of _ ?bf1]) simp
  qed
qed

lemma brelse_wpc:
  assumes rel: "brel V dv p s A" and b: "caches dv s b n" and lk: "a_lock A n"
    and clean: "a_refs A n = 1 \<Longrightarrow> a_val A n = a_disk A n"
    and post: "\<And>s'. bframe s s' \<Longrightarrow> brel V dv p s' (a_rel n A) \<Longrightarrow> caches dv s' = caches dv s \<Longrightarrow> Q () s'"
  shows "wpc (brelse b) Q C s"
proof -
  note D = brelD [OF rel] and B = brel_cached [OF rel b]
  from D(5) obtain L where L: "blist (bufs s) L" ..
  let ?r = "b_refcnt (bufs s b) - 1" let ?t = "wake_all (Some (ChanSleep (BufLock b))) (Some p) {..<NPROC} (proctab s)"
  have l: "sl_locked (slk s (BufLock b))" "sl_pid (slk s (BufLock b)) = p_pid (proctab s p)" "b < NBUF"
    using B(3,5) lk b by (auto simp: caches_def)
  obtain bf where bf: "brelse b s = Ret () (s\<lparr>mach := quiet (mach s), bufs := bf,
       slk := (slk s)(BufLock b := sl_freed (slk s (BufLock b))), proctab := ?t\<rparr>)"
    "relinked ((bufs s)(b := (bufs s b)\<lparr>b_refcnt := ?r\<rparr>)) bf" "blist bf (if ?r = 0 then b # remove1 b L else L)"
    using brelse_closed [OF D(1) L l(3,1,2) refl] by blast
  have u: "unat ?r = a_refs A n - 1" using B(2,5) lk by (subst unat_minus_1) auto
  have A': "a_rel n A = A\<lparr>a_refs := (a_refs A)(n := unat ?r), a_lock := (a_lock A)(n := False)\<rparr>"
    by (simp add: a_rel_def u)
  have c: "?r = 0 \<Longrightarrow> a_val A n = a_disk A n"
  proof -
    assume "?r = 0"
    then have "a_refs A n - 1 = 0" using u by simp
    moreover have "0 < a_refs A n" using B(2,5) lk by (auto simp: unat_gt_0)
    ultimately show ?thesis using clean by simp
  qed
  show ?thesis
    using post brel_count [OF rel b bf(2,3) A' c, where kf = "sl_freed (slk s (BufLock b))" and t = ?t] bf(1)
    by (simp add: wpc_def wake_all_def woken_def)
qed

end
