(* ===== verification/Log_props.thy ===== *)
theory Log_props
  imports Bio_props
begin

text \<open>
  The redo log over the block store of the buffer cache: the effect of every phase of a commit and
  of recovery on the abstract store, with the disks a crash can leave behind.
\<close>

section \<open>Frames and states at rest\<close>

lemma bframe_log:
  fixes s s' :: "'z logs_scheme"
  assumes "bframe s s'"
  shows "lg_dev s' = lg_dev s" "lg_start s' = lg_start s" "lh_n s' = lh_n s" "lh_block s' = lh_block s"
    "lg_size s' = lg_size s" "lg_outstanding s' = lg_outstanding s" "lg_committing s' = lg_committing s"
proof -
  obtain m pt k q f ui i w bf where "s' = s\<lparr>mach := m, proctab := pt, slk := k, vq := q, vfree := f,
      vused_idx := ui, vinfo := i, vwrites := w, bufs := bf\<rparr>" using assms unfolding bframe_def by blast
  then show "lg_dev s' = lg_dev s" "lg_start s' = lg_start s" "lh_n s' = lh_n s" "lh_block s' = lh_block s"
    "lg_size s' = lg_size s" "lg_outstanding s' = lg_outstanding s" "lg_committing s' = lg_committing s"
    by simp_all
qed

text \<open>No buffer is locked, and exactly the blocks of \<open>P\<close> are pinned.\<close>

definition at_rest :: "nat set \<Rightarrow> ablocks \<Rightarrow> bool" where
  "at_rest P A \<longleftrightarrow> finite P \<and> a_refs A = (\<lambda>n. if n \<in> P then 1 else 0) \<and> a_lock A = (\<lambda>_. False)"

lemma at_restD:
  assumes "at_rest P A"
  shows "finite P" "a_refs A n = (if n \<in> P then 1 else 0)" "\<not> a_lock A n" "{n. 0 < a_refs A n} = P"
  using assms by (auto simp: at_rest_def)

lemma ablocks_eqI:
  "a_refs A = a_refs B \<Longrightarrow> a_lock A = a_lock B \<Longrightarrow> a_val A = a_val B \<Longrightarrow> a_disk A = a_disk B \<Longrightarrow> A = (B :: ablocks)"
  by (cases A; cases B) simp

lemma brel_clean: "brel V dv p s A \<Longrightarrow> a_refs A n = 0 \<Longrightarrow> a_val A n = a_disk A n"
  using brel_cached(6) [of V dv p s A _ n] brelD(8) [of V dv p s A n] by blast

lemmas a_defs = a_get_def a_put_def a_sync_def a_rel_def a_pin_def a_unpin_def

text \<open>Copying one buffer to another.\<close>

lemma copy_block_wpc:
  assumes "brel V dv p s A" and "caches dv s x m" and "a_lock A m" and "caches dv s y n" and "a_lock A n"
    and "\<And>s'. bframe s s' \<Longrightarrow> brel V dv p s' (a_put m (a_val A n) A) \<Longrightarrow> caches dv s' = caches dv s \<Longrightarrow> Q () s'"
  shows "wpc (copy_block x y) Q C s"
proof -
  have v: "a_val A n = content (q_data (vq s) y)" using brel_cached(4,5) [OF assms(1,4)] assms(5) by simp
  have "wpc (set_bdata x (\<lambda>m. wr m 0 (rd (q_data (vq s) y) 0 BSIZE))) Q C s"
    using v by (intro set_bdata_wpc [OF assms(1-3)] assms(6)) (auto simp: content_def)
  then show ?thesis by (simp add: copy_block_def wpc_simps bdata_def)
qed

section \<open>One block to the log\<close>

lemma write_log_one_wpc:
  fixes s :: "'z logs_scheme"
  assumes rel: "brel V dv p s A" and rest: "at_rest P A" and lg: "lg_dev s = dv"
    and x: "lg_start s + of_nat i + 1 = of_nat x" "x < 2 ^ 31" "x \<notin> P"
    and y: "lh_block s i = of_nat y" "y < 2 ^ 31" "y \<in> P" and room: "card P < NBUF" and D: "D (a_disk A)"
    and post: "\<And>s'. bframe s s' \<Longrightarrow> brel V dv p s' (A\<lparr>a_val := (a_val A)(x := a_val A y),
        a_disk := (a_disk A)(x := a_val A y)\<rparr>) \<Longrightarrow> Q () s'"
  shows "wpc (write_log_one i) Q (crashed V D) s"
proof -
  note r = at_restD [OF rest]
  have xy: "x \<noteq> y" using x(3) y(3) by auto
  let ?A1 = "a_get x A" let ?A2 = "a_get y ?A1" let ?A3 = "a_put x (a_val A y) ?A2" let ?A4 = "a_sync x ?A3"
  have fin: "a_rel x (a_rel y ?A4) = A\<lparr>a_val := (a_val A)(x := a_val A y), a_disk := (a_disk A)(x := a_val A y)\<rparr>"
    using xy r(3) by (intro ablocks_eqI) (auto simp: a_defs fun_eq_iff)
  let ?K = "\<lambda>tb fb. wpc (bwrite tb) (\<lambda>_. wpc (brelse fb) (\<lambda>_. wpc (brelse tb) Q (crashed V D)) (crashed V D)) (crashed V D)"
  let ?L = "\<lambda>tb fb. wpc (copy_block tb fb) (\<lambda>_. ?K tb fb) (crashed V D)"
  have 4: "?K tb fb s3"
    if s3: "bframe s s3" "brel V dv p s3 ?A3" "caches dv s3 tb x" "caches dv s3 fb y" for tb fb s3
  proof (rule bwrite_wpc [OF s3(2,3)])
    fix s4 assume s4: "bframe s3 s4" "brel V dv p s4 ?A4" "caches dv s4 = caches dv s3"
    show "wpc (brelse fb) (\<lambda>_. wpc (brelse tb) Q (crashed V D)) (crashed V D) s4"
    proof (rule brelse_wpc [OF s4(2)])
      fix s5 assume s5: "bframe s4 s5" "brel V dv p s5 (a_rel y ?A4)" "caches dv s5 = caches dv s4"
      show "wpc (brelse tb) Q (crashed V D) s5"
      proof (rule brelse_wpc [OF s5(2)])
        fix s6 assume s6: "bframe s5 s6" "brel V dv p s6 (a_rel x (a_rel y ?A4))"
        show "Q () s6"
          using s6 fin bframe_trans [OF s3(1) bframe_trans [OF s4(1) bframe_trans [OF s5(1) s6(1)]]]
          by (intro post) simp_all
      qed (use s3 s4 s5 xy in \<open>auto simp: a_defs\<close>)
    qed (use s3 s4 xy r y(3) in \<open>auto simp: a_defs\<close>)
  qed (use D xy in \<open>auto simp: a_defs\<close>)
  have "wpc (bread dv (of_nat x)) (\<lambda>tb s1. wpc (bread (lg_dev s1) (lh_block s1 i)) (?L tb) (crashed V D) s1)
      (crashed V D) s"
  proof (rule bread_wpc [OF rel x(2)])
    fix tb s1 assume s1: "bframe s s1" "caches dv s1 tb x" "brel V dv p s1 ?A1"
    have "wpc (bread dv (of_nat y)) (?L tb) (crashed V D) s1"
    proof (rule bread_wpc [OF s1(3) y(2)])
      fix fb s2 assume s2: "bframe s1 s2" "caches dv s2 fb y" "brel V dv p s2 ?A2" "keeps dv ?A1 s1 s2"
      have tb: "caches dv s2 tb x" using s2(4) s1(2) by (auto simp: keeps_def a_defs)
      show "?L tb fb s2"
        by (rule copy_block_wpc [OF s2(3) tb _ s2(2)])
          (use 4 tb s2 xy bframe_trans [OF s1(1)] bframe_trans [OF s2(1)] in \<open>auto simp: a_defs\<close>)
    qed (use D xy r y(3) in \<open>auto simp: a_defs\<close>)
    then show "wpc (bread (lg_dev s1) (lh_block s1 i)) (?L tb) (crashed V D) s1"
      using bframe_log [OF s1(1)] lg y(1) by simp
  qed (use D r x(3) room in auto)
  then show ?thesis using lg x(1) by (simp add: write_log_one_def wpc_simps)
qed

section \<open>One block from the log to its home\<close>

lemma install_one_wpc:
  fixes s :: "'z logs_scheme"
  assumes rel: "brel V dv p s A" and rest: "at_rest P A" and lg: "lg_dev s = dv"
    and x: "lg_start s + of_nat i + 1 = of_nat x" "x < 2 ^ 31" "x \<notin> P"
    and y: "lh_block s i = of_nat y" "y < 2 ^ 31" "x \<noteq> y" "y \<in> P \<longleftrightarrow> \<not> recovering" and room: "card P + 1 < NBUF \<or> y \<in> P \<and> card P < NBUF"
    and D: "D (a_disk A)"
    and post: "\<And>s'. bframe s s' \<Longrightarrow> brel V dv p s' (A\<lparr>a_refs := (a_refs A)(y := 0), a_val := (a_val A)(y := a_val A x),
        a_disk := (a_disk A)(y := a_val A x)\<rparr>) \<Longrightarrow> Q () s'"
  shows "wpc (install_one recovering i) Q (crashed V D) s"
proof -
  note r = at_restD [OF rest] and xy = y(3)
  let ?A1 = "a_get x A" let ?A2 = "a_get y ?A1" let ?A3 = "a_put y (a_val A x) ?A2" let ?A4 = "a_sync y ?A3"
  let ?A5 = "if recovering then ?A4 else a_unpin y ?A4"
  have fin: "a_rel y (a_rel x ?A5) = A\<lparr>a_refs := (a_refs A)(y := 0), a_val := (a_val A)(y := a_val A x),
        a_disk := (a_disk A)(y := a_val A x)\<rparr>"
    using xy r(2,3) y(4) x(3) by (intro ablocks_eqI) (auto simp: a_defs fun_eq_iff)
  let ?J = "\<lambda>lb db. wpc (brelse lb) (\<lambda>_. wpc (brelse db) Q (crashed V D)) (crashed V D)"
  let ?K = "\<lambda>lb db. wpc (bwrite db) (\<lambda>_. wpc (whenk (\<not> recovering) (bunpin db)) (\<lambda>_. ?J lb db) (crashed V D)) (crashed V D)"
  let ?L = "\<lambda>lb db. wpc (copy_block db lb) (\<lambda>_. ?K lb db) (crashed V D)"
  have 5: "?J lb db s5"
    if s5: "bframe s s5" "brel V dv p s5 ?A5" "caches dv s5 lb x" "caches dv s5 db y" for lb db s5
  proof (rule brelse_wpc [OF s5(2,3)])
    fix s6 assume s6: "bframe s5 s6" "brel V dv p s6 (a_rel x ?A5)" "caches dv s6 = caches dv s5"
    show "wpc (brelse db) Q (crashed V D) s6"
    proof (rule brelse_wpc [OF s6(2)])
      fix s7 assume s7: "bframe s6 s7" "brel V dv p s7 (a_rel y (a_rel x ?A5))"
      show "Q () s7" using s7 fin bframe_trans [OF s5(1) bframe_trans [OF s6(1) s7(1)]] by (intro post) simp_all
    qed (use s5 s6 xy in \<open>auto simp: a_defs\<close>)
  qed (use xy r x(3) brel_clean [OF rel, of x] in \<open>auto simp: a_defs\<close>)
  have 4: "?K lb db s3"
    if s3: "bframe s s3" "brel V dv p s3 ?A3" "caches dv s3 lb x" "caches dv s3 db y" for lb db s3
  proof (rule bwrite_wpc [OF s3(2,4)])
    fix s4 assume s4: "bframe s3 s4" "brel V dv p s4 ?A4" "caches dv s4 = caches dv s3"
    have f4: "bframe s s4" using bframe_trans [OF s3(1) s4(1)] .
    show "wpc (whenk (\<not> recovering) (bunpin db)) (\<lambda>_. ?J lb db) (crashed V D) s4"
    proof (cases recovering)
      case True
      then show ?thesis using 5 [of s4 lb db] f4 s4 s3 by (simp add: wpc_simps)
    next
      case False
      have "wpc (bunpin db) (\<lambda>_. ?J lb db) (crashed V D) s4"
      proof (rule bunpin_wpc [OF s4(2)])
        fix s5 assume "bframe s4 s5" "brel V dv p s5 (a_unpin y ?A4)" "caches dv s5 = caches dv s4"
        then show "?J lb db s5" using 5 [of s5 lb db] f4 s4 s3 bframe_trans [OF f4] False by simp
      qed (use s3 s4 r y(4) xy False in \<open>auto simp: a_defs\<close>)
      then show ?thesis using False by (simp add: wpc_simps)
    qed
  qed (use D xy in \<open>auto simp: a_defs\<close>)
  have "wpc (bread dv (of_nat x)) (\<lambda>lb s1. wpc (bread (lg_dev s1) (lh_block s1 i)) (?L lb) (crashed V D) s1) (crashed V D) s"
  proof (rule bread_wpc [OF rel x(2)])
    fix lb s1 assume s1: "bframe s s1" "caches dv s1 lb x" "brel V dv p s1 ?A1"
    have "wpc (bread dv (of_nat y)) (?L lb) (crashed V D) s1"
    proof (rule bread_wpc [OF s1(3) y(2)])
      fix db s2 assume s2: "bframe s1 s2" "caches dv s2 db y" "brel V dv p s2 ?A2" "keeps dv ?A1 s1 s2"
      have lb: "caches dv s2 lb x" using s2(4) s1(2) by (auto simp: keeps_def a_defs)
      show "?L lb db s2"
        by (rule copy_block_wpc [OF s2(3,2) _ lb])
          (use 4 lb s2 xy bframe_trans [OF s1(1)] bframe_trans [OF s2(1)] in \<open>auto simp: a_defs\<close>)
    next
      have "{n. 0 < a_refs ?A1 n} = insert x P" using r(2) by (auto simp: a_defs split: if_splits)
      then show "0 < a_refs ?A1 y \<or> card {n. 0 < a_refs ?A1 n} < NBUF"
        using r(1,2) x(3) y(3) room by (auto simp: a_defs)
    qed (use D xy r y(4) in \<open>auto simp: a_defs\<close>)
    then show "wpc (bread (lg_dev s1) (lh_block s1 i)) (?L lb) (crashed V D) s1"
      using bframe_log [OF s1(1)] lg y(1) by simp
  qed (use D r x(3) room in auto)
  then show ?thesis using lg x(1) by (simp add: install_one_def wpc_simps)
qed

section \<open>The header block\<close>

text \<open>The count and the block numbers of a header block.\<close>

definition hd_n :: "u8 list \<Rightarrow> int" where
  "hd_n v = sint (le_word (take 4 v) :: u32)"

definition hd_b :: "u8 list \<Rightarrow> nat \<Rightarrow> u32" where
  "hd_b v i = le_word (take 4 (drop (4 + 4 * i) v))"

lemma take_drop_content: "a + n \<le> BSIZE \<Longrightarrow> take n (drop a (content d)) = rd d a n"
  by (rule nth_equalityI) (auto simp: content_def rd_def)

lemma LOGSIZE_val: "LOGSIZE = 30" and NBUF_val: "NBUF = 30"
  by (simp_all add: LOGSIZE_def NBUF_def MAXOPBLOCKS_def)

lemma hd_content:
  "hd_n (content d) = sint (load32 d 0)" "i < LOGSIZE \<Longrightarrow> hd_b (content d) i = load32 d (4 + 4 * i)"
  using take_drop_content [of 0 4 d] take_drop_content [of "4 + 4 * i" 4 d]
  by (simp_all add: hd_n_def hd_b_def load32_def BSIZE_val LOGSIZE_val)

lemma brel_lh [simp]:
  "brel V dv p (s\<lparr>lh_n := n\<rparr>) A = brel V dv p (s :: 'z logs_scheme) A"
  "brel V dv p (s\<lparr>lh_block := f\<rparr>) A = brel V dv p s A"
  "caches dv (s\<lparr>lh_n := n\<rparr>) = caches dv s" "caches dv (s\<lparr>lh_block := f\<rparr>) = caches dv s"
  by (simp_all add: brel_def caches_def [abs_def] disk_idle_def dk_def [abs_def])

lemma a_put_put [simp]: "a_put n v (a_put n w A) = a_put n v A"
  by (simp add: a_put_def)

lemma head_out_wpc:
  fixes s :: "'z logs_scheme"
  assumes rel: "brel V dv p s (a_put st (content (q_data (vq s) b)) A)" and b: "caches dv s b st" and lk: "a_lock A st"
    and k: "k \<le> LOGSIZE" and i: "i < k"
    and d: "load32 (q_data (vq s) b) 0 = n" "\<forall>j<i. load32 (q_data (vq s) b) (4 + 4 * j) = lh_block s j"
  shows "wpc (head_out b i) (\<lambda>_ s'. bframe s s' \<and> brel V dv p s' (a_put st (content (q_data (vq s') b)) A) \<and> caches dv s' = caches dv s
     \<and> load32 (q_data (vq s') b) 0 = n \<and> (\<forall>j<Suc i. load32 (q_data (vq s') b) (4 + 4 * j) = lh_block s j)) C s"
proof -
  have "wpc (set_bdata b (\<lambda>d. store32 d (4 + 4 * i) (lh_block s i)))
     (\<lambda>_ s'. bframe s s' \<and> brel V dv p s' (a_put st (content (q_data (vq s') b)) A) \<and> caches dv s' = caches dv s
     \<and> load32 (q_data (vq s') b) 0 = n \<and> (\<forall>j<Suc i. load32 (q_data (vq s') b) (4 + 4 * j) = lh_block s j)) C s"
    by (rule set_bdata_wpc [OF rel b]) (use lk d in \<open>auto simp: a_put_def less_Suc_eq\<close>)
  then show ?thesis by (simp add: head_out_def wpc_simps)
qed

lemma upt_ConsD: "j # js = [i..<k] \<Longrightarrow> i < k" "j # js = [i..<k] \<Longrightarrow> j = i" "j # js = [i..<k] \<Longrightarrow> js = [Suc i..<k]"
  by (cases "i < k"; simp add: upt_conv_Cons)+

lemma Nil_upt [simp]: "[] = [i..<k] \<longleftrightarrow> k \<le> i"
  by (metis upt_conv_Nil upt_eq_Nil_conv less_or_eq_imp_le linorder_not_less upt_rec list.distinct(1))

lemma head_loop_wpc:
  fixes s :: "'z logs_scheme"
  assumes rel: "brel V dv p s (a_put st (content (q_data (vq s) b)) A)" and b: "caches dv s b st" and lk: "a_lock A st"
    and k: "k \<le> LOGSIZE" "lh_n s = int k" and d: "load32 (q_data (vq s) b) 0 = n"
  shows "wpc (for_tail (head_out b)) (\<lambda>_ s'. bframe s s' \<and> brel V dv p s' (a_put st (content (q_data (vq s') b)) A)
     \<and> caches dv s' = caches dv s \<and> load32 (q_data (vq s') b) 0 = n
     \<and> (\<forall>j<k. load32 (q_data (vq s') b) (4 + 4 * j) = lh_block s j)) C s"
proof -
  let ?I = "\<lambda>is s'. \<exists>i\<le>k. is = [i..<k] \<and> bframe s s' \<and> brel V dv p s' (a_put st (content (q_data (vq s') b)) A)
     \<and> caches dv s' = caches dv s \<and> load32 (q_data (vq s') b) 0 = n
     \<and> (\<forall>j<i. load32 (q_data (vq s') b) (4 + 4 * j) = lh_block s j)"
  have "wpc (forall_do [0..<k] (head_out b)) (\<lambda>_ s'. bframe s s' \<and> brel V dv p s' (a_put st (content (q_data (vq s') b)) A)
     \<and> caches dv s' = caches dv s \<and> load32 (q_data (vq s') b) 0 = n
     \<and> (\<forall>j<k. load32 (q_data (vq s') b) (4 + 4 * j) = lh_block s j)) C s"
  proof (rule wpc_forall_do [where I = ?I])
    show "?I [0..<k] s" using rel d by (intro exI [of _ 0]) (simp add: bframe_refl)
  next
    fix j js s1 assume "?I (j # js) s1"
    then obtain i where i: "i \<le> k" "j # js = [i..<k]" and I: "bframe s s1" "brel V dv p s1 (a_put st (content (q_data (vq s1) b)) A)"
      "caches dv s1 = caches dv s" "load32 (q_data (vq s1) b) 0 = n"
      "\<forall>j<i. load32 (q_data (vq s1) b) (4 + 4 * j) = lh_block s j" by blast
    note ik = upt_ConsD [OF i(2)]
    note fr = bframe_log [OF I(1)]
    have "caches dv s1 b st" "\<forall>j<i. load32 (q_data (vq s1) b) (4 + 4 * j) = lh_block s1 j" using I b fr by simp_all
    from head_out_wpc [OF I(2) this(1) lk k(1) ik(1) I(4) this(2), of C]
    show "wpc (head_out b j) (\<lambda>_. ?I js) C s1"
      unfolding ik(2) by (rule wpc_conseq) (use ik I fr bframe_trans [OF I(1)] in \<open>auto intro!: exI [of _ "Suc i"]\<close>)
  qed auto
  then show ?thesis using k(2) by (simp add: for_tail_def wpc_simps)
qed

lemma write_head_wpc:
  fixes s :: "'z logs_scheme"
  assumes rel: "brel V dv p s A" and rest: "at_rest P A" and lg: "lg_dev s = dv" "lg_start s = of_nat st"
    and st: "st < 2 ^ 31" "st \<notin> P" and k: "k \<le> LOGSIZE" "lh_n s = int k" and room: "card P < NBUF" and D: "D (a_disk A)"
    and post: "\<And>s' v. bframe s s' \<Longrightarrow> brel V dv p s' (A\<lparr>a_val := (a_val A)(st := v), a_disk := (a_disk A)(st := v)\<rparr>)
      \<Longrightarrow> hd_n v = int k \<Longrightarrow> \<forall>i<k. hd_b v i = lh_block s i \<Longrightarrow> Q () s'"
  shows "wpc write_head Q (crashed V D) s"
proof -
  note r = at_restD [OF rest]
  let ?A1 = "a_get st A"
  let ?J = "\<lambda>b. wpc (bwrite b) (\<lambda>_. wpc (brelse b) Q (crashed V D)) (crashed V D)"
  let ?K = "\<lambda>b. wpc (for_tail (head_out b)) (\<lambda>_. ?J b) (crashed V D)"
  have lk: "a_lock ?A1 st" by (simp add: a_get_def)
  have J: "?J b s3" if s3: "bframe s s3" "brel V dv p s3 (a_put st v ?A1)" "caches dv s3 b st" "hd_n v = int k"
    "\<forall>i<k. hd_b v i = lh_block s i" for b s3 v
  proof (rule bwrite_wpc [OF s3(2,3)])
    fix s4 assume s4: "bframe s3 s4" "brel V dv p s4 (a_sync st (a_put st v ?A1))" "caches dv s4 = caches dv s3"
    show "wpc (brelse b) Q (crashed V D) s4"
    proof (rule brelse_wpc [OF s4(2)])
      fix s5 assume s5: "bframe s4 s5" "brel V dv p s5 (a_rel st (a_sync st (a_put st v ?A1)))"
      have "a_rel st (a_sync st (a_put st v ?A1)) = A\<lparr>a_val := (a_val A)(st := v), a_disk := (a_disk A)(st := v)\<rparr>"
        using r(3) by (intro ablocks_eqI) (auto simp: a_defs fun_eq_iff)
      with s5 s3 bframe_trans [OF s3(1) bframe_trans [OF s4(1) s5(1)]] show "Q () s5" by (intro post) auto
    qed (use s3 s4 in \<open>auto simp: a_defs\<close>)
  qed (use D in \<open>auto simp: a_defs\<close>)
  have K: "?K b s2" if s2: "bframe s s2" "brel V dv p s2 (a_put st (content (q_data (vq s2) b)) ?A1)" "caches dv s2 b st"
    "load32 (q_data (vq s2) b) 0 = word_of_int (int k)" for b s2
  proof -
    note fr = bframe_log [OF s2(1)]
    have n: "sint (word_of_int (int k) :: u32) = int k" using k(1) by (simp add: LOGSIZE_val signed_of_nat signed_take_bit_int_eq_self)
    from head_loop_wpc [OF s2(2,3) lk k(1) _ s2(4), of "crashed V D"] k(2) fr
    have "wpc (for_tail (head_out b)) (\<lambda>_ s'. bframe s2 s' \<and> brel V dv p s' (a_put st (content (q_data (vq s') b)) ?A1)
     \<and> caches dv s' = caches dv s2 \<and> load32 (q_data (vq s') b) 0 = word_of_int (int k)
     \<and> (\<forall>j<k. load32 (q_data (vq s') b) (4 + 4 * j) = lh_block s2 j)) (crashed V D) s2" by simp
    then show ?thesis
    proof (rule wpc_conseq)
      fix u s3 assume s3: "bframe s2 s3 \<and> brel V dv p s3 (a_put st (content (q_data (vq s3) b)) ?A1)
       \<and> caches dv s3 = caches dv s2 \<and> load32 (q_data (vq s3) b) 0 = word_of_int (int k)
       \<and> (\<forall>j<k. load32 (q_data (vq s3) b) (4 + 4 * j) = lh_block s2 j)"
      show "?J b s3"
        by (rule J [where v = "content (q_data (vq s3) b)"])
          (use s3 s2 fr n k(1) bframe_trans [OF s2(1)] in \<open>auto simp: hd_content\<close>)
    qed
  qed
  have "wpc (bread dv (of_nat st)) (\<lambda>b s1. wpc (set_bdata b (\<lambda>d. store32 d 0 (word_of_int (lh_n s1)))) (\<lambda>_. ?K b) (crashed V D) s1) (crashed V D) s"
  proof (rule bread_wpc [OF rel st(1)])
    fix b s1 assume s1: "bframe s s1" "caches dv s1 b st" "brel V dv p s1 ?A1"
    show "wpc (set_bdata b (\<lambda>d. store32 d 0 (word_of_int (lh_n s1)))) (\<lambda>_. ?K b) (crashed V D) s1"
      by (rule set_bdata_wpc [OF s1(3,2) lk], rule K)
        (use s1 bframe_trans [OF s1(1)] bframe_log(3) [OF s1(1)] k(2) in auto)
  qed (use D r st room in auto)
  then show ?thesis using lg by (simp add: write_head_def wpc_simps)
qed

section \<open>The loops over the log\<close>

text \<open>The in-memory header names the blocks \<open>bs\<close>, which lie outside the log at \<open>st\<close>.\<close>

definition logging :: "u32 \<Rightarrow> nat \<Rightarrow> nat list \<Rightarrow> 'z logs_scheme \<Rightarrow> bool" where
  "logging dv st bs s \<longleftrightarrow> lg_dev s = dv \<and> lg_start s = of_nat st \<and> lh_n s = int (length bs)
     \<and> (\<forall>i<length bs. lh_block s i = of_nat (bs ! i))"

definition in_log :: "nat \<Rightarrow> nat \<Rightarrow> bool" where
  "in_log st n \<longleftrightarrow> st \<le> n \<and> n \<le> st + LOGSIZE"

definition geometry :: "nat \<Rightarrow> nat list \<Rightarrow> bool" where
  "geometry st bs \<longleftrightarrow> st + LOGSIZE < 2 ^ 31 \<and> length bs \<le> LOGSIZE \<and> distinct bs
     \<and> (\<forall>b\<in>set bs. b < 2 ^ 31 \<and> \<not> in_log st b)"

lemma logging_frame: "bframe s s' \<Longrightarrow> logging dv st bs s \<Longrightarrow> logging dv st bs s'"
  by (simp add: logging_def bframe_log)

lemma logging_at:
  assumes "logging dv st bs s" and "geometry st bs" and "i < length bs"
  shows "lg_dev s = dv" "lg_start s + of_nat i + 1 = of_nat (st + i + 1)" "st + i + 1 < 2 ^ 31"
    "lh_block s i = of_nat (bs ! i)" "bs ! i < 2 ^ 31" "\<not> in_log st (bs ! i)" "in_log st (st + i + 1)"
    "st + i + 1 \<notin> set bs" "st + i + 1 \<noteq> bs ! i"
proof -
  have b: "bs ! i \<in> set bs" using assms(3) by simp
  show "lg_dev s = dv" "lg_start s + of_nat i + 1 = of_nat (st + i + 1)" "st + i + 1 < 2 ^ 31"
    "lh_block s i = of_nat (bs ! i)" "bs ! i < 2 ^ 31" "\<not> in_log st (bs ! i)" and l: "in_log st (st + i + 1)"
    using assms b by (auto simp: logging_def geometry_def in_log_def)
  show n: "st + i + 1 \<notin> set bs" using l assms(2) by (auto simp: geometry_def)
  with b show "st + i + 1 \<noteq> bs ! i" by metis
qed

text \<open>The store when the first \<open>i\<close> blocks have been copied to the log.\<close>

definition to_log :: "nat \<Rightarrow> nat list \<Rightarrow> ablocks \<Rightarrow> nat \<Rightarrow> ablocks" where
  "to_log st bs A i = A\<lparr>
     a_val := (\<lambda>n. if st < n \<and> n \<le> st + i then a_val A (bs ! (n - st - 1)) else a_val A n),
     a_disk := (\<lambda>n. if st < n \<and> n \<le> st + i then a_val A (bs ! (n - st - 1)) else a_disk A n)\<rparr>"

lemma write_log_wpc:
  fixes s :: "'z logs_scheme"
  assumes rel: "brel V dv p s A" and rest: "at_rest (set bs) A" and lg: "logging dv st bs s" and geo: "geometry st bs"
    and room: "length bs < NBUF"
    and D: "\<And>d. (\<forall>n. \<not> in_log st n \<or> n = st \<longrightarrow> d n = a_disk A n) \<Longrightarrow> D d"
    and post: "\<And>s'. bframe s s' \<Longrightarrow> brel V dv p s' (to_log st bs A (length bs)) \<Longrightarrow> Q () s'"
  shows "wpc write_log Q (crashed V D) s"
proof -
  let ?I = "\<lambda>is s'. \<exists>i\<le>length bs. is = [i..<length bs] \<and> bframe s s' \<and> brel V dv p s' (to_log st bs A i)"
  have "wpc (forall_do [0..<length bs] write_log_one) Q (crashed V D) s"
  proof (rule wpc_forall_do [where I = ?I])
    have "to_log st bs A 0 = A" by (intro ablocks_eqI) (auto simp: to_log_def fun_eq_iff)
    then show "?I [0..<length bs] s" using rel by (intro exI [of _ 0]) (simp add: bframe_refl)
  next
    fix j js s1 assume "?I (j # js) s1"
    then obtain i where i: "j # js = [i..<length bs]" and I: "bframe s s1" "brel V dv p s1 (to_log st bs A i)" by blast
    note ik = upt_ConsD [OF i]
    note at_ = logging_at [OF logging_frame [OF I(1) lg] geo ik(1)]
    have "wpc (write_log_one i) (\<lambda>_. ?I js) (crashed V D) s1"
    proof (rule write_log_one_wpc [OF I(2) _ at_(1) at_(2,3,8,4,5)])
      show "at_rest (set bs) (to_log st bs A i)" using rest by (simp add: at_rest_def to_log_def)
      show "bs ! i \<in> set bs" using ik(1) by simp
      show "card (set bs) < NBUF" using card_length [of bs] room by simp
      show "D (a_disk (to_log st bs A i))"
        using ik(1) geo by (intro D) (auto simp: to_log_def in_log_def geometry_def)
      fix s2 let ?y = "a_val (to_log st bs A i) (bs ! i)"
      assume s2: "bframe s1 s2" "brel V dv p s2 (to_log st bs A i\<lparr>a_val := (a_val (to_log st bs A i))(st + i + 1 := ?y),
          a_disk := (a_disk (to_log st bs A i))(st + i + 1 := ?y)\<rparr>)"
      have "\<not> (st < bs ! i \<and> bs ! i \<le> st + i)"
        using at_(6) ik(1) geo unfolding in_log_def geometry_def by linarith
      then have "?y = a_val A (bs ! i)" by (auto simp: to_log_def)
      then have "to_log st bs A i\<lparr>a_val := (a_val (to_log st bs A i))(st + i + 1 := ?y),
          a_disk := (a_disk (to_log st bs A i))(st + i + 1 := ?y)\<rparr> = to_log st bs A (Suc i)"
        by (intro ablocks_eqI) (auto simp: to_log_def fun_eq_iff)
      then show "?I js s2" using s2 ik bframe_trans [OF I(1)] by (intro exI [of _ "Suc i"]) auto
    qed
    then show "wpc (write_log_one j) (\<lambda>_. ?I js) (crashed V D) s1" using ik(2) by simp
  next
    fix s' assume "?I [] s'"
    then show "Q () s'" using post by auto
  qed
  then show ?thesis using lg by (simp add: write_log_def for_tail_def wpc_simps logging_def)
qed

text \<open>The store when the first \<open>i\<close> blocks have been installed.\<close>

definition idx :: "nat list \<Rightarrow> nat \<Rightarrow> nat" where
  "idx bs n = length (takeWhile (\<lambda>b. b \<noteq> n) bs)"

lemma idx_nth: "distinct bs \<Longrightarrow> i < length bs \<Longrightarrow> idx bs (bs ! i) = i"
proof (induction bs arbitrary: i)
  case (Cons b bs)
  then show ?case by (cases i) (auto simp: idx_def)
qed simp

lemma nth_idx: "n \<in> set bs \<Longrightarrow> idx bs n < length bs \<and> bs ! idx bs n = n"
  by (induction bs) (auto simp: idx_def)

definition installed :: "nat \<Rightarrow> nat list \<Rightarrow> ablocks \<Rightarrow> nat \<Rightarrow> ablocks" where
  "installed st bs A i = A\<lparr>a_refs := (\<lambda>n. if n \<in> set (take i bs) then 0 else a_refs A n),
     a_val := (\<lambda>n. if n \<in> set (take i bs) then a_val A (st + idx bs n + 1) else a_val A n),
     a_disk := (\<lambda>n. if n \<in> set (take i bs) then a_val A (st + idx bs n + 1) else a_disk A n)\<rparr>"

lemma installed_Suc:
  assumes "distinct bs" and "i < length bs" and "st + i + 1 \<notin> set bs"
  shows "installed st bs A i\<lparr>a_refs := (a_refs (installed st bs A i))(bs ! i := 0),
      a_val := (a_val (installed st bs A i))(bs ! i := a_val (installed st bs A i) (st + i + 1)),
      a_disk := (a_disk (installed st bs A i))(bs ! i := a_val (installed st bs A i) (st + i + 1))\<rparr>
    = installed st bs A (Suc i)"
proof -
  have "st + i + 1 \<notin> set (take i bs)" using assms(3) by (meson in_set_takeD)
  then have v: "a_val (installed st bs A i) (st + i + 1) = a_val A (st + i + 1)" by (simp add: installed_def)
  have t: "set (take (Suc i) bs) = insert (bs ! i) (set (take i bs))"
    using assms(2) by (simp add: take_Suc_conv_app_nth)
  show ?thesis unfolding v using idx_nth [OF assms(1,2)]
    by (intro ablocks_eqI) (auto simp: installed_def t fun_eq_iff)
qed

lemma nth_notin_take: "distinct bs \<Longrightarrow> i < length bs \<Longrightarrow> bs ! i \<notin> set (take i bs)"
  by (metis distinct_take in_set_conv_nth length_take less_imp_le_nat min.absorb2 nat_less_le nth_eq_iff_index_eq nth_take order_less_trans)

lemma install_trans_wpc:
  fixes s :: "'z logs_scheme"
  assumes rel: "brel V dv p s A" and rest: "at_rest (if recovering then {} else set bs) A"
    and lg: "logging dv st bs s" and geo: "geometry st bs" and room: "recovering \<or> length bs < NBUF"
    and D: "\<And>d. (\<forall>n. n \<notin> set bs \<longrightarrow> d n = a_disk A n) \<Longrightarrow> D d"
    and post: "\<And>s'. bframe s s' \<Longrightarrow> brel V dv p s' (installed st bs A (length bs)) \<Longrightarrow> Q () s'"
  shows "wpc (install_trans recovering) Q (crashed V D) s"
proof -
  have dis: "distinct bs" using geo by (simp add: geometry_def)
  let ?I = "\<lambda>is s'. \<exists>i\<le>length bs. is = [i..<length bs] \<and> bframe s s' \<and> brel V dv p s' (installed st bs A i)"
  have "wpc (forall_do [0..<length bs] (install_one recovering)) Q (crashed V D) s"
  proof (rule wpc_forall_do [where I = ?I])
    have "installed st bs A 0 = A" by (intro ablocks_eqI) (auto simp: installed_def)
    then show "?I [0..<length bs] s" using rel by (intro exI [of _ 0]) (simp add: bframe_refl)
  next
    fix j js s1 assume "?I (j # js) s1"
    then obtain i where i: "j # js = [i..<length bs]" and I: "bframe s s1" "brel V dv p s1 (installed st bs A i)" by blast
    note ik = upt_ConsD [OF i]
    note at_ = logging_at [OF logging_frame [OF I(1) lg] geo ik(1)]
    let ?P = "if recovering then {} else set bs - set (take i bs)"
    have "wpc (install_one recovering i) (\<lambda>_. ?I js) (crashed V D) s1"
    proof (rule install_one_wpc [OF I(2) _ at_(1) at_(2,3) _ at_(4,5,9)])
      show "at_rest ?P (installed st bs A i)" using rest by (auto simp: at_rest_def installed_def fun_eq_iff)
      show "st + i + 1 \<notin> ?P" using at_(8) by simp
      show "bs ! i \<in> ?P \<longleftrightarrow> \<not> recovering" using nth_notin_take [OF dis ik(1)] ik(1) by auto
      have "card (set bs - set (take i bs)) \<le> length bs" by (metis card_length card_mono Diff_subset List.finite_set le_trans)
      then show "card ?P + 1 < NBUF \<or> bs ! i \<in> ?P \<and> card ?P < NBUF"
        using room nth_notin_take [OF dis ik(1)] ik(1) by (auto simp: NBUF_val)
      show "D (a_disk (installed st bs A i))" by (intro D) (auto simp: installed_def dest: in_set_takeD)
      fix s2 assume s2: "bframe s1 s2" "brel V dv p s2 (installed st bs A i\<lparr>a_refs := (a_refs (installed st bs A i))(bs ! i := 0),
        a_val := (a_val (installed st bs A i))(bs ! i := a_val (installed st bs A i) (st + i + 1)),
        a_disk := (a_disk (installed st bs A i))(bs ! i := a_val (installed st bs A i) (st + i + 1))\<rparr>)"
      from s2(2) [unfolded installed_Suc [OF dis ik(1) at_(8)]] s2(1)
      show "?I js s2" using ik bframe_trans [OF I(1)] by (intro exI [of _ "Suc i"]) auto
    qed
    then show "wpc (install_one recovering j) (\<lambda>_. ?I js) (crashed V D) s1" using ik(2) by simp
  next
    fix s' assume "?I [] s'"
    then show "Q () s'" using post by auto
  qed
  then show ?thesis using lg by (simp add: install_trans_def for_tail_def wpc_simps logging_def)
qed

end
