(* ===== verification/Demo_disk.thy ===== *)
theory Demo_disk
  imports Log_props
begin

text \<open>
  A concrete state of the disk, the buffer cache and the log, on which the witnesses of the
  storage layers run.
\<close>

text \<open>Buffer 0 holds block 100 of the device, pinned and with new bytes; the other buffers are unused
  and every byte of the disk is 0 except those of \<open>d\<close>.\<close>

definition demo_bufs :: "nat \<Rightarrow> nat \<Rightarrow> buf" where
  "demo_bufs k b = \<lparr>b_valid = b < k, b_disk = False, b_dev = (if b < k then 1 else 0), b_blockno = (if b < k then 100 else 0),
     b_refcnt = (if b < k then 1 else 0), b_prev = (if b = 0 then 30 else b - 1), b_next = (if b = 30 then 0 else b + 1)\<rparr>"

definition demo_log :: "(vqueue \<Rightarrow> vqueue) \<Rightarrow> nat \<Rightarrow> (nat \<Rightarrow> bytes) \<Rightarrow> traps" where
  "demo_log V k d = demo\<lparr>vdev := V, bufs := demo_bufs k, vq := demo_queue\<lparr>q_data := (\<lambda>b _. if b < k then 7 else 0), q_disk := d\<rparr>,
     lh_n := int k, lh_block := (\<lambda>_. 100)\<rparr>"

definition demo_blocks :: "nat \<Rightarrow> (nat \<Rightarrow> bytes) \<Rightarrow> ablocks" where
  "demo_blocks k d = \<lparr>a_refs = (\<lambda>n. if n \<in> (if k = 0 then {} else {100}) then 1 else 0), a_lock = (\<lambda>_. False),
     a_val = (\<lambda>n. if 0 < k \<and> n = 100 then content (\<lambda>_. 7) else content (d n)), a_disk = (\<lambda>n. content (d n))\<rparr>"

lemma demo_blist: "blist (demo_bufs k) [0..<NBUF]"
proof -
  have "links (\<lambda>b. b_next (demo_bufs k b)) (\<lambda>b. b_prev (demo_bufs k b)) (30 # [0..<30] @ [30])"
    by (simp add: demo_bufs_def upt_rec)
  then show ?thesis by (auto simp: blist_def NBUF_val)
qed

lemma demo_unlocked: "\<not> sl_locked (slk (demo_log V k d) l)"
  by (simp add: demo_log_def) (simp add: demo_def)

lemma demo_brel:
  assumes "k \<le> 1" and "blk_device V"
  shows "brel V 1 0 (demo_log V k d) (demo_blocks k d)"
proof -
  let ?s = "demo_log V k d"
  have s: "mach ?s = demo_machine (Some 0)" "vdev ?s = V" "bufs ?s = demo_bufs k" "dk ?s = (\<lambda>n. content (d n))"
    "q_data (vq ?s) b = (\<lambda>_. if b < k then 7 else 0)" "disk_idle ?s" for b
    by (simp_all add: demo_log_def dk_def [abs_def] demo_queue_def disk_idle_def) (simp_all add: demo_def)
  have c: "caches 1 ?s b n \<longleftrightarrow> b < k \<and> n = 100" for b n
    using assms(1) by (auto simp: caches_def s(3) demo_bufs_def NBUF_val)
  show ?thesis
    unfolding brel_def c s
    using assms demo_blist [of k]
    by (auto simp: running_def buf_ok_def s demo_unlocked demo_bufs_def demo_blocks_def)
qed

lemma demo_logging: "logging 1 2 (replicate k 100) (demo_log V k d)"
  by (simp add: logging_def demo_log_def) (simp add: demo_def)

lemma demo_geometry: "k \<le> 1 \<Longrightarrow> geometry 2 (replicate k 100)"
  by (cases k) (auto simp: geometry_def LOGSIZE_val in_log_def)

lemma demo_at_rest: "k \<le> 1 \<Longrightarrow> at_rest (set (replicate k 100)) (demo_blocks k d)"
  by (auto simp: at_rest_def demo_blocks_def)

lemma serve_live: "blk_device serve" "live_device serve"
  by (simp_all add: blk_device_def live_device_def)

end
