(* ===== verification/Bio_cache.thy ===== *)
theory Bio_cache
  imports Demo_disk
begin

text \<open>
  Properties of the buffer cache: \<^verbatim>\<open>bread\<close> returns the current value of a block,
  \<^verbatim>\<open>bwrite\<close> makes it durable in one step, and buffers are recycled in the order of their
  last use.
\<close>

text \<open>
  C7: the buffer cache is transparent. \<^verbatim>\<open>bread\<close> of a block that is not locked, when the cache
  has room for it, returns a locked buffer of this block with the block's current value: the
  cached one if the block is in the cache, and the one on the disk otherwise. No other block
  changes its value, its lock or its reference count. If the device has stopped it may wait
  forever instead, with the disk unchanged; it does not panic.
\<close>

theorem bread_current:
  assumes "brel V dv p s A" and "n < 2 ^ 31" and "\<not> a_lock A n" and "a_refs A n + 1 < 2 ^ 32"
    and "0 < a_refs A n \<or> card {n. 0 < a_refs A n} < NBUF"
  shows "case bread dv (of_nat n) s of
      Ret b s' \<Rightarrow> caches dv s' b n \<and> content (q_data (vq s') b) = a_val A n
        \<and> brel V dv p s' (A\<lparr>a_refs := (a_refs A)(n := a_refs A n + 1), a_lock := (a_lock A)(n := True)\<rparr>)
    | Stop e s' \<Rightarrow> e = Hang \<and> \<not> live_device V \<and> dk s' = dk s"
proof -
  have "wpc (bread dv (of_nat n)) (\<lambda>b s'. caches dv s' b n \<and> brel V dv p s' (a_get n A)) (crashed V (\<lambda>d. d = dk s)) s"
    by (rule bread_wpc [OF assms]) (auto simp: brelD(9) [OF assms(1)])
  moreover have "content (q_data (vq s') b) = a_val A n" if "caches dv s' b n" "brel V dv p s' (a_get n A)" for b s'
    using brel_cached(4,5) [OF that(2,1)] by (simp add: a_get_def)
  ultimately show ?thesis by (auto simp: wpc_def crashed_def a_get_def split: outcome.splits)
qed

theorem bread_current_witness:
  "\<exists>b s'. bread 1 (of_nat 100) (demo_log serve 1 (\<lambda>_ _. 0)) = Ret b s' \<and> content (q_data (vq s') b) = content (\<lambda>_. 7)"
proof -
  let ?A = "demo_blocks 1 (\<lambda>_ _. 0)"
  have "case bread 1 (of_nat 100) (demo_log serve 1 (\<lambda>_ _. 0)) of
      Ret b s' \<Rightarrow> caches 1 s' b 100 \<and> content (q_data (vq s') b) = a_val ?A 100
        \<and> brel serve 1 0 s' (?A\<lparr>a_refs := (a_refs ?A)(100 := a_refs ?A 100 + 1), a_lock := (a_lock ?A)(100 := True)\<rparr>)
    | Stop e s' \<Rightarrow> e = Hang \<and> \<not> live_device serve \<and> dk s' = dk (demo_log serve 1 (\<lambda>_ _. 0))"
    by (rule bread_current [OF demo_brel]) (simp_all add: serve_live demo_blocks_def)
  then show ?thesis by (auto simp: serve_live demo_blocks_def split: outcome.splits)
qed

text \<open>
  C24: \<^verbatim>\<open>bwrite\<close> of a buffer that the process has locked writes the block of the buffer, and no other
  block, to the disk in one step: if it returns, the block on the disk has the value of the
  buffer, and if the device stops instead, the disk is as it was.
\<close>

theorem bwrite_durable:
  assumes "brel V dv p s A" and "caches dv s b n" and "a_lock A n"
  shows "case bwrite b s of
      Ret _ s' \<Rightarrow> dk s' = (dk s)(n := content (q_data (vq s) b))
        \<and> brel V dv p s' (A\<lparr>a_disk := (a_disk A)(n := a_val A n)\<rparr>) \<and> caches dv s' = caches dv s
    | Stop e s' \<Rightarrow> e = Hang \<and> \<not> live_device V \<and> dk s' = dk s"
proof -
  have "wpc (bwrite b) (\<lambda>_ s'. brel V dv p s' (a_sync n A) \<and> caches dv s' = caches dv s) (crashed V (\<lambda>d. d = dk s)) s"
    by (rule bwrite_wpc [OF assms]) (auto simp: brelD(9) [OF assms(1)])
  moreover have "dk s' = (dk s)(n := content (q_data (vq s) b))" if "brel V dv p s' (a_sync n A)" for s'
    using brelD(9) [OF that] brelD(9) [OF assms(1)] brel_cached(4,5) [OF assms(1,2)] assms(3)
    by (simp add: a_sync_def)
  ultimately show ?thesis by (auto simp: wpc_def crashed_def a_sync_def split: outcome.splits)
qed

theorem bwrite_durable_witness:
  "\<exists>b s1. bread 1 (of_nat 100) (demo_log serve 1 (\<lambda>_ _. 0)) = Ret b s1
     \<and> (\<exists>s2. bwrite b s1 = Ret () s2 \<and> dk s2 100 = content (\<lambda>_. 7))"
proof -
  let ?s = "demo_log serve 1 (\<lambda>_ _. 0)" let ?A = "demo_blocks 1 (\<lambda>_ _. 0)"
  have "wpc (bread 1 (of_nat 100)) (\<lambda>b s'. caches 1 s' b 100 \<and> brel serve 1 0 s' (a_get 100 ?A)) (crashed serve (\<lambda>_. True)) ?s"
    by (rule bread_wpc [OF demo_brel]) (simp_all add: serve_live demo_blocks_def)
  then obtain b s1 where s1: "bread 1 (of_nat 100) ?s = Ret b s1" "caches 1 s1 b 100" "brel serve 1 0 s1 (a_get 100 ?A)"
    by (auto elim!: wpcE simp: crashed_def serve_live)
  have v: "content (q_data (vq s1) b) = content (\<lambda>_. 7)"
    using brel_cached(4,5) [OF s1(3,2)] by (simp add: a_get_def demo_blocks_def)
  have "case bwrite b s1 of
      Ret _ s' \<Rightarrow> dk s' = (dk s1)(100 := content (q_data (vq s1) b))
        \<and> brel serve 1 0 s' (a_get 100 ?A\<lparr>a_disk := (a_disk (a_get 100 ?A))(100 := a_val (a_get 100 ?A) 100)\<rparr>) \<and> caches 1 s' = caches 1 s1
    | Stop e s' \<Rightarrow> e = Hang \<and> \<not> live_device serve \<and> dk s' = dk s1"
    by (rule bwrite_durable [OF s1(3,2)]) (simp add: a_get_def)
  then show ?thesis using s1(1) v serve_live by (auto split: outcome.splits)
qed

lemma find_rev: "find P (rev L) = (if filter P L = [] then None else Some (last (filter P L)))"
  by (induction L rule: rev_induct) simp_all

text \<open>
  C25: replacement is least recently used. When no buffer holds the block, \<^verbatim>\<open>bget\<close> takes, of
  the buffers nobody uses, the one that was released longest ago, binds it to the block with one
  reference and its contents not valid, and panics if there is no such buffer.
\<close>

theorem bget_lru:
  assumes "running p (mach s)" and "blist (bufs s) L" and "\<forall>b<NBUF. \<not> (b_dev (bufs s b) = dev \<and> b_blockno (bufs s b) = bn)"
    and "\<forall>b<NBUF. b_refcnt (bufs s b) = 0 \<longrightarrow> \<not> sl_locked (slk s (BufLock b))"
  shows "if filter (\<lambda>b. b_refcnt (bufs s b) = 0) L = []
     then \<exists>s'. bget dev bn s = Stop (Panic ''bget: no buffers'') s'
     else \<exists>s'. bget dev bn s = Ret (last (filter (\<lambda>b. b_refcnt (bufs s b) = 0) L)) s' \<and> blist (bufs s') L
       \<and> bufs s' = (bufs s)(last (filter (\<lambda>b. b_refcnt (bufs s b) = 0) L) :=
            (bufs s (last (filter (\<lambda>b. b_refcnt (bufs s b) = 0) L)))\<lparr>b_dev := dev, b_blockno := bn, b_valid := False, b_refcnt := 1\<rparr>)"
proof -
  let ?F = "filter (\<lambda>b. b_refcnt (bufs s b) = 0) L"
  have n: "find (\<lambda>b. b_dev (bufs s b) = dev \<and> b_blockno (bufs s b) = bn) L = None"
    using assms(3) blistD(2) [OF assms(2)] by (auto simp: find_None_iff)
  show ?thesis
  proof (cases "?F = []")
    case True
    then show ?thesis using bget_full [OF assms(1,2) n] by (simp add: find_rev)
  next
    case False
    then have "last ?F \<in> set ?F" by (rule last_in_set)
    then have lk: "\<not> sl_locked (slk s (BufLock (last ?F)))" using assms(4) blistD(2) [OF assms(2)] by auto
    let ?bf = "(bufs s)(last ?F := (bufs s (last ?F))\<lparr>b_dev := dev, b_blockno := bn, b_valid := False, b_refcnt := 1\<rparr>)"
    have "blist ?bf L" using assms(2) by (subst blist_cong [where bf' = "bufs s"]) auto
    then show ?thesis using bget_recycle [OF assms(1,2) n _ lk] False by (simp add: find_rev)
  qed
qed

theorem bget_lru_witness:
  "\<exists>s'. bget 1 5 (demo_log serve 1 (\<lambda>_ _. 0)) = Ret 29 s'"
proof -
  let ?s = "demo_log serve 1 (\<lambda>_ _. 0)"
  have b: "bufs ?s = demo_bufs 1" by (simp add: demo_log_def)
  have f: "filter (\<lambda>b. b_refcnt (bufs ?s b) = 0) [0..<NBUF] = [1..<30]"
    unfolding b by (simp add: demo_bufs_def NBUF_val upt_rec)
  have "running 0 (mach ?s)" using brelD(1) [OF demo_brel [OF order_refl serve_live(1)]] by simp
  moreover have "blist (bufs ?s) [0..<NBUF]" unfolding b by (rule demo_blist)
  moreover have "\<forall>b<NBUF. \<not> (b_dev (bufs ?s b) = 1 \<and> b_blockno (bufs ?s b) = 5)" unfolding b by (simp add: demo_bufs_def)
  ultimately show ?thesis
    using bget_lru [of 0 ?s "[0..<NBUF]" 1 5] f demo_unlocked by auto
qed

text \<open>
  C26: \<^verbatim>\<open>brelse\<close> of a buffer that the process has locked unlocks it and drops one reference; if that was
  the last one the buffer becomes the most recently used one, and otherwise the order of
  the buffers stays. \<^verbatim>\<open>brelse\<close> of a buffer that the process has not locked panics.
\<close>

theorem brelse_front:
  assumes "running p (mach s)" and "blist (bufs s) L" and "b < NBUF"
  shows "if sl_locked (slk s (BufLock b)) \<and> sl_pid (slk s (BufLock b)) = p_pid (proctab s p)
     then \<exists>s'. brelse b s = Ret () s' \<and> \<not> sl_locked (slk s' (BufLock b))
       \<and> b_refcnt (bufs s' b) = b_refcnt (bufs s b) - 1
       \<and> blist (bufs s') (if b_refcnt (bufs s b) = 1 then b # remove1 b L else L)
     else \<exists>s'. brelse b s = Stop (Panic ''brelse'') s'"
proof (cases "sl_locked (slk s (BufLock b)) \<and> sl_pid (slk s (BufLock b)) = p_pid (proctab s p)")
  case True
  then obtain bf where "brelse b s = Ret () (s\<lparr>mach := quiet (mach s), bufs := bf,
       slk := (slk s)(BufLock b := sl_freed (slk s (BufLock b))),
       proctab := wake_all (Some (ChanSleep (BufLock b))) (Some p) {..<NPROC} (proctab s)\<rparr>)"
     "relinked ((bufs s)(b := (bufs s b)\<lparr>b_refcnt := b_refcnt (bufs s b) - 1\<rparr>)) bf"
     "blist bf (if b_refcnt (bufs s b) - 1 = 0 then b # remove1 b L else L)"
    using brelse_closed [OF assms _ _ refl] by blast
  with True show ?thesis by (auto simp: relinked_def split: if_splits)
next
  case False
  then show ?thesis using holdingsleep_eq [OF assms(1), of "BufLock b"] by (auto simp: brelse_def km_simps)
qed

theorem brelse_front_witness:
  "\<exists>s'. brelse 0 (demo_log serve 1 (\<lambda>_ _. 0)) = Stop (Panic ''brelse'') s'"
proof -
  let ?s = "demo_log serve 1 (\<lambda>_ _. 0)"
  have r: "running 0 (mach ?s)" using brelD(1) [OF demo_brel [OF order_refl serve_live(1)]] by simp
  have "blist (bufs ?s) [0..<NBUF]" using demo_blist [of 1] by (simp add: demo_log_def)
  from brelse_front [OF r this, of 0] show ?thesis using demo_unlocked by (simp add: NBUF_val)
qed

end
