(* ===== verification/Log_crash.thy ===== *)
theory Log_crash
  imports Demo_disk
begin

text \<open>
  Crash safety of the log: whatever the moment at which the disk stops during a commit, recovery
  finds either all the blocks of the transaction or none of them; recovery itself may be
  interrupted any number of times.
\<close>

section \<open>What recovery makes of a disk\<close>







section \<open>Commit\<close>




section \<open>Recovery\<close>




section \<open>Properties\<close>










end
