(* ===== verification/Log_ops.thy ===== *)
theory Log_ops
  imports Demo_disk
begin

text \<open>
  File system operations and the space of the log: what \<^verbatim>\<open>begin_op\<close> admits, what
  \<^verbatim>\<open>log_write\<close> records, and that the space admitted is one block more than the log has.
\<close>

section \<open>Closed forms\<close>

lemma begin_op_enters:
  assumes "running p (mach s)" and "\<not> lg_committing s"
    and "lh_n s + (lg_outstanding s + 1) * int MAXOPBLOCKS \<le> int LOGSIZE"
  shows "begin_op s = Ret () (s\<lparr>mach := quiet (mach s), lg_outstanding := lg_outstanding s + 1\<rparr>)"
  using runningD [OF assms(1)] assms(2,3) by (simp add: begin_op_def begin_op_loop_def km_simps)

lemma begin_op_waits:
  assumes "running p (mach s)"
    and "lg_committing s \<or> int LOGSIZE < lh_n s + (lg_outstanding s + 1) * int MAXOPBLOCKS"
  shows "begin_op s = Stop Switched (s\<lparr>mach := taken (ProcLock p) (mach s),
     proctab := (proctab s)(p := (proctab s p)\<lparr>p_chan := Some ChanLog, p_state := SLEEPING\<rparr>)\<rparr>)"
  using runningD [OF assms(1)] assms(2) sleep_eq [of "s\<lparr>mach := taken LogLock (mach s)\<rparr>" LogLock "mach s" p ChanLog]
  by (auto simp: begin_op_def begin_op_loop_def km_simps)

text \<open>The blocks of the in-memory header.\<close>

definition logged :: "'z logs_scheme \<Rightarrow> u32 list" where
  "logged s = map (lh_block s) [0..<nat (lh_n s)]"

lemma log_slot_new: "k \<notin> f ` {..<n} \<Longrightarrow> log_slot k n f = n"
proof -
  assume "k \<notin> f ` {..<n}"
  then have "takeWhile (\<lambda>i. f i \<noteq> k) [0..<n] = [0..<n]" by (auto simp: takeWhile_eq_all_conv)
  then show ?thesis unfolding log_slot_def by (metis diff_zero length_upt)
qed

lemma log_slot_old:
  assumes "k \<in> f ` {..<n}"
  shows "log_slot k n f < n" "f (log_slot k n f) = k"
proof -
  let ?P = "\<lambda>i. f i \<noteq> k"
  have "takeWhile ?P [0..<n] \<noteq> [0..<n]" using assms by (auto simp: takeWhile_eq_all_conv)
  then have l: "length (takeWhile ?P [0..<n]) < length [0..<n]"
    by (metis length_takeWhile_le nat_less_le takeWhile_eq_take take_all_iff order_refl)
  then show "log_slot k n f < n" by (simp add: log_slot_def)
  from nth_length_takeWhile [OF l] l show "f (log_slot k n f) = k" by (simp add: log_slot_def)
qed

lemma sint_size: "sint (of_nat LOGSIZE - 1 :: u32) = 29"
  by (simp add: LOGSIZE_val)

text \<open>\<^verbatim>\<open>log_write\<close> while there is room.\<close>

lemma log_write_eq:
  assumes run: "running p (mach s)" and k: "lh_n s = int k" "k < LOGSIZE" "int k < sint (lg_size s - 1)"
    and out: "1 \<le> lg_outstanding s" and bn: "bn = b_blockno (bufs s b)"
  shows "log_write b s = Ret () (if bn \<in> set (logged s) then s\<lparr>mach := quiet (mach s)\<rparr>
     else s\<lparr>mach := quiet (mach s), lh_n := int (Suc k), lh_block := (lh_block s)(k := bn),
            bufs := (bufs s)(b := (bufs s b)\<lparr>b_refcnt := b_refcnt (bufs s b) + 1\<rparr>)\<rparr>)"
proof -
  note r = runningD [OF run]
  have lg: "set (logged s) = lh_block s ` {..<k}" using k(1) by (auto simp: logged_def)
  show ?thesis
  proof (cases "bn \<in> lh_block s ` {..<k}")
    case True
    note o = log_slot_old [OF True]
    have u: "(lh_block s)(log_slot bn k (lh_block s) := bn) = lh_block s" using o(2) by (simp add: fun_upd_idem)
    show ?thesis using r k out True o u by (simp add: log_write_def km_simps lg bn [symmetric])
  next
    case False
    show ?thesis using r k out False log_slot_new [OF False]
      by (simp add: log_write_def bpin_def km_simps lg bn [symmetric] taken_commute)
  qed
qed

lemma log_write_full:
  assumes "running p (mach s)" and "int LOGSIZE \<le> lh_n s \<or> sint (lg_size s - 1) \<le> lh_n s"
  shows "\<exists>s'. log_write b s = Stop (Panic ''too big a transaction'') s'"
  using runningD [OF assms(1)] assms(2) by (auto simp: log_write_def km_simps)

section \<open>Properties\<close>

text \<open>
  C18: \<^verbatim>\<open>begin_op\<close> keeps the space that running operations may need within the size of the log. It returns
  exactly when no commit is going on and the blocks logged so far, plus \<^verbatim>\<open>MAXOPBLOCKS\<close> for every
  running operation and this one, are at most \<^verbatim>\<open>LOGSIZE\<close>, and the bound holds afterwards;
  otherwise the process goes to sleep on the log, with the lock released and the log unchanged.
\<close>

theorem begin_op_reserves:
  assumes "running p (mach s)"
  shows "if \<not> lg_committing s \<and> lh_n s + (lg_outstanding s + 1) * int MAXOPBLOCKS \<le> int LOGSIZE
     then \<exists>s'. begin_op s = Ret () s' \<and> lg_outstanding s' = lg_outstanding s + 1
       \<and> lh_n s' + lg_outstanding s' * int MAXOPBLOCKS \<le> int LOGSIZE \<and> running p (mach s')
     else \<exists>s'. begin_op s = Stop Switched s' \<and> lg_outstanding s' = lg_outstanding s \<and> lh_n s' = lh_n s
       \<and> p_state (proctab s' p) = SLEEPING \<and> p_chan (proctab s' p) = Some ChanLog \<and> LogLock \<notin> held (mach s')"
proof (cases "\<not> lg_committing s \<and> lh_n s + (lg_outstanding s + 1) * int MAXOPBLOCKS \<le> int LOGSIZE")
  case True
  then show ?thesis using begin_op_enters [OF assms] assms by simp
next
  case False
  then have "lg_committing s \<or> int LOGSIZE < lh_n s + (lg_outstanding s + 1) * int MAXOPBLOCKS" by auto
  from begin_op_waits [OF assms this] False runningD(2) [OF assms] show ?thesis by (auto split: if_splits)
qed

lemma demo_running: "running 0 (mach demo)"
  by (simp add: running_def)

theorem begin_op_reserves_witness: "\<exists>s'. begin_op demo = Ret () s' \<and> lg_outstanding s' = 1"
proof -
  have "lg_outstanding demo = 0" "lh_n demo = 0" "\<not> lg_committing demo" by (simp_all add: demo_def)
  then show ?thesis
    using begin_op_reserves [OF demo_running] by (auto simp: MAXOPBLOCKS_def LOGSIZE_def split: if_splits)
qed

text \<open>
  C19: \<^verbatim>\<open>log_write\<close> records a block once. Inside an operation and while the log has room, it adds
  the block of the buffer to the log and pins the buffer if the block is not in the log yet, and
  changes nothing if it is (the new contents are absorbed); the blocks in the log stay distinct.
  Outside of an operation it panics.
\<close>

theorem log_write_records:
  assumes "running p (mach s)" and "lh_n s = int k" and "k < LOGSIZE" and "int k < sint (lg_size s - 1)"
  shows "if lg_outstanding s < 1 then \<exists>s'. log_write b s = Stop (Panic ''log_write outside of trans'') s'
     else \<exists>s'. log_write b s = Ret () s' \<and> set (logged s') = insert (b_blockno (bufs s b)) (set (logged s))
       \<and> (distinct (logged s) \<longrightarrow> distinct (logged s'))
       \<and> b_refcnt (bufs s' b) = b_refcnt (bufs s b) + (if b_blockno (bufs s b) \<in> set (logged s) then 0 else 1)
       \<and> q_disk (vq s') = q_disk (vq s)"
proof (cases "lg_outstanding s < 1")
  case True
  then show ?thesis using runningD [OF assms(1)] assms(2-4) by (simp add: log_write_def km_simps)
next
  case False
  then have out: "1 \<le> lg_outstanding s" by simp
  let ?bn = "b_blockno (bufs s b)"
  note eq = log_write_eq [OF assms out refl, of b]
  show ?thesis
  proof (cases "?bn \<in> set (logged s)")
    case True
    then show ?thesis using eq False by (auto simp: insert_absorb logged_def)
  next
    case new: False
    let ?s' = "s\<lparr>mach := quiet (mach s), lh_n := int (Suc k), lh_block := (lh_block s)(k := ?bn),
            bufs := (bufs s)(b := (bufs s b)\<lparr>b_refcnt := b_refcnt (bufs s b) + 1\<rparr>)\<rparr>"
    have "logged ?s' = logged s @ [?bn]" using assms(2) by (simp add: logged_def nat_add_distrib)
    then have "set (logged ?s') = insert ?bn (set (logged s))" "distinct (logged s) \<longrightarrow> distinct (logged ?s')"
      using new by simp_all
    with eq new False show ?thesis by simp
  qed
qed

theorem log_write_records_witness:
  "\<exists>s'. log_write 0 (demo\<lparr>lg_outstanding := 1\<rparr>) = Ret () s' \<and> set (logged s') = {0}"
proof -
  let ?s = "demo\<lparr>lg_outstanding := 1\<rparr>"
  have l: "lh_n ?s = int 0" "lg_size ?s = 30" "b_blockno (bufs demo 0) = 0" by (simp_all add: demo_def demo_buf_def)
  have r: "running 0 (mach ?s)" using demo_running by simp
  from log_write_records [OF r l(1), of 0] l(1,2) show ?thesis
    by (auto simp: LOGSIZE_val logged_def l(3) split: if_splits)
qed

lemma log_writes:
  assumes "running p (mach s)" and "lh_n s = 0" and "lg_size s = of_nat LOGSIZE" and "1 \<le> lg_outstanding s"
    and "inj_on (\<lambda>b. b_blockno (bufs s b)) {..<30}" and "k \<le> 29"
  shows "\<exists>s'. forall_do [0..<k] log_write s = Ret () s' \<and> running p (mach s') \<and> lh_n s' = int k
    \<and> (\<forall>b. b_blockno (bufs s' b) = b_blockno (bufs s b)) \<and> logged s' = map (\<lambda>b. b_blockno (bufs s b)) [0..<k]
    \<and> lg_size s' = lg_size s \<and> lg_outstanding s' = lg_outstanding s"
  using assms(6)
proof (induction k)
  case 0
  show ?case using assms by (simp add: km_simps logged_def)
next
  case (Suc k)
  then obtain s1 where s1: "forall_do [0..<k] log_write s = Ret () s1" "running p (mach s1)" "lh_n s1 = int k"
    "\<forall>b. b_blockno (bufs s1 b) = b_blockno (bufs s b)" "logged s1 = map (\<lambda>b. b_blockno (bufs s b)) [0..<k]"
    "lg_size s1 = lg_size s" "lg_outstanding s1 = lg_outstanding s" by auto
  have k: "k < LOGSIZE" "int k < sint (lg_size s1 - 1)"
    using Suc.prems sint_size by (simp_all add: s1 assms(3) LOGSIZE_val)
  have new: "b_blockno (bufs s1 k) \<notin> set (logged s1)"
  proof
    assume "b_blockno (bufs s1 k) \<in> set (logged s1)"
    then obtain j where "j < k" "b_blockno (bufs s k) = b_blockno (bufs s j)" by (auto simp: s1)
    then show False using inj_onD [OF assms(5), of k j] Suc.prems by simp
  qed
  let ?s2 = "s1\<lparr>mach := quiet (mach s1), lh_n := int (Suc k), lh_block := (lh_block s1)(k := b_blockno (bufs s1 k)),
            bufs := (bufs s1)(k := (bufs s1 k)\<lparr>b_refcnt := b_refcnt (bufs s1 k) + 1\<rparr>)\<rparr>"
  have "log_write k s1 = Ret () ?s2"
    using log_write_eq [OF s1(2,3) k _ refl, of k] new assms(4) s1(7) by simp
  moreover have "logged ?s2 = logged s1 @ [b_blockno (bufs s1 k)]" using s1(3) by (simp add: logged_def nat_add_distrib)
  ultimately show ?case using s1 by (simp add: forall_do_append seq_def ret_def)
qed

text \<open>
  C20: the space that \<^verbatim>\<open>begin_op\<close> grants is one block more than the log holds. On a file system whose log is
  \<^verbatim>\<open>LOGSIZE\<close> blocks long, as \<^verbatim>\<open>mkfs\<close> makes it, three operations are admitted to the empty log,
  and when they have logged 29 distinct blocks, at most \<^verbatim>\<open>MAXOPBLOCKS\<close> each, the next
  \<^verbatim>\<open>log_write\<close> panics, although \<^verbatim>\<open>begin_op\<close> reserved room for 30.
\<close>

theorem log_overcommitted:
  assumes "running p (mach s)" and "\<not> lg_committing s" and "lh_n s = 0" and "lg_outstanding s = 0"
    and "lg_size s = of_nat LOGSIZE" and "inj_on (\<lambda>b. b_blockno (bufs s b)) {..<30}"
  shows "\<exists>s3 s4 s5. seq begin_op (seq begin_op begin_op) s = Ret () s3 \<and> lg_outstanding s3 = 3
     \<and> lh_n s3 + lg_outstanding s3 * int MAXOPBLOCKS \<le> int LOGSIZE
     \<and> forall_do [0..<29] log_write s3 = Ret () s4 \<and> lh_n s4 = 29
     \<and> log_write 29 s4 = Stop (Panic ''too big a transaction'') s5"
proof -
  let ?m = "quiet (mach s)"
  let ?s3 = "s\<lparr>mach := ?m, lg_outstanding := 3\<rparr>"
  have "seq begin_op (seq begin_op begin_op) s = Ret () ?s3"
    using assms(1-4) begin_op_enters [of p s] begin_op_enters [of p "s\<lparr>mach := ?m, lg_outstanding := 1\<rparr>"]
      begin_op_enters [of p "s\<lparr>mach := ?m, lg_outstanding := 2\<rparr>"]
    by (simp add: seq_def MAXOPBLOCKS_def LOGSIZE_def)
  moreover obtain s4 where s4: "forall_do [0..<29] log_write ?s3 = Ret () s4" "running p (mach s4)" "lh_n s4 = 29" "lg_size s4 = lg_size s"
    using log_writes [of p ?s3 29] assms by auto
  moreover obtain s5 where "log_write 29 s4 = Stop (Panic ''too big a transaction'') s5"
    using log_write_full [OF s4(2), of 29] s4(3,4) assms(5) sint_size by auto
  ultimately show ?thesis using assms(3)
    by (intro exI [of _ ?s3] exI [of _ s4] exI [of _ s5]) (simp add: MAXOPBLOCKS_def LOGSIZE_def)
qed

theorem log_overcommitted_witness:
  "\<exists>s3 s4 s5. seq begin_op (seq begin_op begin_op) (demo\<lparr>bufs := (\<lambda>b. demo_buf\<lparr>b_blockno := of_nat b\<rparr>)\<rparr>) = Ret () s3
     \<and> forall_do [0..<29] log_write s3 = Ret () s4 \<and> log_write 29 s4 = Stop (Panic ''too big a transaction'') s5"
proof -
  let ?s = "demo\<lparr>bufs := (\<lambda>b. demo_buf\<lparr>b_blockno := of_nat b\<rparr>)\<rparr>"
  have l: "lh_n ?s = 0" "lg_size ?s = of_nat LOGSIZE" "lg_outstanding ?s = 0" "\<not> lg_committing ?s"
    by (simp_all add: demo_def LOGSIZE_val)
  have r: "running 0 (mach ?s)" using demo_running by simp
  have "inj_on (\<lambda>b. b_blockno (bufs ?s b)) {..<30}"
    by (intro inj_onI) (auto simp: of_nat_block(2) of_nat_block(1))
  from log_overcommitted [OF r l(4,1,3,2) this] show ?thesis by blast
qed

end
