(* ===== verification/Fs_ops.thy ===== *)
theory Fs_ops
  imports Log_ops Demo_disk
begin

text \<open>
  The block allocator of fs.c inside a transaction. Inside \<^verbatim>\<open>begin_op\<close> and \<^verbatim>\<open>end_op\<close> the blocks of the
  header of the log are pinned in the cache and no buffer is locked; a routine that reads a block,
  changes it, logs it and releases it moves from one such state to another, with the block's value
  changed, the block in the log and the disk untouched. On this, \<open>balloc\<close> and \<open>bfree\<close> are shown to
  set and clear bits of the bitmap.
\<close>

section \<open>Inside a transaction\<close>

definition tx :: "(vqueue \<Rightarrow> vqueue) \<Rightarrow> u32 \<Rightarrow> nat \<Rightarrow> u32 list \<Rightarrow> 'z logs_scheme \<Rightarrow> ablocks \<Rightarrow> bool" where
  "tx V dv p ks s A \<longleftrightarrow> brel V dv p s A \<and> at_rest (unat ` set ks) A \<and> lh_n s = int (length ks) \<and> logged s = ks
     \<and> 1 \<le> lg_outstanding s \<and> lg_size s = of_nat LOGSIZE \<and> length ks \<le> 29"

text \<open>The log after a write of block \<open>n\<close>, and the blocks after it got the value \<open>v\<close>.\<close>

definition with_block :: "nat \<Rightarrow> u32 list \<Rightarrow> u32 list" where
  "with_block n ks = (if of_nat n \<in> set ks then ks else ks @ [of_nat n])"

definition put_block :: "u32 list \<Rightarrow> nat \<Rightarrow> u8 list \<Rightarrow> ablocks \<Rightarrow> ablocks" where
  "put_block ks n v A = A\<lparr>a_refs := (\<lambda>m. if m \<in> insert n (unat ` set ks) then 1 else 0), a_val := (a_val A)(n := v)\<rparr>"

definition fsame :: "'z fss_scheme \<Rightarrow> 'z fss_scheme \<Rightarrow> bool" where
  "fsame s s' \<longleftrightarrow> fs_sb s' = fs_sb s \<and> itable s' = itable s"

lemma fsame_trans: "fsame s t \<Longrightarrow> fsame t u \<Longrightarrow> fsame s u"
  by (simp add: fsame_def)

lemma bframe_fs:
  fixes s s' :: "'z fss_scheme"
  assumes "bframe s s'"
  shows "fsame s s'"
proof -
  obtain m pt k q f ui i w bf where "s' = s\<lparr>mach := m, proctab := pt, slk := k, vq := q, vfree := f,
      vused_idx := ui, vinfo := i, vwrites := w, bufs := bf\<rparr>" using assms unfolding bframe_def by blast
  then show ?thesis by (simp add: fsame_def)
qed

lemma txD:
  assumes "tx V dv p ks s A"
  shows "brel V dv p s A" "at_rest (unat ` set ks) A" "lh_n s = int (length ks)" "logged s = ks"
    "1 \<le> lg_outstanding s" "lg_size s = of_nat LOGSIZE" "length ks \<le> 29" "card (unat ` set ks) < NBUF"
proof -
  show "brel V dv p s A" "at_rest (unat ` set ks) A" "lh_n s = int (length ks)" "logged s = ks"
    "1 \<le> lg_outstanding s" "lg_size s = of_nat LOGSIZE" and l: "length ks \<le> 29"
    using assms by (simp_all add: tx_def)
  have "card (unat ` set ks) \<le> length ks" by (metis card_image_le card_length finite_set le_trans)
  with l show "card (unat ` set ks) < NBUF" by (simp add: NBUF_val)
qed

lemma bframe_logged: "bframe s s' \<Longrightarrow> logged s' = logged (s :: 'z logs_scheme)"
  by (simp add: logged_def bframe_log)

lemma tx_bread:
  fixes s :: "'z logs_scheme"
  assumes t: "tx V dv p ks s A" and n: "n < 2 ^ 31" and D: "D (a_disk A)"
    and post: "\<And>b s'. bframe s s' \<Longrightarrow> caches dv s' b n \<Longrightarrow> brel V dv p s' (a_get n A) \<Longrightarrow>
      content (q_data (vq s') b) = a_val A n \<Longrightarrow> Q b s'"
  shows "wpc (bread dv (of_nat n)) Q (crashed V D) s"
proof (rule bread_wpc [OF txD(1) [OF t] n])
  note r = at_restD [OF txD(2) [OF t]]
  show "\<not> a_lock A n" "a_refs A n + 1 < 2 ^ 32" "0 < a_refs A n \<or> card {n. 0 < a_refs A n} < NBUF"
    using r(2,3) txD(8) [OF t] by (simp_all add: r(4))
  show "D (a_disk A)" by (rule D)
  fix b s' assume s': "bframe s s'" "caches dv s' b n" "brel V dv p s' (a_get n A)"
  have "content (q_data (vq s') b) = a_val A n"
    using brel_cached(4,5) [OF s'(3,2)] by (simp add: a_get_def)
  then show "Q b s'" by (rule post [OF s'])
qed

lemma tx_brel_lh:
  "brel V dv p (s\<lparr>lh_n := k, lh_block := f\<rparr>) A = brel V dv p (s :: 'z logs_scheme) A"
  "caches dv (s\<lparr>lh_n := k, lh_block := f\<rparr>) = caches dv s"
  by (simp_all add: brel_def caches_def [abs_def] disk_idle_def dk_def [abs_def])

lemma brel_quiet:
  assumes rel: "brel V dv p s A" and b: "caches dv s b n" and lk: "a_lock A n"
  shows "brel V dv p (s\<lparr>mach := quiet (mach s)\<rparr>) A" "caches dv (s\<lparr>mach := quiet (mach s)\<rparr>) = caches dv s"
proof -
  note B = brel_cached [OF rel b]
  from brelD(5) [OF rel] obtain L where L: "blist (bufs s) L" ..
  have A: "A = A\<lparr>a_refs := (a_refs A)(n := unat (b_refcnt (bufs s b))), a_lock := (a_lock A)(n := True)\<rparr>"
    by (rule ablocks_eqI) (use B(2) lk in \<open>auto simp: fun_eq_iff\<close>)
  have "bframe s (s\<lparr>mach := quiet (mach s)\<rparr>) \<and> brel V dv p (s\<lparr>mach := quiet (mach s)\<rparr>) A \<and>
      caches dv (s\<lparr>mach := quiet (mach s)\<rparr>) = caches dv s"
    by (rule brel_count [OF rel b _ L A, where k = "slk s" and t = "proctab s"])
      (use B lk in \<open>auto simp: relinked_def\<close>)
  then show "brel V dv p (s\<lparr>mach := quiet (mach s)\<rparr>) A" "caches dv (s\<lparr>mach := quiet (mach s)\<rparr>) = caches dv s"
    by blast+
qed

lemma log_write_rel:
  fixes s :: "'z logs_scheme"
  assumes rel: "brel V dv p s A" and b: "caches dv s b n" and lk: "a_lock A n" and rf: "a_refs A n + 1 < 2 ^ 32"
    and lg: "lh_n s = int (length ks)" "logged s = ks" "1 \<le> lg_outstanding s" "lg_size s = of_nat LOGSIZE" "length ks < 29"
    and post: "\<And>s'. brel V dv p s' (if of_nat n \<in> set ks then A else a_pin n A) \<Longrightarrow> caches dv s' = caches dv s \<Longrightarrow>
      lh_n s' = int (length (with_block n ks)) \<Longrightarrow> logged s' = with_block n ks \<Longrightarrow>
      lg_outstanding s' = lg_outstanding s \<Longrightarrow> lg_size s' = lg_size s \<Longrightarrow> logs.more s' = logs.more s \<Longrightarrow> Q () s'"
  shows "wpc (log_write b) Q C s"
proof -
  have bn: "of_nat n = b_blockno (bufs s b)"
    using b of_nat_block(2) [OF brel_cached(1) [OF rel b], of "b_blockno (bufs s b)"] by (simp add: caches_def)
  have e: "log_write b s = Ret () (if of_nat n \<in> set (logged s) then s\<lparr>mach := quiet (mach s)\<rparr>
     else s\<lparr>mach := quiet (mach s), lh_n := int (Suc (length ks)), lh_block := (lh_block s)(length ks := of_nat n),
            bufs := (bufs s)(b := (bufs s b)\<lparr>b_refcnt := b_refcnt (bufs s b) + 1\<rparr>)\<rparr>)"
    using brelD(1) [OF rel] lg bn sint_size by (intro log_write_eq) (simp_all add: LOGSIZE_val)
  show ?thesis
  proof (cases "of_nat n \<in> set ks")
    case True
    have "Q () (s\<lparr>mach := quiet (mach s)\<rparr>)"
      by (rule post) (use brel_quiet [OF rel b lk] lg True in \<open>simp_all add: with_block_def logged_def\<close>)
    then show ?thesis using e lg(2) True by (simp add: wpc_def)
  next
    case False
    let ?s1 = "s\<lparr>bufs := (bufs s)(b := (bufs s b)\<lparr>b_refcnt := b_refcnt (bufs s b) + 1\<rparr>), mach := quiet (mach s)\<rparr>"
    let ?s2 = "?s1\<lparr>lh_n := int (Suc (length ks)), lh_block := (lh_block s)(length ks := of_nat n)\<rparr>"
    have "wpc (bpin b) (\<lambda>_ s'. brel V dv p s' (a_pin n A) \<and> caches dv s' = caches dv s) C s"
      by (rule bpin_wpc [OF rel b rf]) simp
    then have 1: "brel V dv p ?s1 (a_pin n A)" "caches dv ?s1 = caches dv s"
      using runningD [OF brelD(1) [OF rel]] by (simp_all add: wpc_def bpin_def km_simps)
    have "map ((lh_block s)(length ks := of_nat n)) [0..<length ks] = map (lh_block s) [0..<length ks]"
      by simp
    moreover have "nat (1 + int (length ks)) = Suc (length ks)" by simp
    ultimately have l: "logged ?s2 = ks @ [of_nat n]" using lg(1,2) by (simp add: logged_def)
    have "Q () ?s2"
      by (rule post) (use 1 l False in \<open>simp_all add: with_block_def tx_brel_lh\<close>)
    moreover have "log_write b s = Ret () (s\<lparr>mach := quiet (mach s), lh_n := int (Suc (length ks)),
        lh_block := (lh_block s)(length ks := of_nat n),
        bufs := (bufs s)(b := (bufs s b)\<lparr>b_refcnt := b_refcnt (bufs s b) + 1\<rparr>)\<rparr>)"
      using e lg(2) False by simp
    then have "log_write b s = Ret () ?s2" by (cases s) simp
    ultimately show ?thesis by (simp add: wpc_def)
  qed
qed

text \<open>Change, log and release a block that was just read.\<close>

lemma tx_finish:
  fixes s :: "'z fss_scheme"
  assumes t: "tx V dv p ks s0 A" and len: "length ks < 29" and n: "n < 2 ^ 31"
    and fr: "bframe s0 s" and b: "caches dv s b n" and rel: "brel V dv p s (a_get n A)"
    and post: "\<And>s'. tx V dv p (with_block n ks) s' (put_block ks n (content (g (q_data (vq s) b))) A) \<Longrightarrow>
      fsame s s' \<Longrightarrow> Q () s'"
  shows "wpc (seq (set_bdata b g) (seq (log_write b) (brelse b))) Q C s"
proof -
  let ?v = "content (g (q_data (vq s) b))"
  note T = txD [OF t] and r = at_restD [OF txD(2) [OF t]]
  let ?A2 = "a_put n ?v (a_get n A)" let ?A3 = "if of_nat n \<in> set ks then ?A2 else a_pin n ?A2"
  have nk: "n \<in> unat ` set ks \<longleftrightarrow> of_nat n \<in> set ks"
    using of_nat_block(2) [OF n] by (auto simp: image_iff) metis+
  have A4: "a_rel n ?A3 = put_block ks n ?v A"
    using r(2,3) nk by (intro ablocks_eqI) (auto simp: a_defs put_block_def fun_eq_iff)
  have rest: "at_rest (unat ` set (with_block n ks)) (put_block ks n ?v A)"
    using r(3) of_nat_block(1) [OF n] nk
    by (auto simp: at_rest_def put_block_def with_block_def fun_eq_iff)
  show ?thesis
    unfolding wpc_seq
  proof (rule set_bdata_wpc [OF rel b])
    show "a_lock (a_get n A) n" by (simp add: a_get_def)
    fix s1 assume 1: "bframe s s1" "brel V dv p s1 ?A2" "caches dv s1 = caches dv s"
    have lg: "lh_n s1 = int (length ks)" "logged s1 = ks" "1 \<le> lg_outstanding s1" "lg_size s1 = of_nat LOGSIZE"
      using T(3-6) bframe_log [OF fr] bframe_log [OF 1(1)] bframe_logged [OF fr] bframe_logged [OF 1(1)] by simp_all
    show "wpc (log_write b) (\<lambda>a. wpc (brelse b) Q C) C s1"
    proof (rule log_write_rel [OF 1(2) _ _ _ lg len])
      show "caches dv s1 b n" using b 1(3) by simp
      show "a_lock ?A2 n" by (simp add: a_defs)
      show "a_refs ?A2 n + 1 < 2 ^ 32" using r(2) by (simp add: a_defs)
      fix s2 assume 2: "brel V dv p s2 ?A3" "caches dv s2 = caches dv s1"
        "lh_n s2 = int (length (with_block n ks))" "logged s2 = with_block n ks"
        "lg_outstanding s2 = lg_outstanding s1" "lg_size s2 = lg_size s1" "logs.more s2 = logs.more s1"
      show "wpc (brelse b) Q C s2"
      proof (rule brelse_wpc [OF 2(1)])
        show "caches dv s2 b n" using b 1(3) 2(2) by simp
        show "a_lock ?A3 n" by (simp add: a_defs)
        show "a_refs ?A3 n = 1 \<Longrightarrow> a_val ?A3 n = a_disk ?A3 n" using r(2) nk by (auto simp: a_defs split: if_splits)
        fix s3 assume 3: "bframe s2 s3" "brel V dv p s3 (a_rel n ?A3)"
        have "tx V dv p (with_block n ks) s3 (put_block ks n ?v A)"
          using 3(2) rest 2(3-6) lg(3,4) bframe_log [OF 3(1)] bframe_logged [OF 3(1)] len
          unfolding tx_def A4 by (simp add: with_block_def)
        moreover have "fsame s1 s2" using 2(7) by (cases s1; cases s2) (simp add: fsame_def)
        ultimately show "Q () s3" using post bframe_fs [OF 1(1)] bframe_fs [OF 3(1)] fsame_trans by blast
      qed
    qed
  qed
qed

section \<open>The bitmap\<close>

definition bit_free :: "u8 list \<Rightarrow> nat \<Rightarrow> bool" where
  "bit_free v bi \<longleftrightarrow> v ! (bi div 8) AND bitmask bi = 0"

lemma bit_free_iff: "bit_free v bi \<longleftrightarrow> \<not> bit (v ! (bi div 8)) (bi mod 8)"
  by (simp add: bit_free_def bitmask_def bit_iff_and_push_bit_not_eq_0)

lemma content_nth: "i < BSIZE \<Longrightarrow> content d ! i = d i"
  by (simp add: content_def rd_def)

lemma content_upd: "i < BSIZE \<Longrightarrow> content (d(i := x)) = (content d)[i := x]"
  by (rule nth_equalityI) (auto simp: content_nth nth_list_update)

lemma content_memset: "content (memset 0 0 BSIZE d) = replicate BSIZE 0"
  by (rule nth_equalityI) (auto simp: content_nth memset_apply)

lemma byte_of_bit: "bi < BPB \<Longrightarrow> bi div 8 < BSIZE"
  by (simp add: BPB_def)

lemma free_bit_content: "n \<le> BPB \<Longrightarrow> free_bit d n = find (bit_free (content d)) [0..<n]"
  unfolding free_bit_def bit_free_def
  by (rule find_cong) (auto simp: content_nth byte_of_bit)

lemma bit_bitmask: "bit (bitmask bi) k \<longleftrightarrow> k = bi mod 8"
  by (auto simp: bitmask_def push_bit_eq_mult bit_exp_iff)

lemma mark_bit:
  assumes "length v = BSIZE" "bi < BPB" "bj < BPB"
  shows "bit_free (v[bi div 8 := v ! (bi div 8) OR bitmask bi]) bj \<longleftrightarrow> bit_free v bj \<and> bj \<noteq> bi"
proof (cases "bj div 8 = bi div 8")
  case True
  then have "bj = bi \<longleftrightarrow> bj mod 8 = bi mod 8" by (metis div_mult_mod_eq)
  with True assms show ?thesis
    by (auto simp: bit_free_iff byte_of_bit bit_or_iff bit_bitmask)
next
  case False
  then show ?thesis by (auto simp: bit_free_iff)
qed

lemma unmark_bit:
  assumes "length v = BSIZE" "bi < BPB" "bj < BPB"
  shows "bit_free (v[bi div 8 := v ! (bi div 8) AND NOT (bitmask bi)]) bj \<longleftrightarrow> bit_free v bj \<or> bj = bi"
proof (cases "bj div 8 = bi div 8")
  case True
  then have "bj = bi \<longleftrightarrow> bj mod 8 = bi mod 8" by (metis div_mult_mod_eq)
  with True assms show ?thesis
    by (auto simp: bit_free_iff byte_of_bit bit_and_iff bit_not_iff bit_bitmask)
next
  case False
  then show ?thesis by (auto simp: bit_free_iff)
qed

lemma find_first: "bi < n \<Longrightarrow> P bi \<Longrightarrow> (\<forall>j<bi. \<not> P j) \<Longrightarrow> find P [0..<n] = Some bi"
  by (auto simp: find_Some_iff intro!: exI [of _ bi])

lemma length_val:
  assumes "brel V dv p s A"
  shows "length (a_val A n) = BSIZE"
proof -
  have "length (a_disk A n) = BSIZE" using brelD(9) [OF assms] by (simp add: dk_def)
  then show ?thesis
    using brelD(8) [OF assms, of n] brel_cached(4) [OF assms, of _ n] by (cases "\<exists>b. caches dv s b n") auto
qed

section \<open>The operations\<close>

lemma bzero_tx:
  fixes s :: "'z fss_scheme"
  assumes t: "tx V dv p ks s A" and len: "length ks < 29" and n: "n < 2 ^ 31" and D: "D (a_disk A)"
    and post: "\<And>s'. tx V dv p (with_block n ks) s' (put_block ks n (replicate BSIZE 0) A) \<Longrightarrow> fsame s s' \<Longrightarrow> Q () s'"
  shows "wpc (bzero dv (of_nat n)) Q (crashed V D) s"
  unfolding bzero_def wpc_bind
proof (rule tx_bread [where D = D, OF t n D])
  fix b s' assume s': "bframe s s'" "caches dv s' b n" "brel V dv p s' (a_get n A)"
  show "wpc (seq (set_bdata b (memset 0 0 BSIZE)) (seq (log_write b) (brelse b))) Q (crashed V D) s'"
    using post bframe_fs [OF s'(1)] fsame_trans
    by (intro tx_finish [OF t len n s']) (auto simp: content_memset)
qed

text \<open>The block of the bitmap, for a file system whose bitmap is one block.\<close>

definition one_bitmap :: "superblock \<Rightarrow> nat \<Rightarrow> bool" where
  "one_bitmap sb nb \<longleftrightarrow> unat (sb_bmapstart sb) = nb \<and> nb < 2 ^ 31 \<and> 0 < unat (sb_size sb) \<and> unat (sb_size sb) \<le> BPB"

lemma BPB_val: "BPB = 8192"
  by (simp add: BPB_def BSIZE_val)

lemma one_bitmapD:
  assumes "one_bitmap sb nb"
  shows "nb < 2 ^ 31" "[0..<(unat (sb_size sb) + BPB - 1) div BPB] = [0]" "unat b < BPB \<Longrightarrow> BBLOCK b sb = of_nat nb"
proof -
  show n: "nb < 2 ^ 31" using assms by (simp add: one_bitmap_def)
  have "(unat (sb_size sb) + BPB - 1) div BPB = 1"
    using assms by (intro div_nat_eqI) (auto simp: one_bitmap_def BPB_val)
  then show "[0..<(unat (sb_size sb) + BPB - 1) div BPB] = [0]" by simp
  assume "unat b < BPB"
  then have "unat (b div of_nat BPB) = 0" by (simp add: BPB_val unat_div)
  then have "b div of_nat BPB = 0" by (simp add: unat_eq_0)
  then show "BBLOCK b sb = of_nat nb" using assms of_nat_block(2) [OF n, of "sb_bmapstart sb"] by (simp add: BBLOCK_def one_bitmap_def)
qed

text \<open>The turn of the loop of \<^verbatim>\<open>balloc\<close> that finds the free bit.\<close>

lemma balloc_turn_tx:
  fixes s :: "'z fss_scheme"
  assumes t: "tx V dv p ks s A" and len: "length ks \<le> 27" and sb: "one_bitmap (fs_sb s) nb"
    and bi: "bi < unat (sb_size (fs_sb s))" "bit_free (a_val A nb) bi" "\<forall>j<bi. \<not> bit_free (a_val A nb) j"
    and D: "D (a_disk A)"
    and post: "\<And>s' A'. A' = put_block (with_block nb ks) bi (replicate BSIZE 0)
        (put_block ks nb ((a_val A nb)[bi div 8 := a_val A nb ! (bi div 8) OR bitmask bi]) A) \<Longrightarrow>
      tx V dv p (with_block bi (with_block nb ks)) s' A' \<Longrightarrow> Q (of_nat bi) s'"
    and R: "\<And>s'. Q (of_nat bi) s' \<Longrightarrow> R (Some (of_nat bi)) s'"
  shows "wpc (bread dv (of_nat nb)) (\<lambda>bp. wpc (bind (bdata bp) (\<lambda>d.
       case free_bit d (min BPB (unat (sb_size (fs_sb s)))) of
         Some bi \<Rightarrow>
           seq (set_bdata bp (\<lambda>d. d(bi div 8 := d (bi div 8) OR bitmask bi)))
           (seq (log_write bp)
           (seq (brelse bp)
           (seq (bzero dv (of_nat bi))
           (ret (Some (of_nat bi))))))
       | None \<Rightarrow> seq (brelse bp) (ret None))) R (crashed V D)) (crashed V D) s"
proof -
  note O = one_bitmapD [OF sb]
  let ?sz = "unat (sb_size (fs_sb s))"
  let ?v = "(a_val A nb)[bi div 8 := a_val A nb ! (bi div 8) OR bitmask bi]"
  have b8: "bi < BPB" using bi(1) sb by (simp add: one_bitmap_def)
  have len2: "length (with_block nb ks) < 29" using len by (simp add: with_block_def)
  show ?thesis
  proof (rule tx_bread [where D = D, OF t O(1) D])
    fix b s1 assume 1: "bframe s s1" "caches dv s1 b nb" "brel V dv p s1 (a_get nb A)"
      "content (q_data (vq s1) b) = a_val A nb"
    have "free_bit (q_data (vq s1) b) (min BPB ?sz) = Some bi"
      using b8 bi 1(4) by (simp add: free_bit_content find_first)
    moreover have "wpc (seq (set_bdata b (\<lambda>d. d(bi div 8 := d (bi div 8) OR bitmask bi))) (seq (log_write b) (brelse b)))
        (\<lambda>_. wpc (bzero dv (of_nat bi)) (\<lambda>_. R (Some (of_nat bi))) (crashed V D)) (crashed V D) s1"
    proof (rule tx_finish [OF t _ O(1) 1(1-3)])
      show "length ks < 29" using len by simp
      fix s2 :: "'z fss_scheme"
      assume 2: "tx V dv p (with_block nb ks) s2
         (put_block ks nb (content ((q_data (vq s1) b)(bi div 8 := q_data (vq s1) b (bi div 8) OR bitmask bi))) A)"
      have v: "content ((q_data (vq s1) b)(bi div 8 := q_data (vq s1) b (bi div 8) OR bitmask bi)) = ?v"
        using byte_of_bit [OF b8] content_nth [OF byte_of_bit [OF b8], of "q_data (vq s1) b"] 1(4)
        by (simp add: content_upd)
      show "wpc (bzero dv (of_nat bi)) (\<lambda>_. R (Some (of_nat bi))) (crashed V D) s2"
      proof (rule bzero_tx [where D = D, OF 2 len2])
        show "bi < 2 ^ 31" using b8 by (simp add: BPB_val)
        show "D (a_disk (put_block ks nb (content ((q_data (vq s1) b)(bi div 8 := q_data (vq s1) b (bi div 8) OR bitmask bi))) A))"
          using D by (simp add: put_block_def)
      qed (use R post v in auto)
    qed
    ultimately show "wpc (bind (bdata b) (\<lambda>d.
       case free_bit d (min BPB ?sz) of
         Some bi \<Rightarrow>
           seq (set_bdata b (\<lambda>d. d(bi div 8 := d (bi div 8) OR bitmask bi)))
           (seq (log_write b)
           (seq (brelse b)
           (seq (bzero dv (of_nat bi))
           (ret (Some (of_nat bi))))))
       | None \<Rightarrow> seq (brelse b) (ret None))) R (crashed V D) s1"
      by (simp add: wpc_simps bdata_def)
  qed
qed

lemma balloc_tx:
  fixes s :: "'z fss_scheme"
  assumes t: "tx V dv p ks s A" and len: "length ks \<le> 27" and sb: "one_bitmap (fs_sb s) nb"
    and bi: "bi < unat (sb_size (fs_sb s))" "bit_free (a_val A nb) bi" "\<forall>j<bi. \<not> bit_free (a_val A nb) j"
    and D: "D (a_disk A)"
    and post: "\<And>s' A'. A' = put_block (with_block nb ks) bi (replicate BSIZE 0)
        (put_block ks nb ((a_val A nb)[bi div 8 := a_val A nb ! (bi div 8) OR bitmask bi]) A) \<Longrightarrow>
      tx V dv p (with_block bi (with_block nb ks)) s' A' \<Longrightarrow> Q (of_nat bi) s'"
  shows "wpc (balloc dv) Q (crashed V D) s"
proof -
  note O = one_bitmapD [OF sb]
  let ?sz = "unat (sb_size (fs_sb s))"
  have bb: "BBLOCK (of_nat 0) (fs_sb s) = of_nat nb" using O(3) [of 0] by (simp add: BPB_val)
  have "wpc (balloc dv) Q (crashed V D) s = wpc (for_until [0] (\<lambda>k.
       bind (bread dv (BBLOCK (of_nat (k * BPB)) (fs_sb s))) (\<lambda>bp.
       bind (bdata bp) (\<lambda>d.
       case free_bit d (min BPB (?sz - k * BPB)) of
         Some bi \<Rightarrow>
           seq (set_bdata bp (\<lambda>d. d(bi div 8 := d (bi div 8) OR bitmask bi)))
           (seq (log_write bp)
           (seq (brelse bp)
           (seq (bzero dv (of_nat (k * BPB + bi)))
           (ret (Some (of_nat (k * BPB + bi)))))))
       | None \<Rightarrow> seq (brelse bp) (ret None)))))
     (\<lambda>r. wpc (case r of Some b \<Rightarrow> ret b
        | None \<Rightarrow> seq (printf (cstr ''balloc: out of blocks\<newline>'') []) (ret 0)) Q (crashed V D)) (crashed V D) s"
    by (simp only: balloc_def wpc_bind wpc_gets Let_def O(2))
  also have "\<dots>"
    unfolding for_until.simps wpc_bind mult_0 add_0 diff_zero bb
    by (rule balloc_turn_tx [where D = D and Q = Q, OF t len sb bi D post, unfolded wpc_bind]) (auto simp: wpc_ret)
  finally show ?thesis .
qed

lemma bfree_tx:
  fixes s :: "'z fss_scheme"
  assumes t: "tx V dv p ks s A" and len: "length ks < 29" and sb: "one_bitmap (fs_sb s) nb"
    and bi: "unat b < BPB" "\<not> bit_free (a_val A nb) (unat b)" and D: "D (a_disk A)"
    and post: "\<And>s' A'. A' = put_block ks nb ((a_val A nb)[unat b div 8 := a_val A nb ! (unat b div 8) AND NOT (bitmask (unat b))]) A \<Longrightarrow>
      tx V dv p (with_block nb ks) s' A' \<Longrightarrow> Q () s'"
  shows "wpc (bfree dv b) Q (crashed V D) s"
proof -
  note O = one_bitmapD [OF sb]
  let ?bi = "unat b" let ?f = "\<lambda>d :: bytes. d(?bi div 8 := d (?bi div 8) AND NOT (bitmask ?bi))"
  note b8 = byte_of_bit [OF bi(1)]
  have "wpc (bread dv (of_nat nb)) (\<lambda>bp. wpc (bind (bdata bp) (\<lambda>d.
     if d (?bi div 8) AND bitmask ?bi = 0 then panic ''freeing free block''
     else seq (set_bdata bp ?f) (seq (log_write bp) (brelse bp)))) Q (crashed V D)) (crashed V D) s"
  proof (rule tx_bread [where D = D, OF t O(1) D])
    fix bp s1 assume 1: "bframe s s1" "caches dv s1 bp nb" "brel V dv p s1 (a_get nb A)"
      "content (q_data (vq s1) bp) = a_val A nb"
    have d: "q_data (vq s1) bp (?bi div 8) = a_val A nb ! (?bi div 8)"
      using content_nth [OF b8, of "q_data (vq s1) bp"] 1(4) by simp
    then have nz: "q_data (vq s1) bp (?bi div 8) AND bitmask ?bi \<noteq> 0" using bi(2) by (simp add: bit_free_def)
    have v: "content (?f (q_data (vq s1) bp)) = (a_val A nb)[?bi div 8 := a_val A nb ! (?bi div 8) AND NOT (bitmask ?bi)]"
      using b8 1(4) d by (simp add: content_upd)
    have "wpc (seq (set_bdata bp ?f) (seq (log_write bp) (brelse bp))) Q (crashed V D) s1"
      by (rule tx_finish [OF t len O(1) 1(1-3)]) (use v post in auto)
    with nz show "wpc (bind (bdata bp) (\<lambda>d. if d (?bi div 8) AND bitmask ?bi = 0 then panic ''freeing free block''
       else seq (set_bdata bp ?f) (seq (log_write bp) (brelse bp)))) Q (crashed V D) s1"
      by (simp add: wpc_bind bdata_def wpc_gets)
  qed
  then show ?thesis
    using O(3) [OF bi(1)] bi(1) by (simp add: bfree_def wpc_bind wpc_gets Let_def)
qed

lemma length_put_block: "length (a_val (put_block ks n v A) m) = (if m = n then length v else length (a_val A m))"
  by (simp add: put_block_def)

section \<open>A transaction on a small disk\<close>

text \<open>The first 48 blocks of the disk are in use.\<close>

definition demo_bitmap :: "nat \<Rightarrow> bytes" where
  "demo_bitmap n i = (if n = 45 \<and> i < 6 then 255 else 0)"

definition demo_tx :: traps where
  "demo_tx = (demo_log serve 0 demo_bitmap)\<lparr>lg_outstanding := 1\<rparr>"

lemma demo_tx: "tx serve 1 0 [] demo_tx (demo_blocks 0 demo_bitmap)"
proof -
  have "brel serve 1 0 demo_tx (demo_blocks 0 demo_bitmap)"
    using demo_brel [of 0 serve demo_bitmap] serve_live(1)
    by (simp add: demo_tx_def brel_def caches_def disk_idle_def dk_def [abs_def])
  moreover have "at_rest (unat ` set []) (demo_blocks 0 demo_bitmap)"
    using demo_at_rest [of 0 demo_bitmap] by simp
  moreover have "lh_n demo_tx = 0" "lg_size demo_tx = of_nat LOGSIZE" "lg_outstanding demo_tx = 1"
    by (simp_all add: demo_tx_def demo_log_def LOGSIZE_val) (simp_all add: demo_def)
  ultimately show ?thesis by (simp add: tx_def logged_def)
qed

lemma demo_sb: "one_bitmap (fs_sb demo_tx) 45" "unat (sb_size (fs_sb demo_tx)) = 1000"
  by (simp_all add: one_bitmap_def demo_tx_def demo_log_def BPB_val) (simp_all add: demo_def)

lemma demo_bits: "bi < BPB \<Longrightarrow> bit_free (a_val (demo_blocks 0 demo_bitmap) 45) bi \<longleftrightarrow> 48 \<le> bi"
proof -
  assume b: "bi < BPB"
  have "(255 :: u8) = - 1" by simp
  then have "bit (255 :: u8) (bi mod 8)" by (simp only: bit_minus_1_iff) simp
  then show ?thesis
    using b byte_of_bit [OF b] by (auto simp: demo_blocks_def bit_free_iff content_nth demo_bitmap_def)
qed

text \<open>
  C8: \<^verbatim>\<open>balloc\<close> allocates the lowest free block. Inside a transaction with room for two more
  blocks in the log, if block \<open>bi\<close> is the first one whose bit in the bitmap is clear, \<^verbatim>\<open>balloc\<close> returns \<open>bi\<close>;
  then the bit of \<open>bi\<close> and no other bit of the bitmap is set, the block \<open>bi\<close> is all zeros, no other block
  has changed its value, and both blocks are in the log while the disk is as it was. If the device
  has stopped it may wait forever instead; it does not panic.
\<close>

theorem balloc_allocates:
  fixes s :: "'z fss_scheme"
  assumes "tx V dv p ks s A" and "length ks \<le> 27" and "one_bitmap (fs_sb s) nb" and "bi \<noteq> nb"
    and "bi < unat (sb_size (fs_sb s))" and "bit_free (a_val A nb) bi" and "\<forall>j<bi. \<not> bit_free (a_val A nb) j"
  shows "case balloc dv s of
      Ret r s' \<Rightarrow> r = of_nat bi \<and> (\<exists>A'. tx V dv p (with_block bi (with_block nb ks)) s' A' \<and> a_disk A' = a_disk A
        \<and> (\<forall>j<BPB. bit_free (a_val A' nb) j \<longleftrightarrow> bit_free (a_val A nb) j \<and> j \<noteq> bi)
        \<and> a_val A' bi = replicate BSIZE 0 \<and> (\<forall>m. m \<notin> {bi, nb} \<longrightarrow> a_val A' m = a_val A m))
    | Stop e s' \<Rightarrow> e = Hang \<and> \<not> live_device V \<and> dk s' = dk s"
proof -
  note rel = txD(1) [OF assms(1)]
  have b8: "bi < BPB" using assms(3,5) by (simp add: one_bitmap_def)
  have "wpc (balloc dv) (\<lambda>r s'. r = of_nat bi \<and> (\<exists>A'. tx V dv p (with_block bi (with_block nb ks)) s' A' \<and> a_disk A' = a_disk A
        \<and> (\<forall>j<BPB. bit_free (a_val A' nb) j \<longleftrightarrow> bit_free (a_val A nb) j \<and> j \<noteq> bi)
        \<and> a_val A' bi = replicate BSIZE 0 \<and> (\<forall>m. m \<notin> {bi, nb} \<longrightarrow> a_val A' m = a_val A m)))
      (crashed V (\<lambda>d. d = dk s)) s"
  proof (rule balloc_tx [OF assms(1-3,5-7)])
    fix s' A' assume A': "A' = put_block (with_block nb ks) bi (replicate BSIZE 0)
        (put_block ks nb ((a_val A nb)[bi div 8 := a_val A nb ! (bi div 8) OR bitmask bi]) A)"
      and t: "tx V dv p (with_block bi (with_block nb ks)) s' A'"
    show "of_nat bi = of_nat bi \<and> (\<exists>A'. tx V dv p (with_block bi (with_block nb ks)) s' A' \<and> a_disk A' = a_disk A
        \<and> (\<forall>j<BPB. bit_free (a_val A' nb) j \<longleftrightarrow> bit_free (a_val A nb) j \<and> j \<noteq> bi)
        \<and> a_val A' bi = replicate BSIZE 0 \<and> (\<forall>m. m \<notin> {bi, nb} \<longrightarrow> a_val A' m = a_val A m))"
      by (intro conjI refl exI [of _ A'] t)
        (use assms(4) mark_bit [OF length_val [OF rel] b8] in \<open>auto simp: A' put_block_def\<close>)
  qed (use brelD(9) [OF rel] in simp)
  then show ?thesis by (auto simp: wpc_def crashed_def split: outcome.splits)
qed

theorem balloc_allocates_witness: "\<exists>s'. balloc 1 demo_tx = Ret 48 s' \<and> logged s' = [45, 48]"
proof -
  have "case balloc 1 demo_tx of
      Ret r s' \<Rightarrow> r = of_nat 48 \<and> (\<exists>A'. tx serve 1 0 (with_block 48 (with_block 45 [])) s' A' \<and> a_disk A' = a_disk (demo_blocks 0 demo_bitmap)
        \<and> (\<forall>j<BPB. bit_free (a_val A' 45) j \<longleftrightarrow> bit_free (a_val (demo_blocks 0 demo_bitmap) 45) j \<and> j \<noteq> 48)
        \<and> a_val A' 48 = replicate BSIZE 0 \<and> (\<forall>m. m \<notin> {48, 45} \<longrightarrow> a_val A' m = a_val (demo_blocks 0 demo_bitmap) m))
    | Stop e s' \<Rightarrow> e = Hang \<and> \<not> live_device serve \<and> dk s' = dk demo_tx"
    by (rule balloc_allocates [OF demo_tx _ demo_sb(1)]) (simp_all add: demo_sb(2) demo_bits BPB_val)
  then show ?thesis using txD(4) by (fastforce simp: serve_live with_block_def split: outcome.splits)
qed

text \<open>
  C22: \<^verbatim>\<open>bfree\<close> undoes \<^verbatim>\<open>balloc\<close> in the bitmap. Inside a transaction with room for one more block in
  the log, \<^verbatim>\<open>bfree\<close> of a block that is in use clears its bit and no other, changes no other block, and
  puts the block of the bitmap into the log, the disk being as it was. It does not panic; if the
  device has stopped it may wait forever.
\<close>

theorem bfree_frees:
  fixes s :: "'z fss_scheme"
  assumes "tx V dv p ks s A" and "length ks < 29" and "one_bitmap (fs_sb s) nb"
    and "unat b < BPB" and "\<not> bit_free (a_val A nb) (unat b)"
  shows "case bfree dv b s of
      Ret _ s' \<Rightarrow> \<exists>A'. tx V dv p (with_block nb ks) s' A' \<and> a_disk A' = a_disk A
        \<and> (\<forall>j<BPB. bit_free (a_val A' nb) j \<longleftrightarrow> bit_free (a_val A nb) j \<or> j = unat b)
        \<and> (\<forall>m. m \<noteq> nb \<longrightarrow> a_val A' m = a_val A m)
    | Stop e s' \<Rightarrow> e = Hang \<and> \<not> live_device V \<and> dk s' = dk s"
proof -
  note rel = txD(1) [OF assms(1)]
  have "wpc (bfree dv b) (\<lambda>_ s'. \<exists>A'. tx V dv p (with_block nb ks) s' A' \<and> a_disk A' = a_disk A
        \<and> (\<forall>j<BPB. bit_free (a_val A' nb) j \<longleftrightarrow> bit_free (a_val A nb) j \<or> j = unat b)
        \<and> (\<forall>m. m \<noteq> nb \<longrightarrow> a_val A' m = a_val A m)) (crashed V (\<lambda>d. d = dk s)) s"
    by (rule bfree_tx [OF assms])
      (use unmark_bit [OF length_val [OF rel] assms(4)] brelD(9) [OF rel] in \<open>auto simp: put_block_def\<close>)
  then show ?thesis by (auto simp: wpc_def crashed_def split: outcome.splits)
qed

theorem bfree_frees_witness: "\<exists>s'. bfree 1 7 demo_tx = Ret () s' \<and> logged s' = [45]"
proof -
  have "case bfree 1 7 demo_tx of
      Ret _ s' \<Rightarrow> \<exists>A'. tx serve 1 0 (with_block 45 []) s' A' \<and> a_disk A' = a_disk (demo_blocks 0 demo_bitmap)
        \<and> (\<forall>j<BPB. bit_free (a_val A' 45) j \<longleftrightarrow> bit_free (a_val (demo_blocks 0 demo_bitmap) 45) j \<or> j = unat (7 :: u32))
        \<and> (\<forall>m. m \<noteq> 45 \<longrightarrow> a_val A' m = a_val (demo_blocks 0 demo_bitmap) m)
    | Stop e s' \<Rightarrow> e = Hang \<and> \<not> live_device serve \<and> dk s' = dk demo_tx"
    by (rule bfree_frees [OF demo_tx _ demo_sb(1)]) (simp_all add: demo_bits BPB_val)
  then show ?thesis using txD(4) by (fastforce simp: serve_live with_block_def split: outcome.splits)
qed

end
