(* ===== verification/Asm.thy ===== *)
theory Asm
  imports Memlayout
begin

text \<open>
  The assembly of the kernel: entry.S, swtch.S, trampoline.S, kernelvec.S and the user stub
  initcode.S. A routine is the list of its instructions, run on a hart whose state is its
  registers, the control registers the routines touch, and memory. Loads and stores are of
  aligned double words, which is all these routines use, so memory maps the address of a double
  word to its value and a misaligned access ends the run with the value \<open>Misaligned\<close>. In
  supervisor mode an address goes through \<open>tr\<close>, the translation the hart performs for the value of
  \<^verbatim>\<open>satp\<close> in force; in machine mode it is physical. A routine is run up to the instruction that
  leaves it: a jump, a call, a trap return or an environment call.

  The lemmas show that each routine leaves nothing out: what \<open>uservec\<close> saves \<open>userret\<close> restores,
  what \<open>swtch_code\<close> saves a later \<open>swtch_code\<close> restores, \<open>kernelvec\<close> gives back every register but
  \<^verbatim>\<open>tp\<close>, and \<open>timervec\<close> changes no register at all.
\<close>

section \<open>A hart and its instructions\<close>

datatype reg = RA | SP | GP | TP | T0 | T1 | T2 | S0 | S1 | A0 | A1 | A2 | A3 | A4 | A5 | A6 | A7
  | S2 | S3 | S4 | S5 | S6 | S7 | S8 | S9 | S10 | S11 | T3 | T4 | T5 | T6

datatype csr = SSCRATCH | SATP | SIP | MHARTID | MSCRATCH

record hart =
  regs :: "reg \<Rightarrow> u64"
  csrs :: "csr \<Rightarrow> u64"
  dmem :: "u64 \<Rightarrow> u64"
  mmode :: bool
  tr :: "u64 \<Rightarrow> u64 \<Rightarrow> u64"

datatype instr = Sd reg u64 reg | Ld reg u64 reg | Li reg u64 | Addi reg reg u64
  | Add reg reg reg | Mul reg reg reg | Csrw csr reg | Csrr reg csr | Csrrw reg csr reg
  | Sfence | Jr reg | Call u64 u64 | Sret | Mret | Ecall

datatype control = Next | Jump u64 | SRet | MRet | ECall | Misaligned

definition aligned8 :: "u64 \<Rightarrow> bool" where
  "aligned8 a \<longleftrightarrow> 8 dvd unat a"

definition phys :: "hart \<Rightarrow> u64 \<Rightarrow> u64" where
  "phys h a = (if mmode h then a else tr h (csrs h SATP) a)"

definition set_reg :: "reg \<Rightarrow> u64 \<Rightarrow> hart \<Rightarrow> hart" where
  "set_reg r v h = h\<lparr>regs := (regs h)(r := v)\<rparr>"

definition set_csr :: "csr \<Rightarrow> u64 \<Rightarrow> hart \<Rightarrow> hart" where
  "set_csr c v h = h\<lparr>csrs := (csrs h)(c := v)\<rparr>"

definition store :: "u64 \<Rightarrow> u64 \<Rightarrow> hart \<Rightarrow> hart" where
  "store a v h = h\<lparr>dmem := (dmem h)(a := v)\<rparr>"

fun run :: "instr list \<Rightarrow> hart \<Rightarrow> control \<times> hart" where
  "run [] h = (Next, h)"
| "run (Sd s off b # is) h =
     (let a = phys h (regs h b + off)
      in if aligned8 a then run is (store a (regs h s) h) else (Misaligned, h))"
| "run (Ld d off b # is) h =
     (let a = phys h (regs h b + off)
      in if aligned8 a then run is (set_reg d (dmem h a) h) else (Misaligned, h))"
| "run (Li d v # is) h = run is (set_reg d v h)"
| "run (Addi d s v # is) h = run is (set_reg d (regs h s + v) h)"
| "run (Add d s t # is) h = run is (set_reg d (regs h s + regs h t) h)"
| "run (Mul d s t # is) h = run is (set_reg d (regs h s * regs h t) h)"
| "run (Csrw c s # is) h = run is (set_csr c (regs h s) h)"
| "run (Csrr d c # is) h = run is (set_reg d (csrs h c) h)"
| "run (Csrrw d c s # is) h = run is (set_reg d (csrs h c) (set_csr c (regs h s) h))"
| "run (Sfence # is) h = run is h"
| "run (Jr s # is) h = (Jump (regs h s), h)"
| "run (Call t next_pc # is) h = (Jump t, set_reg RA next_pc h)"
| "run (Sret # is) h = (SRet, h)"
| "run (Mret # is) h = (MRet, h)"
| "run (Ecall # is) h = (ECall, h)"

section \<open>The routines\<close>


definition swtch_code :: "instr list" where
  "swtch_code = [
    Sd RA 0 A0, Sd SP 8 A0, Sd S0 16 A0, Sd S1 24 A0, Sd S2 32 A0, Sd S3 40 A0,
    Sd S4 48 A0, Sd S5 56 A0, Sd S6 64 A0, Sd S7 72 A0, Sd S8 80 A0, Sd S9 88 A0,
    Sd S10 96 A0, Sd S11 104 A0, Ld RA 0 A1, Ld SP 8 A1, Ld S0 16 A1, Ld S1 24 A1,
    Ld S2 32 A1, Ld S3 40 A1, Ld S4 48 A1, Ld S5 56 A1, Ld S6 64 A1, Ld S7 72 A1,
    Ld S8 80 A1, Ld S9 88 A1, Ld S10 96 A1, Ld S11 104 A1, Jr RA]"

definition uservec :: "instr list" where
  "uservec = [
    Csrw SSCRATCH A0, Li A0 TRAPFRAME, Sd RA 40 A0, Sd SP 48 A0, Sd GP 56 A0,
    Sd TP 64 A0, Sd T0 72 A0, Sd T1 80 A0, Sd T2 88 A0, Sd S0 96 A0, Sd S1 104 A0,
    Sd A1 120 A0, Sd A2 128 A0, Sd A3 136 A0, Sd A4 144 A0, Sd A5 152 A0, Sd A6 160 A0,
    Sd A7 168 A0, Sd S2 176 A0, Sd S3 184 A0, Sd S4 192 A0, Sd S5 200 A0, Sd S6 208 A0,
    Sd S7 216 A0, Sd S8 224 A0, Sd S9 232 A0, Sd S10 240 A0, Sd S11 248 A0,
    Sd T3 256 A0, Sd T4 264 A0, Sd T5 272 A0, Sd T6 280 A0, Csrr T0 SSCRATCH,
    Sd T0 112 A0, Ld SP 8 A0, Ld TP 32 A0, Ld T0 16 A0, Ld T1 0 A0, Sfence,
    Csrw SATP T1, Sfence, Jr T0]"

definition userret :: "instr list" where
  "userret = [
    Sfence, Csrw SATP A0, Sfence, Li A0 TRAPFRAME, Ld RA 40 A0, Ld SP 48 A0,
    Ld GP 56 A0, Ld TP 64 A0, Ld T0 72 A0, Ld T1 80 A0, Ld T2 88 A0, Ld S0 96 A0,
    Ld S1 104 A0, Ld A1 120 A0, Ld A2 128 A0, Ld A3 136 A0, Ld A4 144 A0, Ld A5 152 A0,
    Ld A6 160 A0, Ld A7 168 A0, Ld S2 176 A0, Ld S3 184 A0, Ld S4 192 A0, Ld S5 200 A0,
    Ld S6 208 A0, Ld S7 216 A0, Ld S8 224 A0, Ld S9 232 A0, Ld S10 240 A0,
    Ld S11 248 A0, Ld T3 256 A0, Ld T4 264 A0, Ld T5 272 A0, Ld T6 280 A0,
    Ld A0 112 A0, Sret]"

definition kernelvec :: "u64 \<Rightarrow> u64 \<Rightarrow> instr list" where
  "kernelvec kerneltrap next_pc = [
    Addi SP SP (- 256), Sd RA 0 SP, Sd SP 8 SP, Sd GP 16 SP, Sd TP 24 SP, Sd T0 32 SP,
    Sd T1 40 SP, Sd T2 48 SP, Sd S0 56 SP, Sd S1 64 SP, Sd A0 72 SP, Sd A1 80 SP,
    Sd A2 88 SP, Sd A3 96 SP, Sd A4 104 SP, Sd A5 112 SP, Sd A6 120 SP, Sd A7 128 SP,
    Sd S2 136 SP, Sd S3 144 SP, Sd S4 152 SP, Sd S5 160 SP, Sd S6 168 SP, Sd S7 176 SP,
    Sd S8 184 SP, Sd S9 192 SP, Sd S10 200 SP, Sd S11 208 SP, Sd T3 216 SP,
    Sd T4 224 SP, Sd T5 232 SP, Sd T6 240 SP, Call kerneltrap next_pc]"

definition kernelvec_return :: "instr list" where
  "kernelvec_return = [
    Ld RA 0 SP, Ld SP 8 SP, Ld GP 16 SP, Ld T0 32 SP, Ld T1 40 SP, Ld T2 48 SP,
    Ld S0 56 SP, Ld S1 64 SP, Ld A0 72 SP, Ld A1 80 SP, Ld A2 88 SP, Ld A3 96 SP,
    Ld A4 104 SP, Ld A5 112 SP, Ld A6 120 SP, Ld A7 128 SP, Ld S2 136 SP, Ld S3 144 SP,
    Ld S4 152 SP, Ld S5 160 SP, Ld S6 168 SP, Ld S7 176 SP, Ld S8 184 SP, Ld S9 192 SP,
    Ld S10 200 SP, Ld S11 208 SP, Ld T3 216 SP, Ld T4 224 SP, Ld T5 232 SP,
    Ld T6 240 SP, Addi SP SP 256, Sret]"

definition timervec :: "instr list" where
  "timervec = [
    Csrrw A0 MSCRATCH A0, Sd A1 0 A0, Sd A2 8 A0, Sd A3 16 A0, Ld A1 24 A0,
    Ld A2 32 A0, Ld A3 0 A1, Add A3 A3 A2, Sd A3 0 A1, Li A1 2, Csrw SIP A1,
    Ld A3 16 A0, Ld A2 8 A0, Ld A1 0 A0, Csrrw A0 MSCRATCH A0, Mret]"

definition initcode :: "u64 \<Rightarrow> u64 \<Rightarrow> instr list" where
  "initcode init argv = [
    Li A0 init, Li A1 argv, Li A7 7, Ecall]"

definition initcode_exit :: "u64 \<Rightarrow> u64 \<Rightarrow> instr list" where
  "initcode_exit exit next_pc = [Li A7 2, Ecall, Call exit next_pc]"

text \<open>
  The offsets of the saved registers in \<^verbatim>\<open>struct trapframe\<close> and \<^verbatim>\<open>struct context\<close> of proc.h, which
  the assembly has as literals.
\<close>

fun tf_off :: "reg \<Rightarrow> u64" where
  "tf_off RA = 40" | "tf_off SP = 48" | "tf_off GP = 56" | "tf_off TP = 64"
| "tf_off T0 = 72" | "tf_off T1 = 80" | "tf_off T2 = 88" | "tf_off S0 = 96"
| "tf_off S1 = 104" | "tf_off A0 = 112" | "tf_off A1 = 120" | "tf_off A2 = 128"
| "tf_off A3 = 136" | "tf_off A4 = 144" | "tf_off A5 = 152" | "tf_off A6 = 160"
| "tf_off A7 = 168" | "tf_off S2 = 176" | "tf_off S3 = 184" | "tf_off S4 = 192"
| "tf_off S5 = 200" | "tf_off S6 = 208" | "tf_off S7 = 216" | "tf_off S8 = 224"
| "tf_off S9 = 232" | "tf_off S10 = 240" | "tf_off S11 = 248" | "tf_off T3 = 256"
| "tf_off T4 = 264" | "tf_off T5 = 272" | "tf_off T6 = 280"

fun ctx_off :: "reg \<Rightarrow> u64 option" where
  "ctx_off RA = Some 0" | "ctx_off SP = Some 8" | "ctx_off S0 = Some 16" | "ctx_off S1 = Some 24"
| "ctx_off S2 = Some 32" | "ctx_off S3 = Some 40" | "ctx_off S4 = Some 48" | "ctx_off S5 = Some 56"
| "ctx_off S6 = Some 64" | "ctx_off S7 = Some 72" | "ctx_off S8 = Some 80" | "ctx_off S9 = Some 88"
| "ctx_off S10 = Some 96" | "ctx_off S11 = Some 104" | "ctx_off _ = None"

section \<open>Register and memory windows\<close>

text \<open>
  \<open>window h satp va pa n\<close>: under \<open>satp\<close> the \<open>n\<close> double words at the virtual address \<open>va\<close> are those at the physical
  address \<open>pa\<close>, which is aligned.
\<close>

definition window :: "hart \<Rightarrow> u64 \<Rightarrow> u64 \<Rightarrow> u64 \<Rightarrow> nat \<Rightarrow> bool" where
  "window h satp va pa n \<longleftrightarrow> aligned8 pa \<and>
     (\<forall>off. unat off < 8 * n \<longrightarrow> aligned8 off \<longrightarrow> tr h satp (va + off) = pa + off)"

lemma aligned8_add: "aligned8 a \<Longrightarrow> aligned8 b \<Longrightarrow> aligned8 (a + b)"
  by (auto simp: aligned8_def unat_word_ariths intro!: dvd_mod)

lemma aligned8_numeral [simp]: "aligned8 (numeral k) \<longleftrightarrow> 8 dvd unat (numeral k :: u64)"
  by (simp add: aligned8_def)

lemma aligned8_neg_numeral [simp]: "aligned8 (- numeral k) \<longleftrightarrow> 8 dvd unat (- numeral k :: u64)"
  by (simp add: aligned8_def)

lemma aligned8_0 [simp]: "aligned8 0"
  by (simp add: aligned8_def)

lemma window_tr: "window h satp va pa n \<Longrightarrow> unat off < 8 * n \<Longrightarrow> aligned8 off \<Longrightarrow>
  tr h satp (va + off) = pa + off"
  by (simp add: window_def)

lemma window_tr0: "window h satp va pa n \<Longrightarrow> 0 < n \<Longrightarrow> tr h satp va = pa"
  using window_tr [of h satp va pa n 0] by simp

lemma window_aligned: "window h satp va pa n \<Longrightarrow> aligned8 pa"
  by (simp add: window_def)

lemmas asm_simps = phys_def set_reg_def set_csr_def store_def Let_def window_tr window_tr0
  aligned8_add

lemma run_keeps [simp]: "tr (snd (run is h)) = tr h" "mmode (snd (run is h)) = mmode h"
  by (induction "is" h rule: run.induct) (simp_all add: Let_def set_reg_def set_csr_def store_def)

lemma set_reg_sel [simp]: "tr (set_reg r v h) = tr h" "mmode (set_reg r v h) = mmode h"
  "csrs (set_reg r v h) = csrs h" "dmem (set_reg r v h) = dmem h"
  "regs (set_reg r v h) = (regs h)(r := v)"
  by (simp_all add: set_reg_def)

lemma uservec_run:
  assumes "window h (csrs h SATP) TRAPFRAME tf 36" "\<not> mmode h"
  shows "run uservec h = (Jump (dmem h (tf + 16)), h\<lparr>
     regs := (regs h)(A0 := TRAPFRAME, SP := dmem h (tf + 8), TP := dmem h (tf + 32), 
       T0 := dmem h (tf + 16), T1 := dmem h tf),
     csrs := (csrs h)(SSCRATCH := regs h A0, SATP := dmem h tf),
     dmem := (dmem h)(tf + 40 := regs h RA, tf + 48 := regs h SP, tf + 56 := regs h GP,
       tf + 64 := regs h TP, tf + 72 := regs h T0, tf + 80 := regs h T1, tf + 88 := regs h T2,
       tf + 96 := regs h S0, tf + 104 := regs h S1, tf + 120 := regs h A1, tf + 128 := regs h A2,
       tf + 136 := regs h A3, tf + 144 := regs h A4, tf + 152 := regs h A5, tf + 160 := regs h A6,
       tf + 168 := regs h A7, tf + 176 := regs h S2, tf + 184 := regs h S3, tf + 192 := regs h S4,
       tf + 200 := regs h S5, tf + 208 := regs h S6, tf + 216 := regs h S7, tf + 224 := regs h S8,
       tf + 232 := regs h S9, tf + 240 := regs h S10, tf + 248 := regs h S11, tf + 256 := regs h T3,
       tf + 264 := regs h T4, tf + 272 := regs h T5, tf + 280 := regs h T6,
       tf + 112 := regs h A0)\<rparr>)"
  using assms window_aligned [OF assms(1)]
  by (simp add: uservec_def asm_simps)

lemma userret_run:
  assumes "window h (regs h A0) TRAPFRAME tf 36" "\<not> mmode h"
  shows "run userret h = (SRet, h\<lparr>regs := \<lambda>r. dmem h (tf + tf_off r),
    csrs := (csrs h)(SATP := regs h A0)\<rparr>)"
  using assms window_aligned [OF assms(1)]
  apply (simp add: userret_def asm_simps)
  apply (rule hart.equality)
      apply simp_all
  apply (rule ext)
  subgoal for r by (cases r) simp_all
  done

lemma uservec_saves:
  assumes "window h (csrs h SATP) TRAPFRAME tf 36" "\<not> mmode h"
  shows "dmem (snd (run uservec h)) (tf + tf_off r) = regs h r"
  by (cases r) (simp_all add: uservec_run [OF assms])

section \<open>A hart to run the routines on\<close>

text \<open>
  A hart whose registers and memory are all different from zero and whose translation adds
  \<open>0x10000\<close> to an address.
\<close>

definition demo_hart :: hart where
  "demo_hart = \<lparr>regs = \<lambda>r. 0x1000 + tf_off r, csrs = \<lambda>_. 3, dmem = \<lambda>a. a + 1, mmode = False,
     tr = \<lambda>_ a. a + 0x10000\<rparr>"

lemma demo_window: "tr h = tr demo_hart \<Longrightarrow> pa = va + 0x10000 \<Longrightarrow> aligned8 pa \<Longrightarrow>
  window h satp va pa n"
  by (auto simp: demo_hart_def window_def)

lemma demo_hart_simps [simp]:
  "\<not> mmode demo_hart" "csrs demo_hart c = 3" "regs demo_hart r = 0x1000 + tf_off r"
  "dmem demo_hart a = a + 1"
  by (simp_all add: demo_hart_def)

section \<open>Switching and trapping lose no register\<close>

text \<open>
  C10: \<^verbatim>\<open>uservec\<close> and \<^verbatim>\<open>userret\<close> are inverse on the user registers. A trap from user space
  enters \<^verbatim>\<open>usertrap\<close> on the kernel stack, hart id and page table that the trapframe holds; and when
  the kernel later runs \<^verbatim>\<open>userret\<close> with the process's page table, in any state \<open>k\<close>, each of the 31
  registers has the value the user program left in it, provided the kernel left that register's
  slot of the trapframe as \<^verbatim>\<open>uservec\<close> wrote it (a slot that the kernel changed, as a system call does
  with \<^verbatim>\<open>a0\<close>, gives the new value).
\<close>

theorem trap_roundtrip:
  assumes "window h (csrs h SATP) TRAPFRAME tf 36" "\<not> mmode h"
    and "run uservec h = (c, h1)"
    and "window k (csrs h SATP) TRAPFRAME tf 36" "\<not> mmode k" "regs k A0 = csrs h SATP"
    and "run userret k = (d, h2)"
  shows "c = Jump (dmem h (tf + 16)) \<and> regs h1 SP = dmem h (tf + 8) \<and> regs h1 TP = dmem h (tf + 32) \<and>
      csrs h1 SATP = dmem h tf \<and>
      d = SRet \<and> csrs h2 SATP = csrs h SATP \<and> dmem h2 = dmem k \<and>
      (\<forall>r. regs h2 r = dmem k (tf + tf_off r)) \<and>
      (\<forall>r. dmem k (tf + tf_off r) = dmem h1 (tf + tf_off r) \<longrightarrow> regs h2 r = regs h r)"
proof -
  have k: "(d, h2) = (SRet, k\<lparr>regs := \<lambda>r. dmem k (tf + tf_off r), csrs := (csrs k)(SATP := csrs h SATP)\<rparr>)"
    using assms(4-7) userret_run [of k tf] by simp
  have "\<forall>r. dmem h1 (tf + tf_off r) = regs h r"
    using uservec_saves [OF assms(1,2)] assms(3) by simp
  moreover have "c = Jump (dmem h (tf + 16)) \<and> regs h1 SP = dmem h (tf + 8) \<and>
      regs h1 TP = dmem h (tf + 32) \<and> csrs h1 SATP = dmem h tf"
    using assms(3) by (auto simp: uservec_run [OF assms(1,2)])
  ultimately show ?thesis using k by simp
qed

theorem trap_roundtrip_witness:
  "\<forall>r. regs (snd (run userret (set_reg A0 3 (snd (run uservec demo_hart))))) r = 0x1000 + tf_off r"
proof -
  let ?h1 = "snd (run uservec demo_hart)" and ?tf = "TRAPFRAME + 0x10000"
  have w: "window h satp TRAPFRAME ?tf 36" if "tr h = tr demo_hart" for h satp
    using that by (rule demo_window) (simp_all add: TRAPFRAME_val)
  note r = uservec_run [OF w [OF refl], simplified]
  have k: "tr (set_reg A0 3 ?h1) = tr demo_hart" "\<not> mmode (set_reg A0 3 ?h1)"
    "regs (set_reg A0 3 ?h1) A0 = csrs demo_hart SATP"
    "dmem (set_reg A0 3 ?h1) = dmem ?h1"
    unfolding r by (simp_all add: set_reg_def)
  have "\<forall>r. regs (snd (run userret (set_reg A0 3 ?h1))) r = regs demo_hart r"
    using trap_roundtrip [OF w [OF refl] demo_hart_simps(1) surjective_pairing w [OF k(1)] k(2,3)
        surjective_pairing]
    unfolding k(4) by blast
  then show ?thesis by simp
qed

text \<open>\<open>apart a b n\<close>: the \<open>n\<close> double words at \<open>a\<close> and those at \<open>b\<close> do not overlap.\<close>

definition apart :: "u64 \<Rightarrow> u64 \<Rightarrow> nat \<Rightarrow> bool" where
  "apart a b n \<longleftrightarrow> (\<forall>x y. unat x < 8 * n \<longrightarrow> unat y < 8 * n \<longrightarrow> a + x \<noteq> b + y)"

lemma apartD:
  assumes "apart a b n"
  shows "unat x < 8 * n \<Longrightarrow> unat y < 8 * n \<Longrightarrow> b + y \<noteq> a + x"
    and "unat x < 8 * n \<Longrightarrow> b \<noteq> a + x" and "unat y < 8 * n \<Longrightarrow> b + y \<noteq> a"
    and "0 < n \<Longrightarrow> b \<noteq> a"
proof -
  have *: "unat x < 8 * n \<Longrightarrow> unat y < 8 * n \<Longrightarrow> b + y \<noteq> a + x" for x y
    using assms by (metis apart_def)
  show "unat x < 8 * n \<Longrightarrow> unat y < 8 * n \<Longrightarrow> b + y \<noteq> a + x" by (rule *)
  show "unat x < 8 * n \<Longrightarrow> b \<noteq> a + x" using * [of x 0] by simp
  show "unat y < 8 * n \<Longrightarrow> b + y \<noteq> a" using * [of 0 y] by simp
  show "0 < n \<Longrightarrow> b \<noteq> a" using * [of 0 0] by simp
qed

lemma apartI:
  assumes "unat a + 8 * n \<le> unat b" "unat b + 8 * n < 2 ^ 64"
  shows "apart a b n"
proof -
  have "a + x \<noteq> b + y" if "unat x < 8 * n" "unat y < 8 * n" for x y
  proof
    assume "a + x = b + y"
    then have "unat (a + x) = unat (b + y)" by simp
    then show False using that assms by (simp add: unat_word_ariths)
  qed
  then show ?thesis by (simp add: apart_def)
qed

lemma apart_sym: "apart a b n \<Longrightarrow> apart b a n"
  by (metis apart_def)

lemma apart_shift: "apart a b n \<Longrightarrow> apart (a - c + d) (b - c + d) n"
  by (simp add: apart_def diff_add_eq add.assoc [symmetric] add.commute [of _ d])

lemma swtch_run:
  assumes "\<not> mmode h" "window h (csrs h SATP) (regs h A0) old 14"
    "window h (csrs h SATP) (regs h A1) new 14" "apart old new 14"
  shows "run swtch_code h = (Jump (dmem h new), h\<lparr>
     regs := \<lambda>r. case ctx_off r of None \<Rightarrow> regs h r | Some x \<Rightarrow> dmem h (new + x),
     dmem := (dmem h)(old := regs h RA, old + 8 := regs h SP, old + 16 := regs h S0,
       old + 24 := regs h S1, old + 32 := regs h S2, old + 40 := regs h S3, old + 48 := regs h S4,
       old + 56 := regs h S5, old + 64 := regs h S6, old + 72 := regs h S7, old + 80 := regs h S8,
       old + 88 := regs h S9, old + 96 := regs h S10, old + 104 := regs h S11)\<rparr>)"
  using assms(1-3) window_aligned [OF assms(2)] window_aligned [OF assms(3)]
  apply (simp add: swtch_code_def asm_simps apartD [OF assms(4)])
  apply (rule hart.equality)
      apply simp_all
  apply (rule ext)
  subgoal for r by (cases r) simp_all
  done

text \<open>
  C14: \<^verbatim>\<open>swtch(old, new)\<close> continues the thread saved in \<open>new\<close> and loses nothing of the one it
  suspends: it returns to the \<^verbatim>\<open>ra\<close> saved in \<open>new\<close> with every callee-saved register loaded from \<open>new\<close>,
  and when any hart state \<open>k\<close> later calls \<^verbatim>\<open>swtch(other, old)\<close> while \<open>old\<close> is as the first call wrote it,
  that call returns to the caller of the first with the callee-saved registers it had.
\<close>

theorem swtch_roundtrip:
  assumes "\<not> mmode h" "window h (csrs h SATP) (regs h A0) old 14"
    and "window h (csrs h SATP) (regs h A1) new 14" "apart old new 14"
    and "run swtch_code h = (c, h1)"
    and "\<not> mmode k" "window k (csrs k SATP) (regs k A0) other 14"
    and "window k (csrs k SATP) (regs k A1) old 14" "apart other old 14"
    and "\<forall>r x. ctx_off r = Some x \<longrightarrow> dmem k (old + x) = dmem h1 (old + x)"
    and "run swtch_code k = (d, h2)"
  shows "c = Jump (dmem h new) \<and> d = Jump (regs h RA) \<and>
    (\<forall>r x. ctx_off r = Some x \<longrightarrow> regs h1 r = dmem h (new + x) \<and> regs h2 r = regs h r)"
proof -
  have saved: "ctx_off r = Some x \<Longrightarrow> dmem h1 (old + x) = regs h r" for r x
    using assms(5) by (cases r) (auto simp: swtch_run [OF assms(1-4)])
  have "dmem k old = regs h RA"
    using assms(10) saved [of RA 0] by (metis add.right_neutral ctx_off.simps(1))
  then show ?thesis
    using assms(5,10,11) saved
    by (auto simp: swtch_run [OF assms(1-4)] swtch_run [OF assms(6-9)])
qed

theorem swtch_roundtrip_witness:
  "fst (run swtch_code (set_reg A1 0x1070 (set_reg A0 0x3000 (snd (run swtch_code
     (set_reg A1 0x2000 (set_reg A0 0x1070 demo_hart))))))) = Jump 0x1028"
proof -
  let ?h = "set_reg A1 0x2000 (set_reg A0 0x1070 demo_hart)"
  let ?k = "set_reg A1 0x1070 (set_reg A0 0x3000 (snd (run swtch_code ?h)))"
  have w: "window h satp 0x1070 0x11070 14" "window h satp 0x2000 0x12000 14"
    "window h satp 0x3000 0x13000 14" if "tr h = tr demo_hart" for h satp
    using that by (simp_all add: demo_window)
  have a: "apart 0x11070 0x12000 14" "apart 0x13000 0x11070 14"
    by (simp_all add: apartI apart_sym)
  have h: "\<not> mmode ?h" "window ?h (csrs ?h SATP) (regs ?h A0) 0x11070 14"
      "window ?h (csrs ?h SATP) (regs ?h A1) 0x12000 14"
    using w by simp_all
  have k: "\<not> mmode ?k" "window ?k (csrs ?k SATP) (regs ?k A0) 0x13000 14"
      "window ?k (csrs ?k SATP) (regs ?k A1) 0x11070 14" "dmem ?k = dmem (snd (run swtch_code ?h))"
    using w by simp_all
  show ?thesis
    using swtch_roundtrip [OF h a(1) surjective_pairing k(1-3) a(2) _ surjective_pairing]
    by (simp add: k(4))
qed

lemma kernelvec_save_run:
  assumes "\<not> mmode h" "window h (csrs h SATP) (regs h SP) stk 32"
  shows "run (tl (kernelvec kerneltrap pc)) h = (Jump kerneltrap, h\<lparr>
     regs := (regs h)(RA := pc),
     dmem := (dmem h)(stk := regs h RA, stk + 8 := regs h SP, stk + 16 := regs h GP,
       stk + 24 := regs h TP, stk + 32 := regs h T0, stk + 40 := regs h T1, stk + 48 := regs h T2,
       stk + 56 := regs h S0, stk + 64 := regs h S1, stk + 72 := regs h A0, stk + 80 := regs h A1,
       stk + 88 := regs h A2, stk + 96 := regs h A3, stk + 104 := regs h A4, stk + 112 := regs h A5,
       stk + 120 := regs h A6, stk + 128 := regs h A7, stk + 136 := regs h S2,
       stk + 144 := regs h S3, stk + 152 := regs h S4, stk + 160 := regs h S5,
       stk + 168 := regs h S6, stk + 176 := regs h S7, stk + 184 := regs h S8,
       stk + 192 := regs h S9, stk + 200 := regs h S10, stk + 208 := regs h S11,
       stk + 216 := regs h T3, stk + 224 := regs h T4, stk + 232 := regs h T5,
       stk + 240 := regs h T6)\<rparr>)"
  using assms window_aligned [OF assms(2)]
  by (simp add: kernelvec_def asm_simps)

text \<open>The slot of each register in the frame that \<open>kernelvec\<close> pushes.\<close>

fun kv_off :: "reg \<Rightarrow> u64" where
  "kv_off RA = 0" | "kv_off SP = 8" | "kv_off GP = 16" | "kv_off TP = 24"
| "kv_off T0 = 32" | "kv_off T1 = 40" | "kv_off T2 = 48" | "kv_off S0 = 56"
| "kv_off S1 = 64" | "kv_off A0 = 72" | "kv_off A1 = 80" | "kv_off A2 = 88"
| "kv_off A3 = 96" | "kv_off A4 = 104" | "kv_off A5 = 112" | "kv_off A6 = 120"
| "kv_off A7 = 128" | "kv_off S2 = 136" | "kv_off S3 = 144" | "kv_off S4 = 152"
| "kv_off S5 = 160" | "kv_off S6 = 168" | "kv_off S7 = 176" | "kv_off S8 = 184"
| "kv_off S9 = 192" | "kv_off S10 = 200" | "kv_off S11 = 208" | "kv_off T3 = 216"
| "kv_off T4 = 224" | "kv_off T5 = 232" | "kv_off T6 = 240"

lemma kernelvec_run:
  assumes "\<not> mmode h" "window h (csrs h SATP) (regs h SP - 256) stk 32"
    and "run (kernelvec kerneltrap pc) h = (c, h1)"
  shows "c = Jump kerneltrap" "regs h1 SP = regs h SP - 256"
    "dmem h1 (stk + kv_off r) = (if r = SP then regs h SP - 256 else regs h r)"
proof -
  let ?h = "set_reg SP (regs h SP - 256) h"
  have kv: "kernelvec kerneltrap pc = Addi SP SP (- 256) # tl (kernelvec kerneltrap pc)"
    by (simp add: kernelvec_def)
  have w: "\<not> mmode ?h" "window ?h (csrs ?h SATP) (regs ?h SP) stk 32"
    using assms(1,2) by (simp_all add: set_reg_def window_def)
  have e: "run (tl (kernelvec kerneltrap pc)) ?h = (c, h1)"
    using assms(3) by (subst (asm) kv) simp
  show "c = Jump kerneltrap" "regs h1 SP = regs h SP - 256"
    using e unfolding kernelvec_save_run [OF w] by (auto simp: set_reg_def)
  show "dmem h1 (stk + kv_off r) = (if r = SP then regs h SP - 256 else regs h r)"
    using e unfolding kernelvec_save_run [OF w] 
    by (cases r) (auto simp: set_reg_def)
qed

lemma kernelvec_return_run:
  assumes "\<not> mmode k" "window k (csrs k SATP) (regs k SP) stk 32"
    "dmem k (stk + 8) = regs k SP"
  shows "run kernelvec_return k = (SRet, k\<lparr>regs := \<lambda>r. if r = TP then regs k TP
      else if r = SP then regs k SP + 256 else dmem k (stk + kv_off r)\<rparr>)"
  using assms window_aligned [OF assms(2)]
  apply (simp add: kernelvec_return_def asm_simps)
  apply (rule hart.equality)
      apply simp_all
  apply (rule ext)
  subgoal for r by (cases r) simp_all
  done

text \<open>
  C35: A trap taken in the kernel is invisible to the code it interrupts. \<^verbatim>\<open>kernelvec\<close> calls
  \<^verbatim>\<open>kerneltrap\<close> with the registers pushed below the stack pointer, and when \<^verbatim>\<open>kerneltrap\<close> comes back
  with the same stack pointer and that frame untouched, on this or on another hart, every register
  but \<^verbatim>\<open>tp\<close> has its old value, and \<^verbatim>\<open>tp\<close> keeps the id of the hart the code now runs on.
\<close>

theorem kernelvec_transparent:
  assumes "\<not> mmode h" "window h (csrs h SATP) (regs h SP - 256) stk 32"
    and "run (kernelvec kerneltrap pc) h = (c, h1)"
    and "\<not> mmode k" "window k (csrs k SATP) (regs k SP) stk 32" "regs k SP = regs h1 SP"
    and "\<forall>r. dmem k (stk + kv_off r) = dmem h1 (stk + kv_off r)"
    and "run kernelvec_return k = (d, h2)"
  shows "c = Jump kerneltrap \<and> d = SRet \<and> regs h2 = (regs h)(TP := regs k TP)"
proof -
  have sp: "regs k SP = regs h SP - 256" "dmem k (stk + 8) = regs k SP"
    using assms(6,7) kernelvec_run(2,3) [OF assms(1-3)] by (simp, metis kv_off.simps(2))
  have "regs h2 r = ((regs h)(TP := regs k TP)) r" for r
    using assms(7,8) kernelvec_run(3) [OF assms(1-3), of r] sp
    by (auto simp: kernelvec_return_run [OF assms(4,5) sp(2)])
  then show ?thesis
    using assms(8) kernelvec_run(1) [OF assms(1-3)]
    by (auto simp: kernelvec_return_run [OF assms(4,5) sp(2)])
qed

theorem kernelvec_transparent_witness:
  "regs (snd (run kernelvec_return (set_reg TP 1 (snd (run (kernelvec 0x80002000 0x80005000) demo_hart))))) =
   (\<lambda>r. 0x1000 + tf_off r)(TP := 1)"
proof -
  let ?h1 = "snd (run (kernelvec 0x80002000 0x80005000) demo_hart)"
  have w: "window h satp 0xF30 0x10F30 32" if "tr h = tr demo_hart" for h satp
    using that by (simp add: demo_window)
  have h: "window demo_hart (csrs demo_hart SATP) (regs demo_hart SP - 256) 0x10F30 32"
    using w by simp
  note r = kernelvec_run(2) [OF demo_hart_simps(1) h surjective_pairing]
  have k: "\<not> mmode (set_reg TP 1 ?h1)"
    "window (set_reg TP 1 ?h1) (csrs (set_reg TP 1 ?h1) SATP) (regs (set_reg TP 1 ?h1) SP) 0x10F30 32"
    using w r by simp_all
  have "regs (snd (run kernelvec_return (set_reg TP 1 ?h1))) = (regs demo_hart)(TP := 1)"
    using kernelvec_transparent [OF demo_hart_simps(1) h surjective_pairing k _ _ surjective_pairing]
    by simp
  then show ?thesis by (simp add: fun_eq_iff)
qed

text \<open>
  C38: The machine-mode timer interrupt schedules the next one and asks for a supervisor
  software interrupt, and is otherwise invisible: with the scratch area as \<^verbatim>\<open>start.c\<close> lays it out,
  \<^verbatim>\<open>timervec\<close> adds the interval to the hart's \<^verbatim>\<open>mtimecmp\<close>, sets \<^verbatim>\<open>sip\<close> to 2, and returns with every
  register, \<^verbatim>\<open>mscratch\<close>, and all memory outside the save area unchanged.
\<close>

theorem timervec_transparent:
  assumes "mmode h" "csrs h MSCRATCH = scratch" "aligned8 scratch"
    and "dmem h (scratch + 24) = mtimecmp" "dmem h (scratch + 32) = interval" "aligned8 mtimecmp"
    and "mtimecmp \<notin> {scratch, scratch + 8, scratch + 16}"
  shows "run timervec h = (MRet, h\<lparr>csrs := (csrs h)(SIP := 2),
    dmem := (dmem h)(scratch := regs h A1, scratch + 8 := regs h A2, scratch + 16 := regs h A3,
      mtimecmp := dmem h mtimecmp + interval)\<rparr>)"
proof -
  have ne: "mtimecmp \<noteq> scratch" "mtimecmp \<noteq> scratch + 8" "mtimecmp \<noteq> scratch + 16"
    using assms(7) by auto
  show ?thesis
    using assms(1-6) ne ne [symmetric]
    apply (simp add: timervec_def asm_simps)
    apply (rule hart.equality)
        apply (auto simp: fun_eq_iff)
    done
qed

theorem timervec_transparent_witness:
  "run timervec (demo_hart\<lparr>mmode := True, csrs := \<lambda>_. 0x80009000,
       dmem := (\<lambda>_. 5)(0x80009018 := 0x2004000, 0x80009020 := 1000000)\<rparr>) =
   (MRet, demo_hart\<lparr>mmode := True, csrs := (\<lambda>_. 0x80009000)(SIP := 2),
       dmem := (\<lambda>_. 5)(0x80009018 := 0x2004000, 0x80009020 := 1000000,
         0x80009000 := 0x1078, 0x80009008 := 0x1080, 0x80009010 := 0x1088, 0x2004000 := 1000005)\<rparr>)"
  by (subst timervec_transparent [where scratch = "0x80009000" and mtimecmp = "0x2004000"
        and interval = 1000000]) simp_all



end
