(* ===== verification/Ulib.thy ===== *)
theory Ulib
  imports Kstring
begin

text \<open>
  User programs and their library: ulib.c and user/printf.c. A user program is a routine of the
  monad of the prelude over a world \<open>'w\<close> of which it knows only the system calls: the record
  \<open>sys\<close> has one operation per call, an argument of every program. A call that fails gives a
  negative number or \<open>None\<close>; \<^verbatim>\<open>read\<close> gives the bytes it read; \<^verbatim>\<open>exec\<close> comes back only when it fails.
  \<^verbatim>\<open>exit\<close> and a successful \<^verbatim>\<open>exec\<close> end the run with \<open>Exited\<close> and \<open>Replaced\<close>.

  A C string is the list of its characters up to the NUL. The memory routines act on a byte array,
  as those of the kernel do in theory Kstring.
\<close>

section \<open>System calls\<close>

record ustat =
  st_dev :: nat
  st_ino :: nat
  st_type :: nat
  st_nlink :: nat
  st_size :: nat

record 'w sys =
  sys_read :: "int \<Rightarrow> nat \<Rightarrow> 'w \<Rightarrow> string option \<times> 'w"
  sys_write :: "int \<Rightarrow> string \<Rightarrow> 'w \<Rightarrow> int \<times> 'w"
  sys_open :: "string \<Rightarrow> nat \<Rightarrow> 'w \<Rightarrow> int \<times> 'w"
  sys_close :: "int \<Rightarrow> 'w \<Rightarrow> int \<times> 'w"
  sys_fstat :: "int \<Rightarrow> 'w \<Rightarrow> ustat option \<times> 'w"
  sys_dup :: "int \<Rightarrow> 'w \<Rightarrow> int \<times> 'w"
  sys_mknod :: "string \<Rightarrow> nat \<Rightarrow> nat \<Rightarrow> 'w \<Rightarrow> int \<times> 'w"
  sys_link :: "string \<Rightarrow> string \<Rightarrow> 'w \<Rightarrow> int \<times> 'w"
  sys_unlink :: "string \<Rightarrow> 'w \<Rightarrow> int \<times> 'w"
  sys_mkdir :: "string \<Rightarrow> 'w \<Rightarrow> int \<times> 'w"
  sys_chdir :: "string \<Rightarrow> 'w \<Rightarrow> int \<times> 'w"
  sys_pipe :: "'w \<Rightarrow> (int \<times> int) option \<times> 'w"
  sys_fork :: "'w \<Rightarrow> int \<times> 'w"
  sys_wait :: "'w \<Rightarrow> int \<times> 'w"
  sys_exec :: "string \<Rightarrow> string list \<Rightarrow> 'w \<Rightarrow> int option \<times> 'w"
  sys_kill :: "u32 \<Rightarrow> 'w \<Rightarrow> int \<times> 'w"
  sys_sleep :: "nat \<Rightarrow> 'w \<Rightarrow> int \<times> 'w"

text \<open>A system call of the world as a step of the program.\<close>

definition call :: "('w \<Rightarrow> 'a \<times> 'w) \<Rightarrow> ('a, 'w) km" where
  [km_simps]: "call f w = (case f w of (a, w') \<Rightarrow> Ret a w')"

definition exit :: "int \<Rightarrow> ('a, 'w) km" where
  [km_simps]: "exit status w = Stop (Exited status) w"

definition exec :: "'w sys \<Rightarrow> string \<Rightarrow> string list \<Rightarrow> (int, 'w) km" where
  [km_simps]: "exec S path argv w =
     (case sys_exec S path argv w of (Some r, w') \<Rightarrow> Ret r w' | (None, w') \<Rightarrow> Stop Replaced w')"

definition uwrite :: "'w sys \<Rightarrow> int \<Rightarrow> string \<Rightarrow> (int, 'w) km" where
  "uwrite S fd s = call (sys_write S fd s)"

section \<open>ulib.c\<close>

definition start_main :: "(unit, 'w) km \<Rightarrow> (unit, 'w) km" where
  "start_main main = seq main (exit 0)"

text \<open>The characters that \<^verbatim>\<open>strcpy\<close> stores, in order, the terminator included.\<close>

fun strcpy :: "string \<Rightarrow> string" where
  "strcpy [] = [CHR 0x00]"
| "strcpy (c # t) = c # (if c \<noteq> CHR 0x00 then strcpy t else [])"

definition chr_at :: "string \<Rightarrow> char" where
  "chr_at s = (case s of [] \<Rightarrow> CHR 0x00 | c # _ \<Rightarrow> c)"

fun strcmp :: "string \<Rightarrow> string \<Rightarrow> int" where
  "strcmp [] q = int (of_char CHR 0x00) - int (of_char (chr_at q))"
| "strcmp (c # p) q =
     (if c \<noteq> CHR 0x00 \<and> c = chr_at q then strcmp p (tl q)
      else int (of_char c) - int (of_char (chr_at q)))"

fun strlen :: "string \<Rightarrow> nat" where
  "strlen [] = 0"
| "strlen (c # s) = (if c = CHR 0x00 then 0 else Suc (strlen s))"


fun strchr :: "string \<Rightarrow> char \<Rightarrow> string option" where
  "strchr [] c = None"
| "strchr (d # s) c =
     (if d = CHR 0x00 then None else if d = c then Some (d # s) else strchr s c)"

text \<open>The buffer that \<^verbatim>\<open>gets\<close> fills, up to its terminator.\<close>

primrec gets_loop :: "'w sys \<Rightarrow> nat \<Rightarrow> string \<Rightarrow> (string, 'w) km" where
  "gets_loop S 0 buf = ret buf"
| "gets_loop S (Suc k) buf =
     bind (call (sys_read S 0 1)) (\<lambda>r.
       case r of
         None \<Rightarrow> ret buf
       | Some [] \<Rightarrow> ret buf
       | Some (c # _) \<Rightarrow>
           if c = CHR 0x0A \<or> c = CHR 0x0D then ret (buf @ [c]) else gets_loop S k (buf @ [c]))"

definition ugets :: "'w sys \<Rightarrow> nat \<Rightarrow> (string, 'w) km" where
  "ugets S n = gets_loop S (n - 1) []"

definition stat :: "'w sys \<Rightarrow> string \<Rightarrow> (ustat option, 'w) km" where
  "stat S n =
     bind (call (sys_open S n 0)) (\<lambda>fd.
     if fd < 0 then ret None
     else bind (call (sys_fstat S fd)) (\<lambda>r.
       seq (call (sys_close S fd)) (ret r)))"

definition is_digit :: "char \<Rightarrow> bool" where
  "is_digit c \<longleftrightarrow> of_char CHR ''0'' \<le> (of_char c :: nat) \<and> (of_char c :: nat) \<le> of_char CHR ''9''"

fun atoi_loop :: "u32 \<Rightarrow> string \<Rightarrow> u32" where
  "atoi_loop n [] = n"
| "atoi_loop n (c # s) =
     (if is_digit c then atoi_loop (n * 10 + of_char c - of_char CHR ''0'') s else n)"

definition atoi :: "string \<Rightarrow> u32" where
  "atoi s = atoi_loop 0 s"




section \<open>printf.c\<close>

definition digits :: string where
  "digits = ''0123456789ABCDEF''"

definition putc :: "'w sys \<Rightarrow> int \<Rightarrow> char \<Rightarrow> (unit, 'w) km" where
  "putc S fd c = seq (uwrite S fd [c]) (ret ())"

text \<open>The \<^verbatim>\<open>do\<close> loop of \<^verbatim>\<open>printint\<close>: \<^verbatim>\<open>buf\<close>, the least significant digit first.\<close>

function int_digits :: "nat \<Rightarrow> nat \<Rightarrow> string" where
  "int_digits base x =
     (digits ! (x mod base)) #
       (if x div base = 0 \<or> base < 2 then [] else int_digits base (x div base))"
  by pat_completeness auto
termination by (relation "measure snd") (auto intro!: div_less_dividend intro: gr0I)

declare int_digits.simps [simp del]

definition int_text :: "u32 \<Rightarrow> nat \<Rightarrow> bool \<Rightarrow> string" where
  "int_text xx base sg =
     (let neg = sg \<and> xx <s 0;
          x = (if neg then - xx else xx)
      in rev (int_digits base (unat x) @ (if neg then ''-'' else [])))"

definition printint :: "'w sys \<Rightarrow> int \<Rightarrow> u32 \<Rightarrow> nat \<Rightarrow> bool \<Rightarrow> (unit, 'w) km" where
  "printint S fd xx base sg = forall_do (int_text xx base sg) (putc S fd)"

primrec ptr_digits :: "nat \<Rightarrow> u64 \<Rightarrow> string" where
  "ptr_digits 0 x = []"
| "ptr_digits (Suc n) x = digits ! unat (drop_bit (8 * 8 - 4) x) # ptr_digits n (push_bit 4 x)"

definition printptr :: "'w sys \<Rightarrow> int \<Rightarrow> u64 \<Rightarrow> (unit, 'w) km" where
  "printptr S fd x =
     seq (putc S fd CHR ''0'')
     (seq (putc S fd CHR ''x'')
     (forall_do (ptr_digits (8 * 2) x) (putc S fd)))"

text \<open>
  The variadic arguments: each is a 64-bit register, or a string pointer that may be null. An
  \<^verbatim>\<open>int\<close> is the low half of the register.
\<close>

datatype varg = AWord u64 | AStr "string option"

definition arg_word :: "varg list \<Rightarrow> u64" where
  "arg_word ap = (case ap of AWord x # _ \<Rightarrow> x | _ \<Rightarrow> 0)"

definition arg_str :: "varg list \<Rightarrow> string option" where
  "arg_str ap = (case ap of AStr x # _ \<Rightarrow> x | _ \<Rightarrow> None)"

fun vprintf_loop :: "'w sys \<Rightarrow> int \<Rightarrow> bool \<Rightarrow> string \<Rightarrow> varg list \<Rightarrow> (unit, 'w) km" where
  "vprintf_loop S fd state [] ap = ret ()"
| "vprintf_loop S fd state (c # fmt) ap =
     (if \<not> state then
        if c = CHR ''%'' then vprintf_loop S fd True fmt ap
        else seq (putc S fd c) (vprintf_loop S fd False fmt ap)
      else if c = CHR ''d'' then
        seq (printint S fd (ucast (arg_word ap)) 10 True) (vprintf_loop S fd False fmt (tl ap))
      else if c = CHR ''l'' then
        seq (printint S fd (ucast (arg_word ap)) 10 False) (vprintf_loop S fd False fmt (tl ap))
      else if c = CHR ''x'' then
        seq (printint S fd (ucast (arg_word ap)) 16 False) (vprintf_loop S fd False fmt (tl ap))
      else if c = CHR ''p'' then
        seq (printptr S fd (arg_word ap)) (vprintf_loop S fd False fmt (tl ap))
      else if c = CHR ''s'' then
        seq (forall_do (case arg_str ap of None \<Rightarrow> ''(null)'' | Some s \<Rightarrow> s) (putc S fd))
          (vprintf_loop S fd False fmt (tl ap))
      else if c = CHR ''c'' then
        seq (putc S fd (char_of (unat (arg_word ap)))) (vprintf_loop S fd False fmt (tl ap))
      else if c = CHR ''%'' then seq (putc S fd c) (vprintf_loop S fd False fmt ap)
      else seq (putc S fd CHR ''%'') (seq (putc S fd c) (vprintf_loop S fd False fmt ap)))"

definition vprintf :: "'w sys \<Rightarrow> int \<Rightarrow> string \<Rightarrow> varg list \<Rightarrow> (unit, 'w) km" where
  "vprintf S fd fmt ap = vprintf_loop S fd False fmt ap"

definition fprintf :: "'w sys \<Rightarrow> int \<Rightarrow> string \<Rightarrow> varg list \<Rightarrow> (unit, 'w) km" where
  "fprintf S fd fmt ap = vprintf S fd fmt ap"

definition printf :: "'w sys \<Rightarrow> string \<Rightarrow> varg list \<Rightarrow> (unit, 'w) km" where
  "printf S fmt ap = vprintf S 1 fmt ap"

section \<open>What a program sees of its files\<close>

text \<open>
  \<open>reads S fd inp\<close>: the bytes still to come on \<open>fd\<close> are \<open>inp w\<close>; a \<^verbatim>\<open>read\<close> of \<open>n\<close> bytes gives at most
  \<open>n\<close> of them from the front, at least one if there are any, and leaves the rest. \<open>writes S fd out\<close>: a
  \<^verbatim>\<open>write\<close> on \<open>fd\<close> writes all of its bytes at the end of \<open>out w\<close>. The two predicates with a third
  component say which other observations the calls leave alone.
\<close>

definition reads :: "'w sys \<Rightarrow> int \<Rightarrow> ('w \<Rightarrow> string) \<Rightarrow> ('w \<Rightarrow> string) \<Rightarrow> bool" where
  "reads S fd inp out \<longleftrightarrow> (\<forall>n w. \<exists>d w'. sys_read S fd n w = (Some d, w') \<and> inp w = d @ inp w' \<and>
     length d \<le> n \<and> (0 < n \<longrightarrow> inp w \<noteq> [] \<longrightarrow> d \<noteq> []) \<and> out w' = out w)"

definition writes :: "'w sys \<Rightarrow> int \<Rightarrow> ('w \<Rightarrow> string) \<Rightarrow> ('w \<Rightarrow> string) \<Rightarrow> bool" where
  "writes S fd inp out \<longleftrightarrow> (\<forall>s w. \<exists>w'. sys_write S fd s w = (int (length s), w') \<and>
     out w' = out w @ s \<and> inp w' = inp w)"

lemma readsE:
  assumes "reads S fd inp out"
  obtains d w' where "sys_read S fd n w = (Some d, w')" "inp w = d @ inp w'" "length d \<le> n"
    "0 < n \<Longrightarrow> inp w \<noteq> [] \<Longrightarrow> d \<noteq> []" "out w' = out w"
  using assms unfolding reads_def by meson

lemma writesE:
  assumes "writes S fd inp out"
  obtains w' where "sys_write S fd s w = (int (length s), w')" "out w' = out w @ s" "inp w' = inp w"
  using assms unfolding writes_def by meson

text \<open>\<open>emits out inp m t\<close>: the routine \<open>m\<close> returns and has written \<open>t\<close>.\<close>

definition emits :: "('w \<Rightarrow> string) \<Rightarrow> ('w \<Rightarrow> string) \<Rightarrow> (unit, 'w) km \<Rightarrow> string \<Rightarrow> bool" where
  "emits out inp m t \<longleftrightarrow> (\<forall>w. \<exists>w'. m w = Ret () w' \<and> out w' = out w @ t \<and> inp w' = inp w)"

lemma emits_ret [intro, simp]: "emits out inp (ret ()) []"
  by (simp add: emits_def km_simps)

lemma emits_seq [intro]: "emits out inp m t \<Longrightarrow> emits out inp n u \<Longrightarrow> emits out inp (seq m n) (t @ u)"
  unfolding emits_def seq_def by (metis append.assoc outcome.simps(5))

lemma emits_putc:
  assumes "writes S fd inp out"
  shows "emits out inp (putc S fd c) [c]"
  unfolding emits_def
proof
  fix w
  obtain w' where "sys_write S fd [c] w = (int (length [c]), w')" "out w' = out w @ [c]" "inp w' = inp w"
    using assms by (rule writesE)
  then show "\<exists>w'. putc S fd c w = Ret () w' \<and> out w' = out w @ [c] \<and> inp w' = inp w"
    by (simp add: putc_def uwrite_def km_simps)
qed

lemma emits_forall_do: "writes S fd inp out \<Longrightarrow> emits out inp (forall_do s (putc S fd)) s"
proof (induction s)
  case (Cons c s)
  then show ?case using emits_seq [OF emits_putc [of S fd inp out c]] by fastforce
qed simp

section \<open>What printf prints\<close>

fun fmt_text :: "string \<Rightarrow> varg list \<Rightarrow> string" where
  "fmt_text [] ap = []"
| "fmt_text [c] ap = (if c = CHR ''%'' then [] else [c])"
| "fmt_text (c # d # fmt) ap =
     (if c \<noteq> CHR ''%'' then c # fmt_text (d # fmt) ap
      else if d = CHR ''d'' then int_text (ucast (arg_word ap)) 10 True @ fmt_text fmt (tl ap)
      else if d = CHR ''l'' then int_text (ucast (arg_word ap)) 10 False @ fmt_text fmt (tl ap)
      else if d = CHR ''x'' then int_text (ucast (arg_word ap)) 16 False @ fmt_text fmt (tl ap)
      else if d = CHR ''p'' then ''0x'' @ ptr_digits 16 (arg_word ap) @ fmt_text fmt (tl ap)
      else if d = CHR ''s'' then
        (case arg_str ap of None \<Rightarrow> ''(null)'' | Some s \<Rightarrow> s) @ fmt_text fmt (tl ap)
      else if d = CHR ''c'' then char_of (unat (arg_word ap)) # fmt_text fmt (tl ap)
      else if d = CHR ''%'' then CHR ''%'' # fmt_text fmt ap
      else CHR ''%'' # d # fmt_text fmt ap)"

lemma emits_printint: "writes S fd inp out \<Longrightarrow>
  emits out inp (printint S fd x b sg) (int_text x b sg)"
  by (simp add: printint_def emits_forall_do)

lemma emits_printptr: "writes S fd inp out \<Longrightarrow>
  emits out inp (printptr S fd x) (''0x'' @ ptr_digits 16 x)"
  using emits_seq [OF emits_putc [of S fd inp out "CHR ''0''"]
      emits_seq [OF emits_putc [of S fd inp out "CHR ''x''"] emits_forall_do [of S fd inp out "ptr_digits 16 x"]]]
  by (simp add: printptr_def)

lemma vprintf_emits:
  assumes W: "writes S fd inp out"
  shows "emits out inp (vprintf_loop S fd False fmt ap) (fmt_text fmt ap)"
proof (induction fmt arbitrary: ap rule: length_induct)
  case (1 f)
  then have IH: "length fmt < length f \<Longrightarrow>
      emits out inp (vprintf_loop S fd False fmt ap) (fmt_text fmt ap)" for fmt ap by blast
  consider "f = []" | c where "f = [c]" | c d fmt where "f = c # d # fmt"
    by (cases f rule: remdups_adj.cases) auto
  then show ?case
  proof cases
    case 2
    then show ?thesis using emits_seq [OF emits_putc [OF W] emits_ret] by auto
  next
    case (3 c d fmt)
    show ?thesis
    proof (cases "c = CHR ''%''")
      case False
      then show ?thesis
        using emits_seq [OF emits_putc [OF W, of c] IH [of "d # fmt" ap]] 3 by simp
    next
      case True
      note r = emits_seq [OF _ IH [of fmt]]
      show ?thesis
        using r [OF emits_putc [OF W]] r [OF emits_printint [OF W]] r [OF emits_printptr [OF W]]
          r [OF emits_forall_do [OF W]] emits_seq [OF emits_putc [OF W] r [OF emits_putc [OF W]]] 3 True
        by simp
    qed
  qed simp
qed

text \<open>
  \<^verbatim>\<open>vprintf\<close> writes exactly the text of its format: with a file that takes every
  write, the bytes it has written when it returns are \<open>fmt_text fmt ap\<close>, each directive replaced by
  its argument, unknown directives printed as they are, and a \<^verbatim>\<open>%\<close> at the very end dropped.
\<close>

lemma vprintf_prints:
  assumes "writes S fd inp out"
  shows "\<exists>w'. vprintf S fd fmt ap w = Ret () w' \<and> out w' = out w @ fmt_text fmt ap"
  using vprintf_emits [OF assms, of fmt ap] by (fastforce simp: emits_def vprintf_def)

text \<open>
  A world to run the programs in: the rest of the standard input and what was written to the
  standard output and error. Every other call fails.
\<close>

definition stdio :: "(string \<times> string) sys" where
  "stdio = \<lparr>sys_read = \<lambda>fd n w. (Some (take n (fst w)), (drop n (fst w), snd w)),
     sys_write = \<lambda>fd s w. (int (length s), (fst w, snd w @ s)),
     sys_open = \<lambda>_ _ w. (-1, w), sys_close = \<lambda>_ w. (-1, w), sys_fstat = \<lambda>_ w. (None, w),
     sys_dup = \<lambda>_ w. (-1, w), sys_mknod = \<lambda>_ _ _ w. (-1, w), sys_link = \<lambda>_ _ w. (-1, w),
     sys_unlink = \<lambda>_ w. (-1, w), sys_mkdir = \<lambda>_ w. (-1, w), sys_chdir = \<lambda>_ w. (-1, w),
     sys_pipe = \<lambda>w. (None, w), sys_fork = \<lambda>w. (-1, w), sys_wait = \<lambda>w. (-1, w),
     sys_exec = \<lambda>_ _ w. (Some (-1), w), sys_kill = \<lambda>_ w. (-1, w), sys_sleep = \<lambda>_ w. (-1, w)\<rparr>"

lemma stdio_reads: "reads stdio fd fst snd"
  by (auto simp: reads_def stdio_def)

lemma stdio_writes: "writes stdio fd fst snd"
  by (auto simp: writes_def stdio_def)

section \<open>Numbers\<close>

lemma digits_10:
  assumes "k < 10"
  shows "of_char (digits ! k) = (48 + k :: nat)"
proof -
  have "k = 0 \<or> k = 1 \<or> k = 2 \<or> k = 3 \<or> k = 4 \<or> k = 5 \<or> k = 6 \<or> k = 7 \<or> k = 8 \<or> k = 9"
    using assms by arith
  then show ?thesis by (elim disjE) (simp_all add: digits_def)
qed

lemma int_digits_length: "2 \<le> b \<Longrightarrow> x < b ^ Suc k \<Longrightarrow> length (int_digits b x) \<le> Suc k"
proof (induction k arbitrary: x)
  case (Suc k)
  then have "x div b < b ^ Suc k" by (simp add: less_mult_imp_div_less mult.commute)
  with Suc.IH [of "x div b"] Suc.prems(1) show ?case by (subst int_digits.simps) simp
qed (simp add: int_digits.simps)

lemma atoi_loop_snoc:
  "\<forall>c \<in> set s. is_digit c \<Longrightarrow> is_digit d \<Longrightarrow>
     atoi_loop n (s @ [d]) = atoi_loop n s * 10 + of_char d - of_char CHR ''0''"
  by (induction s arbitrary: n) auto

lemma is_digit_digits: "k < 10 \<Longrightarrow> is_digit (digits ! k)"
  by (simp add: is_digit_def digits_10)

lemma int_digits_digit: "\<forall>c \<in> set (int_digits 10 x). is_digit c"
  by (induction "10::nat" x rule: int_digits.induct)
    (subst int_digits.simps, auto simp: is_digit_digits)

lemma of_char_digits: "k < 10 \<Longrightarrow> of_char (digits ! k) = (of_nat (48 + k) :: u32)"
  using digits_10 [of k] by (metis of_nat_of_char)

lemma atoi_int_digits: "atoi (rev (int_digits 10 x)) = of_nat x"
proof (induction "10::nat" x rule: int_digits.induct)
  case (1 x)
  let ?d = "digits ! (x mod 10)"
  show ?case
  proof (cases "x div 10 = 0")
    case True
    then show ?thesis
      by (subst int_digits.simps) (simp add: atoi_def is_digit_digits of_char_digits)
  next
    case False
    have "atoi (rev (int_digits 10 x)) = atoi_loop 0 (rev (int_digits 10 (x div 10)) @ [?d])"
      using False by (subst int_digits.simps) (simp add: atoi_def)
    also have "\<dots> = of_nat (x div 10) * 10 + of_nat (48 + x mod 10) - 48"
      using 1 False
      by (simp add: atoi_loop_snoc int_digits_digit is_digit_digits of_char_digits atoi_def)
    also have "\<dots> = of_nat (x div 10 * 10 + x mod 10)"
      by (subst of_nat_add, subst of_nat_mult) simp
    finally show ?thesis by simp
  qed
qed

text \<open>
  \<^verbatim>\<open>atoi\<close> reads back what \<^verbatim>\<open>%d\<close> prints, for every number that is not negative.
\<close>

lemma atoi_printint:
  assumes "0 \<le>s x"
  shows "atoi (int_text x 10 True) = x"
proof -
  have "\<not> x <s 0" using assms by (simp add: word_sless_alt word_sle_eq)
  then show ?thesis by (simp add: int_text_def atoi_int_digits)
qed

text \<open>
  \<^verbatim>\<open>printint\<close> stays inside its buffer: for every number and the bases 10 and 16 the
  text has at most 11 characters, of the 16 that \<^verbatim>\<open>buf\<close> has room for.
\<close>

lemma printint_fits: "10 \<le> base \<Longrightarrow> 0 < length (int_text x base sg) \<and> length (int_text x base sg) \<le> 11"
proof -
  assume b: "10 \<le> base"
  have "unat (y :: u32) < base ^ Suc 9" for y
  proof -
    have "unat y < 10 ^ 10" using unsigned_less [of y, where 'a = nat] by simp
    also have "\<dots> \<le> base ^ 10" using b by (rule power_mono) simp
    finally show ?thesis by simp
  qed
  then have "length (int_digits base (unat (y :: u32))) \<le> 10" for y
    using int_digits_length [of base "unat y" 9] b by simp
  moreover have "0 < length (int_digits base n)" for n
    by (subst int_digits.simps) simp
  ultimately show ?thesis by (auto simp: int_text_def Let_def intro: le_trans [of _ 10])
qed

section \<open>The two memory libraries\<close>


end
