(* ===== verification/Grep.thy ===== *)
theory Grep
  imports Ulib
begin

text \<open>
  grep.c: the regular-expression matcher of Kernighan and Pike and the program around it.
  The matcher is shown to decide the language that a pattern denotes, and the program to print
  the matching lines of its input whatever way \<^verbatim>\<open>read\<close> cuts the input up.
\<close>

section \<open>The matcher\<close>

function matchhere :: "string \<Rightarrow> string \<Rightarrow> bool" and matchstar :: "char \<Rightarrow> string \<Rightarrow> string \<Rightarrow> bool" where
  "matchhere re tx =
     (case re of
        [] \<Rightarrow> True
      | c # re1 \<Rightarrow>
          if chr_at re1 = CHR ''*'' then matchstar c (tl re1) tx
          else if c = CHR ''$'' \<and> re1 = [] then tx = []
          else case tx of
            [] \<Rightarrow> False
          | t # tx1 \<Rightarrow> (c = CHR ''.'' \<or> c = t) \<and> matchhere re1 tx1)"
| "matchstar c re tx =
     (matchhere re tx \<or>
      (case tx of [] \<Rightarrow> False | t # tx1 \<Rightarrow> (t = c \<or> c = CHR ''.'') \<and> matchstar c re tx1))"
  by pat_completeness auto
termination
  by (relation "measures [\<lambda>x. case x of Inl (re, tx) \<Rightarrow> length re | Inr (c, re, tx) \<Rightarrow> Suc (length re),
        \<lambda>x. case x of Inl (re, tx) \<Rightarrow> length tx | Inr (c, re, tx) \<Rightarrow> length tx]")
    (auto simp: chr_at_def split: list.splits)

declare matchhere.simps [simp del] matchstar.simps [simp del]

fun match_from :: "string \<Rightarrow> string \<Rightarrow> bool" where
  "match_from re tx =
     (matchhere re tx \<or> (case tx of [] \<Rightarrow> False | _ # tx1 \<Rightarrow> match_from re tx1))"

declare match_from.simps [simp del]

definition match :: "string \<Rightarrow> string \<Rightarrow> bool" where
  "match re tx =
     (case re of c # re1 \<Rightarrow> if c = CHR ''^'' then matchhere re1 tx else match_from re tx
      | [] \<Rightarrow> match_from re tx)"

section \<open>The program\<close>

text \<open>
  The inner loop of \<^verbatim>\<open>grep\<close> on the bytes \<open>p\<close> of the buffer: it writes the lines that match and
  gives what follows the last newline.
\<close>

lemma strchr_length: "strchr s c = Some q \<Longrightarrow> q \<noteq> [] \<and> length (tl q) < length s"
  by (induction s c rule: strchr.induct) (auto split: if_splits)

function print_lines :: "'w sys \<Rightarrow> string \<Rightarrow> string \<Rightarrow> (string, 'w) km" where
  "print_lines S pattern p =
     (case strchr p (CHR 0x0A) of
        None \<Rightarrow> ret p
      | Some q \<Rightarrow>
          let l = take (length p - length q) p
          in if match pattern l
             then seq (uwrite S 1 (l @ [CHR 0x0A])) (print_lines S pattern (tl q))
             else print_lines S pattern (tl q))"
  by pat_completeness auto
termination
  by (relation "measure (\<lambda>(S, pattern, p). length p)")
    (auto dest!: strchr_length)

declare print_lines.simps [simp del]

text \<open>One turn of the outer loop; \<open>buf\<close> holds the \<^verbatim>\<open>m\<close> bytes kept of the previous one.\<close>

definition grep_turn :: "'w sys \<Rightarrow> string \<Rightarrow> int \<Rightarrow> string \<Rightarrow> (string + unit, 'w) km" where
  "grep_turn S pattern fd buf =
     bind (call (sys_read S fd (1024 - length buf - 1))) (\<lambda>r.
       case r of
         None \<Rightarrow> ret (Inr ())
       | Some d \<Rightarrow>
           if d = [] then ret (Inr ())
           else bind (print_lines S pattern (buf @ d)) (\<lambda>rest. ret (Inl rest)))"

definition grep :: "nat \<Rightarrow> 'w sys \<Rightarrow> string \<Rightarrow> int \<Rightarrow> (unit, 'w) km" where
  "grep fuel S pattern fd = loop fuel (grep_turn S pattern fd) []"

definition grep_main :: "nat \<Rightarrow> 'w sys \<Rightarrow> string list \<Rightarrow> (unit, 'w) km" where
  "grep_main fuel S argv =
     (if length argv \<le> 1
      then seq (fprintf S 2 ''usage: grep pattern [file ...]\<newline>'' []) (exit 1)
      else if length argv \<le> 2
      then seq (grep fuel S (argv ! 1) 0) (exit 0)
      else
        seq (forall_do (drop 2 argv) (\<lambda>name.
          bind (call (sys_open S name 0)) (\<lambda>fd.
            if fd < 0
            then seq (printf S ''grep: cannot open %s\<newline>'' [AStr (Some name)]) (exit 1)
            else seq (grep fuel S (argv ! 1) fd)
              (seq (call (sys_close S fd)) (ret ())))))
        (exit 0))"

section \<open>The language of a pattern\<close>

text \<open>
  A pattern is a sequence of single characters, starred characters, and possibly an end-of-text
  mark at the very end. \<open>lang is\<close> is the set of strings the sequence denotes.
\<close>

datatype item = One char | Star char | Eot

fun items :: "string \<Rightarrow> item list" where
  "items [] = []"
| "items [c] = (if c = CHR ''$'' then [Eot] else [One c])"
| "items (c # d # re) = (if d = CHR ''*'' then Star c # items re else One c # items (d # re))"

definition accepts :: "char \<Rightarrow> char \<Rightarrow> bool" where
  "accepts c t \<longleftrightarrow> c = CHR ''.'' \<or> c = t"

fun lang :: "item list \<Rightarrow> string set" where
  "lang [] = {[]}"
| "lang (One c # is) = {t # u | t u. accepts c t \<and> u \<in> lang is}"
| "lang (Star c # is) = {v @ u | v u. list_all (accepts c) v \<and> u \<in> lang is}"
| "lang (Eot # is) = lang is"

definition anchored :: "item list \<Rightarrow> bool" where
  "anchored is \<longleftrightarrow> Eot \<in> set is"

text \<open>A prefix of the text is in the language; all of it, if the pattern is anchored at the end.\<close>

definition prefix_in :: "item list \<Rightarrow> string \<Rightarrow> bool" where
  "prefix_in is tx \<longleftrightarrow> (\<exists>u v. tx = u @ v \<and> u \<in> lang is \<and> (anchored is \<longrightarrow> v = []))"

lemma items_Cons: "chr_at re \<noteq> CHR ''*'' \<Longrightarrow> re \<noteq> [] \<or> c \<noteq> CHR ''$'' \<Longrightarrow> items (c # re) = One c # items re"
  by (cases re) (auto simp: chr_at_def)

lemma items_star: "chr_at re = CHR ''*'' \<Longrightarrow> items (c # re) = Star c # items (tl re)"
  by (cases re) (auto simp: chr_at_def)

lemma prefix_in_Nil [simp]: "prefix_in [] tx"
  by (simp add: prefix_in_def anchored_def)

lemma prefix_in_Eot: "prefix_in [Eot] tx \<longleftrightarrow> tx = []"
  by (simp add: prefix_in_def anchored_def)

lemma prefix_inI: "u \<in> lang is \<Longrightarrow> (anchored is \<Longrightarrow> v = []) \<Longrightarrow> tx = u @ v \<Longrightarrow> prefix_in is tx"
  by (auto simp: prefix_in_def)

lemma prefix_inE:
  assumes "prefix_in is tx"
  obtains u v where "tx = u @ v" "u \<in> lang is" "anchored is \<Longrightarrow> v = []"
  using assms by (auto simp: prefix_in_def)

lemma anchored_Cons [simp]: "anchored (One c # is) = anchored is" "anchored (Star c # is) = anchored is"
  by (simp_all add: anchored_def)

lemma prefix_in_One: "prefix_in (One c # is) tx \<longleftrightarrow>
    (\<exists>t tx1. tx = t # tx1 \<and> accepts c t \<and> prefix_in is tx1)"
proof
  assume "prefix_in (One c # is) tx"
  then obtain x v where x: "tx = x @ v" "x \<in> lang (One c # is)" "anchored is \<Longrightarrow> v = []"
    by (rule prefix_inE) (simp del: lang.simps)
  then obtain t u where *: "tx = t # u @ v" "accepts c t" "u \<in> lang is" "anchored is \<Longrightarrow> v = []"
    by auto
  from *(3,4) refl have "prefix_in is (u @ v)" by (rule prefix_inI)
  with * show "\<exists>t tx1. tx = t # tx1 \<and> accepts c t \<and> prefix_in is tx1" by blast
next
  assume "\<exists>t tx1. tx = t # tx1 \<and> accepts c t \<and> prefix_in is tx1"
  then obtain t tx1 where *: "tx = t # tx1" "accepts c t" "prefix_in is tx1" by blast
  from *(3) obtain u v where u: "tx1 = u @ v" "u \<in> lang is" "anchored is \<Longrightarrow> v = []"
    by (rule prefix_inE) blast
  with * show "prefix_in (One c # is) tx"
    by (intro prefix_inI [of "t # u" _ v]) auto
qed

lemma prefix_in_Star: "prefix_in (Star c # is) tx \<longleftrightarrow>
    prefix_in is tx \<or> (\<exists>t tx1. tx = t # tx1 \<and> accepts c t \<and> prefix_in (Star c # is) tx1)"
  (is "?l \<longleftrightarrow> ?r")
proof
  assume ?l
  then obtain x w where x: "tx = x @ w" "x \<in> lang (Star c # is)" "anchored is \<Longrightarrow> w = []"
    by (rule prefix_inE) (simp del: lang.simps)
  then obtain v u where *: "x = v @ u" "list_all (accepts c) v" "u \<in> lang is" by auto
  show ?r
  proof (cases v)
    case Nil
    then have "prefix_in is tx" using x * by (intro prefix_inI [of u _ w]) auto
    then show ?thesis ..
  next
    case (Cons t v')
    then have "v' @ u \<in> lang (Star c # is)" using * by auto
    then have "prefix_in (Star c # is) (v' @ u @ w)"
      using x(3) by (intro prefix_inI [of "v' @ u" _ w]) (simp_all del: lang.simps)
    with x * Cons show ?thesis by auto
  qed
next
  assume ?r
  then show ?l
  proof
    assume "prefix_in is tx"
    then obtain u w where u: "tx = u @ w" "u \<in> lang is" "anchored is \<Longrightarrow> w = []"
      by (rule prefix_inE) blast
    then have "u \<in> lang (Star c # is)" by (simp, intro exI [of _ "[]"] exI [of _ u]) simp
    with u show ?l by (intro prefix_inI [of u _ w]) (simp_all del: lang.simps)
  next
    assume "\<exists>t tx1. tx = t # tx1 \<and> accepts c t \<and> prefix_in (Star c # is) tx1"
    then obtain t x w where x: "tx = t # x @ w" "accepts c t" "x \<in> lang (Star c # is)"
        "anchored is \<Longrightarrow> w = []"
      by (auto elim!: prefix_inE simp del: lang.simps)
    then obtain v u where *: "x = v @ u" "list_all (accepts c) v" "u \<in> lang is" by auto
    then have "t # x \<in> lang (Star c # is)" using x(2) by (simp, intro exI [of _ "t # v"] exI [of _ u]) simp
    with x show ?l by (intro prefix_inI [of "t # x" _ w]) (simp_all del: lang.simps)
  qed
qed

lemma match_prefix:
  "matchhere re tx \<longleftrightarrow> prefix_in (items re) tx"
  "matchstar c re tx \<longleftrightarrow> prefix_in (Star c # items re) tx"
proof (induction re tx and c re tx rule: matchhere_matchstar.induct)
  case (1 re tx)
  show ?case
  proof (cases re)
    case (Cons c re1)
    then show ?thesis using 1 
      by (subst matchhere.simps)
       (auto simp: items_star items_Cons prefix_in_Eot prefix_in_One accepts_def split: list.splits)
  qed (simp add: matchhere.simps)
next
  case (2 c re tx)
  then show ?case
    by (subst matchstar.simps, subst prefix_in_Star) (auto simp: accepts_def split: list.splits)
qed

lemma match_from_iff: "match_from re tx \<longleftrightarrow> (\<exists>u v. tx = u @ v \<and> matchhere re v)"
proof (induction tx)
  case Nil
  then show ?case by (subst match_from.simps) simp
next
  case (Cons t tx)
  then show ?case
    by (subst match_from.simps) (auto simp: Cons_eq_append_conv)
qed

text \<open>
  C12: \<^verbatim>\<open>match\<close> decides the language of the pattern. A text matches exactly when it has a
  substring in the language that the pattern denotes, at the start if the pattern begins with \<^verbatim>\<open>^\<close>,
  and reaching to the end if it ends with \<^verbatim>\<open>$\<close> (\<open>prefix_in\<close>). The matcher always terminates: it is a total function.
\<close>

theorem match_correct:
  "match re tx \<longleftrightarrow>
     (if chr_at re = CHR ''^'' then prefix_in (items (tl re)) tx
      else \<exists>u v. tx = u @ v \<and> prefix_in (items re) v)"
proof (cases "chr_at re = CHR ''^''")
  case True
  then obtain re1 where "re = CHR ''^'' # re1" by (cases re) (auto simp: chr_at_def)
  then show ?thesis by (simp add: match_def match_prefix chr_at_def)
next
  case False
  then have "match re tx = match_from re tx"
    by (cases re) (auto simp: match_def chr_at_def)
  with False show ?thesis by (simp add: match_from_iff match_prefix)
qed

section \<open>The lines of the input\<close>

text \<open>The lines of a text that end in a newline, and what follows the last one.\<close>

fun lines_of :: "string \<Rightarrow> string \<Rightarrow> string list \<times> string" where
  "lines_of l [] = ([], l)"
| "lines_of l (c # s) =
     (if c = CHR 0x0A then apfst ((#) l) (lines_of [] s) else lines_of (l @ [c]) s)"

definition grepped :: "string \<Rightarrow> string list \<Rightarrow> string" where
  "grepped pattern ls = concat (map (\<lambda>l. l @ [CHR 0x0A]) (filter (match pattern) ls))"

lemma lines_of_append:
  "lines_of l (s @ t) = (let (ls, r) = lines_of l s in apfst (append ls) (lines_of r t))"
  by (induction l s rule: lines_of.induct) (auto simp: Let_def apfst_def map_prod_def split: prod.splits)

lemma lines_of_no_nl: "CHR 0x0A \<notin> set s \<Longrightarrow> lines_of l s = ([], l @ s)"
  by (induction s arbitrary: l) auto

lemma strchr_nl:
  "CHR 0x00 \<notin> set s \<Longrightarrow>
     (case strchr s (CHR 0x0A) of
        None \<Rightarrow> CHR 0x0A \<notin> set s
      | Some q \<Rightarrow> \<exists>l. s = l @ q \<and> hd q = CHR 0x0A \<and> CHR 0x0A \<notin> set l)"
  by (induction s) (auto simp: Cons_eq_append_conv split: option.splits intro: exI [of _ "_ # _"])

lemma lines_of_prefix:
  "fst (lines_of l s) = [] \<and> (\<exists>u. snd (lines_of l s) = l @ u) \<or>
   (\<exists>u ls. fst (lines_of l s) = (l @ u) # ls)"
proof (induction s arbitrary: l)
  case (Cons a s)
  then show ?case using Cons.IH [of "l @ [a]"] by auto
qed simp

lemma lines_of_rest: "CHR 0x0A \<notin> set l \<Longrightarrow> CHR 0x0A \<notin> set (snd (lines_of l s))"
  by (induction l s rule: lines_of.induct) auto

lemma lines_of_set: "set (snd (lines_of l s)) \<subseteq> set l \<union> set s"
  by (induction l s rule: lines_of.induct) auto

lemma print_lines_emits:
  assumes W: "writes S 1 inp out" and "CHR 0x00 \<notin> set p"
  shows "\<exists>w'. print_lines S pattern p w = Ret (snd (lines_of [] p)) w' \<and>
     out w' = out w @ grepped pattern (fst (lines_of [] p)) \<and> inp w' = inp w"
  using assms(2)
proof (induction p arbitrary: w rule: length_induct)
  case (1 p)
  show ?case
  proof (cases "strchr p (CHR 0x0A)")
    case None
    then have "lines_of [] p = ([], p)"
      using strchr_nl [OF "1.prems"] lines_of_no_nl [of p "[]"] by simp
    with None show ?thesis
      by (subst print_lines.simps) (simp add: km_simps grepped_def)
  next
    case (Some q)
    then obtain l q' where p: "p = l @ CHR 0x0A # q'" "q = CHR 0x0A # q'" "CHR 0x0A \<notin> set l"
      using strchr_nl [OF "1.prems"] strchr_length [OF Some] by (cases q) auto
    have ls: "lines_of [] p = apfst ((#) l) (lines_of [] q')"
      using p by (simp add: lines_of_append lines_of_no_nl apfst_def map_prod_def split: prod.splits)
    have IH: "\<exists>w'. print_lines S pattern q' v = Ret (snd (lines_of [] q')) w' \<and>
        out w' = out v @ grepped pattern (fst (lines_of [] q')) \<and> inp w' = inp v" for v
      using "1.IH" "1.prems" p by simp
    obtain w1 where w1: "sys_write S 1 (l @ [CHR 0x0A]) w = (int (length (l @ [CHR 0x0A])), w1)"
        "out w1 = out w @ l @ [CHR 0x0A]" "inp w1 = inp w"
      using W by (rule writesE)
    show ?thesis
      using IH [of w] IH [of w1] w1 Some p ls
      by (subst print_lines.simps) (auto simp: km_simps uwrite_def grepped_def)
  qed
qed

text \<open>Every line of the input fits in the buffer with its newline.\<close>

definition fits :: "string \<Rightarrow> string \<Rightarrow> bool" where
  "fits l s \<longleftrightarrow> (\<forall>x \<in> set (fst (lines_of l s)) \<union> {snd (lines_of l s)}. length x < 1023)"

lemma fits_room: "fits l s \<Longrightarrow> length l < 1023"
  using lines_of_prefix [of l s] by (auto simp: fits_def)

lemma grep_loop_emits:
  assumes R: "reads S fd inp out" and W: "writes S 1 inp out"
  shows "length (inp w) < fuel \<Longrightarrow> CHR 0x00 \<notin> set (buf @ inp w) \<Longrightarrow> CHR 0x0A \<notin> set buf \<Longrightarrow> fits buf (inp w) \<Longrightarrow>
    \<exists>w'. loop fuel (grep_turn S pattern fd) buf w = Ret () w' \<and>
      out w' = out w @ grepped pattern (fst (lines_of buf (inp w))) \<and> inp w' = []"
proof (induction fuel arbitrary: buf w)
  case (Suc fuel)
  let ?n = "1024 - length buf - 1"
  have n: "0 < ?n" using fits_room [OF Suc.prems(4)] by simp
  obtain d w1 where d: "sys_read S fd ?n w = (Some d, w1)" "inp w = d @ inp w1" "out w1 = out w"
      "inp w \<noteq> [] \<Longrightarrow> d \<noteq> []"
    using R by (rule readsE [where n = ?n and w = w]) (use n in blast)
  show ?case
  proof (cases "d = []")
    case True
    then have e: "inp w = []" using d(4) by blast
    then have "inp w1 = []" using d(2) by simp
    then show ?thesis using d(1,3) True e by (simp add: grep_turn_def km_simps grepped_def)
  next
    case False
    let ?L = "lines_of [] (buf @ d)"
    have L: "?L = lines_of buf d"
      using Suc.prems(3) by (simp add: lines_of_append lines_of_no_nl apfst_def map_prod_def split: prod.splits)
    obtain w2 where w2: "print_lines S pattern (buf @ d) w1 = Ret (snd ?L) w2"
        "out w2 = out w1 @ grepped pattern (fst ?L)" "inp w2 = inp w1"
      using print_lines_emits [OF W, of "buf @ d" pattern w1] Suc.prems(2) d(2) by auto
    have all: "lines_of buf (inp w) = apfst (append (fst ?L)) (lines_of (snd ?L) (inp w2))"
      using d(2) w2(3) L by (simp add: lines_of_append split: prod.splits)
    have "\<exists>w'. loop fuel (grep_turn S pattern fd) (snd ?L) w2 = Ret () w' \<and>
      out w' = out w2 @ grepped pattern (fst (lines_of (snd ?L) (inp w2))) \<and> inp w' = []"
    proof (rule Suc.IH)
      show "length (inp w2) < fuel" using Suc.prems(1) d(2) w2(3) False by (cases d) auto
      show "CHR 0x0A \<notin> set (snd ?L)" by (rule lines_of_rest) simp
      show "fits (snd ?L) (inp w2)" using Suc.prems(4) unfolding fits_def all by auto
      show "CHR 0x00 \<notin> set (snd ?L @ inp w2)"
        using Suc.prems(2) d(2) w2(3) lines_of_set [of "[]" "buf @ d"] by auto
    qed
    moreover have "grep_turn S pattern fd buf w = Ret (Inl (snd ?L)) w2"
      using d(1) w2(1) False by (simp add: grep_turn_def km_simps)
    ultimately show ?thesis
      using d(3) w2(2) by (auto simp: bind_def grepped_def all)
  qed
qed simp

text \<open>
  C34: \<^verbatim>\<open>grep\<close> prints the matching lines. For an input of text whose lines all fit in the
  1024-byte buffer, and however \<^verbatim>\<open>read\<close> cuts it into pieces, \<^verbatim>\<open>grep\<close> returns having read all of it,
  and has written exactly the newline-terminated lines that match, in order. It runs at most once
  round its loop per byte and once more for the end of file.
\<close>

theorem grep_prints:
  assumes "reads S fd inp out" "writes S 1 inp out" "CHR 0x00 \<notin> set (inp w)" "fits [] (inp w)"
    and "length (inp w) < fuel"
  shows "\<exists>w'. grep fuel S pattern fd w = Ret () w' \<and> inp w' = [] \<and>
    out w' = out w @ grepped pattern (fst (lines_of [] (inp w)))"
  using grep_loop_emits [OF assms(1,2,5), of "[]" pattern] assms(3,4) by (auto simp: grep_def)

theorem grep_prints_witness:
  "\<exists>w'. grep 20 stdio ''^ab*$'' 0 (''abb\<newline>xab\<newline>a\<newline>ab'', []) = Ret () w' \<and> fst w' = [] \<and>
     snd w' = ''abb\<newline>a\<newline>''"
proof -
  have "grepped ''^ab*$'' (fst (lines_of [] ''abb\<newline>xab\<newline>a\<newline>ab'')) = ''abb\<newline>a\<newline>''"
    by code_simp
  then show ?thesis
    using grep_prints [OF stdio_reads stdio_writes, of "(''abb\<newline>xab\<newline>a\<newline>ab'', [])" 20 "''^ab*$''" 0]
    by (simp add: fits_def)
qed

end
