(* ===== verification/Tools.thy ===== *)
theory Tools
  imports Ulib
begin

text \<open>
  The small user programs: cat, echo, wc, ls, kill, ln, mkdir, rm, init and zombie. Each \<^verbatim>\<open>main\<close> takes
  the argument vector and runs to its \<^verbatim>\<open>exit\<close>. The loops over a file take fuel, and the
  theorems say that one turn per byte of input is enough. \<^verbatim>\<open>init\<close> is meant to run forever: it uses
  the fuel up.
\<close>

section \<open>cat.c\<close>

definition cat_turn :: "'w sys \<Rightarrow> int \<Rightarrow> unit \<Rightarrow> (unit + unit, 'w) km" where
  "cat_turn S fd _ =
     bind (call (sys_read S fd 512)) (\<lambda>r.
       case r of
         None \<Rightarrow> seq (fprintf S 2 ''cat: read error\<newline>'' []) (exit 1)
       | Some d \<Rightarrow>
           if d = [] then ret (Inr ())
           else bind (uwrite S 1 d) (\<lambda>n.
             if n \<noteq> int (length d) then seq (fprintf S 2 ''cat: write error\<newline>'' []) (exit 1)
             else ret (Inl ())))"

definition cat :: "nat \<Rightarrow> 'w sys \<Rightarrow> int \<Rightarrow> (unit, 'w) km" where
  "cat fuel S fd = loop fuel (cat_turn S fd) ()"

definition cat_main :: "nat \<Rightarrow> 'w sys \<Rightarrow> string list \<Rightarrow> (unit, 'w) km" where
  "cat_main fuel S argv =
     (if length argv \<le> 1 then seq (cat fuel S 0) (exit 0)
      else
        seq (forall_do (drop 1 argv) (\<lambda>name.
          bind (call (sys_open S name 0)) (\<lambda>fd.
            if fd < 0
            then seq (fprintf S 2 ''cat: cannot open %s\<newline>'' [AStr (Some name)]) (exit 1)
            else seq (cat fuel S fd) (seq (call (sys_close S fd)) (ret ())))))
        (exit 0))"

section \<open>echo.c\<close>

definition echo_main :: "'w sys \<Rightarrow> string list \<Rightarrow> (unit, 'w) km" where
  "echo_main S argv =
     seq (forall_do [1..<length argv] (\<lambda>i.
       seq (uwrite S 1 (argv ! i))
       (seq (uwrite S 1 (if i + 1 < length argv then '' '' else ''\<newline>'')) (ret ()))))
     (exit 0)"

section \<open>wc.c\<close>

record wcs =
  wc_l :: u32
  wc_w :: u32
  wc_c :: u32
  inword :: bool

definition wc_byte :: "char \<Rightarrow> wcs \<Rightarrow> wcs" where
  "wc_byte b s =
     (let s = s\<lparr>wc_c := wc_c s + 1\<rparr>;
          s = (if b = CHR 0x0A then s\<lparr>wc_l := wc_l s + 1\<rparr> else s)
      in if strchr [CHR '' '', CHR 0x0D, CHR 0x09, CHR 0x0A, CHR 0x0B] b \<noteq> None then s\<lparr>inword := False\<rparr>
         else if \<not> inword s then s\<lparr>wc_w := wc_w s + 1, inword := True\<rparr>
         else s)"

definition wc_turn :: "'w sys \<Rightarrow> int \<Rightarrow> wcs \<Rightarrow> (wcs + wcs, 'w) km" where
  "wc_turn S fd s =
     bind (call (sys_read S fd 512)) (\<lambda>r.
       case r of
         None \<Rightarrow> seq (printf S ''wc: read error\<newline>'' []) (exit 1)
       | Some d \<Rightarrow> if d = [] then ret (Inr s) else ret (Inl (fold wc_byte d s)))"

definition wc :: "nat \<Rightarrow> 'w sys \<Rightarrow> int \<Rightarrow> string \<Rightarrow> (unit, 'w) km" where
  "wc fuel S fd name =
     bind (loop fuel (wc_turn S fd) \<lparr>wc_l = 0, wc_w = 0, wc_c = 0, inword = False\<rparr>) (\<lambda>s.
     printf S ''%d %d %d %s\<newline>''
       [AWord (ucast (wc_l s)), AWord (ucast (wc_w s)), AWord (ucast (wc_c s)), AStr (Some name)])"

definition wc_main :: "nat \<Rightarrow> 'w sys \<Rightarrow> string list \<Rightarrow> (unit, 'w) km" where
  "wc_main fuel S argv =
     (if length argv \<le> 1 then seq (wc fuel S 0 []) (exit 0)
      else
        seq (forall_do (drop 1 argv) (\<lambda>name.
          bind (call (sys_open S name 0)) (\<lambda>fd.
            if fd < 0
            then seq (printf S ''wc: cannot open %s\<newline>'' [AStr (Some name)]) (exit 1)
            else seq (wc fuel S fd name) (seq (call (sys_close S fd)) (ret ())))))
        (exit 0))"

section \<open>ls.c\<close>

text \<open>The characters after the last slash before position \<open>n\<close>, found from the end.\<close>

primrec after_slash :: "string \<Rightarrow> nat \<Rightarrow> string" where
  "after_slash path 0 = path"
| "after_slash path (Suc n) =
     (if path ! n = CHR ''/'' then drop (Suc n) path else after_slash path n)"

definition fmtname :: "string \<Rightarrow> string" where
  "fmtname path =
     (let p = after_slash path (length path)
      in if length p \<ge> 14 then p else p @ replicate (14 - length p) (CHR '' ''))"

definition c_string :: "string \<Rightarrow> string" where
  "c_string s = takeWhile (\<lambda>c. c \<noteq> CHR 0x00) s"

definition ls_turn :: "'w sys \<Rightarrow> int \<Rightarrow> string \<Rightarrow> unit \<Rightarrow> (unit + unit, 'w) km" where
  "ls_turn S fd path _ =
     bind (call (sys_read S fd 16)) (\<lambda>r.
       case r of
         None \<Rightarrow> ret (Inr ())
       | Some de \<Rightarrow>
           if length de \<noteq> 16 then ret (Inr ())
           else if de ! 0 = CHR 0x00 \<and> de ! 1 = CHR 0x00 then ret (Inl ())
           else let buf = path @ ''/'' @ c_string (drop 2 de)
             in bind (stat S buf) (\<lambda>st.
               case st of
                 None \<Rightarrow> seq (printf S ''ls: cannot stat %s\<newline>'' [AStr (Some buf)]) (ret (Inl ()))
               | Some st \<Rightarrow>
                   seq (printf S ''%s %d %d %d\<newline>'' [AStr (Some (fmtname buf)), AWord (of_nat (st_type st)),
                     AWord (of_nat (st_ino st)), AWord (of_nat (st_size st))]) (ret (Inl ()))))"

definition ls :: "nat \<Rightarrow> 'w sys \<Rightarrow> string \<Rightarrow> (unit, 'w) km" where
  "ls fuel S path =
     bind (call (sys_open S path 0)) (\<lambda>fd.
     if fd < 0 then fprintf S 2 ''ls: cannot open %s\<newline>'' [AStr (Some path)]
     else bind (call (sys_fstat S fd)) (\<lambda>st.
       case st of
         None \<Rightarrow> seq (fprintf S 2 ''ls: cannot stat %s\<newline>'' [AStr (Some path)])
           (seq (call (sys_close S fd)) (ret ()))
       | Some st \<Rightarrow>
           seq (if st_type st = 3 \<or> st_type st = 2
                then printf S ''%s %d %d %l\<newline>'' [AStr (Some (fmtname path)), AWord (of_nat (st_type st)),
                  AWord (of_nat (st_ino st)), AWord (of_nat (st_size st))]
                else if st_type st = 1
                then if length path + 1 + 14 + 1 > 512 then printf S ''ls: path too long\<newline>'' []
                  else loop fuel (ls_turn S fd path) ()
                else ret ())
           (seq (call (sys_close S fd)) (ret ()))))"

definition ls_main :: "nat \<Rightarrow> 'w sys \<Rightarrow> string list \<Rightarrow> (unit, 'w) km" where
  "ls_main fuel S argv =
     (if length argv < 2 then seq (ls fuel S ''.'') (exit 0)
      else seq (forall_do (drop 1 argv) (ls fuel S)) (exit 0))"

section \<open>kill.c, ln.c, mkdir.c, rm.c\<close>

definition kill_main :: "'w sys \<Rightarrow> string list \<Rightarrow> (unit, 'w) km" where
  "kill_main S argv =
     (if length argv < 2 then seq (fprintf S 2 ''usage: kill pid...\<newline>'' []) (exit 1)
      else seq (forall_do (drop 1 argv) (\<lambda>a. seq (call (sys_kill S (atoi a))) (ret ()))) (exit 0))"

definition ln_main :: "'w sys \<Rightarrow> string list \<Rightarrow> (unit, 'w) km" where
  "ln_main S argv =
     (if length argv \<noteq> 3 then seq (fprintf S 2 ''Usage: ln old new\<newline>'' []) (exit 1)
      else bind (call (sys_link S (argv ! 1) (argv ! 2))) (\<lambda>r.
        seq (if r < 0 then fprintf S 2 ''link %s %s: failed\<newline>'' [AStr (Some (argv ! 1)), AStr (Some (argv ! 2))]
             else ret ())
          (exit 0)))"

definition mkdir_main :: "'w sys \<Rightarrow> string list \<Rightarrow> (unit, 'w) km" where
  "mkdir_main S argv =
     (if length argv < 2 then seq (fprintf S 2 ''Usage: mkdir files...\<newline>'' []) (exit 1)
      else seq (for_until (drop 1 argv) (\<lambda>a.
          bind (call (sys_mkdir S a)) (\<lambda>r.
            if r < 0 then seq (fprintf S 2 ''mkdir: %s failed to create\<newline>'' [AStr (Some a)]) (ret (Some ()))
            else ret None)))
        (exit 0))"

definition rm_main :: "'w sys \<Rightarrow> string list \<Rightarrow> (unit, 'w) km" where
  "rm_main S argv =
     (if length argv < 2 then seq (fprintf S 2 ''Usage: rm files...\<newline>'' []) (exit 1)
      else seq (for_until (drop 1 argv) (\<lambda>a.
          bind (call (sys_unlink S a)) (\<lambda>r.
            if r < 0 then seq (fprintf S 2 ''rm: %s failed to delete\<newline>'' [AStr (Some a)]) (ret (Some ()))
            else ret None)))
        (exit 0))"

section \<open>init.c and zombie.c\<close>

text \<open>The inner loop of \<^verbatim>\<open>init\<close>: wait until the shell \<open>pid\<close> has exited.\<close>

definition init_wait :: "'w sys \<Rightarrow> int \<Rightarrow> unit \<Rightarrow> (unit + unit, 'w) km" where
  "init_wait S pid _ =
     bind (call (sys_wait S)) (\<lambda>wpid.
       if wpid = pid then ret (Inr ())
       else if wpid < 0 then seq (printf S ''init: wait returned an error\<newline>'' []) (exit 1)
       else ret (Inl ()))"

definition init_turn :: "nat \<Rightarrow> 'w sys \<Rightarrow> unit \<Rightarrow> (unit + unit, 'w) km" where
  "init_turn fuel S _ =
     seq (printf S ''init: starting sh\<newline>'' [])
     (bind (call (sys_fork S)) (\<lambda>pid.
       if pid < 0 then seq (printf S ''init: fork failed\<newline>'' []) (exit 1)
       else if pid = 0 then
         seq (exec S ''sh'' [''sh''])
         (seq (printf S ''init: exec sh failed\<newline>'' []) (exit 1))
       else seq (loop fuel (init_wait S pid) ()) (ret (Inl ()))))"

definition init_main :: "nat \<Rightarrow> 'w sys \<Rightarrow> (unit, 'w) km" where
  "init_main fuel S =
     bind (call (sys_open S ''console'' 2)) (\<lambda>fd.
     seq (if fd < 0 then seq (call (sys_mknod S ''console'' 1 0)) (call (sys_open S ''console'' 2)) else ret fd)
     (seq (call (sys_dup S 0))
     (seq (call (sys_dup S 0))
     (loop fuel (init_turn fuel S) ()))))"

definition zombie_main :: "'w sys \<Rightarrow> (unit, 'w) km" where
  "zombie_main S =
     bind (call (sys_fork S)) (\<lambda>pid.
     seq (if pid > 0 then seq (call (sys_sleep S 5)) (ret ()) else ret ())
     (exit 0))"

section \<open>cat copies\<close>

text \<open>
  \<^verbatim>\<open>cat\<close> copies its input to its output, byte for byte and whatever sizes the reads come in,
  and returns after at most one turn per byte and one for the end of file.
\<close>

lemma cat_copies:
  assumes R: "reads S fd inp out" and W: "writes S 1 inp out"
  shows "length (inp w) < fuel \<Longrightarrow>
    \<exists>w'. cat fuel S fd w = Ret () w' \<and> inp w' = [] \<and> out w' = out w @ inp w"
  unfolding cat_def
proof (induction fuel arbitrary: w)
  case (Suc fuel)
  obtain d w1 where d: "sys_read S fd 512 w = (Some d, w1)" "inp w = d @ inp w1" "out w1 = out w"
      "inp w \<noteq> [] \<Longrightarrow> d \<noteq> []"
    using R by (rule readsE [where n = 512 and w = w]) (meson zero_less_numeral)
  show ?case
  proof (cases "d = []")
    case True
    then have e: "inp w = []" using d(4) by blast
    then have "inp w1 = []" using d(2) by simp
    with d(1,3) e True show ?thesis by (simp add: cat_turn_def km_simps)
  next
    case False
    obtain w2 where w2: "sys_write S 1 d w1 = (int (length d), w2)" "out w2 = out w1 @ d" "inp w2 = inp w1"
      using W by (rule writesE)
    have "length (inp w2) < fuel" using Suc.prems d(2) w2(3) False by (cases d) auto
    then obtain w' where "loop fuel (cat_turn S fd) () w2 = Ret () w'" "inp w' = []" "out w' = out w2 @ inp w2"
      using Suc.IH by blast
    moreover have "cat_turn S fd () w = Ret (Inl ()) w2"
      using d(1) w2(1) False by (simp add: cat_turn_def uwrite_def km_simps)
    ultimately show ?thesis using d(2,3) w2(2,3) by (simp add: bind_def)
  qed
qed simp

section \<open>wc counts\<close>

definition blank :: "char \<Rightarrow> bool" where
  "blank c \<longleftrightarrow> c \<in> {CHR '' '', CHR 0x0D, CHR 0x09, CHR 0x0A, CHR 0x0B}"

text \<open>The words of a text: the maximal runs of characters that are not blank.\<close>

function words :: "string \<Rightarrow> string list" where
  "words s = (case dropWhile blank s of
      [] \<Rightarrow> []
    | c # r \<Rightarrow> (c # takeWhile (\<lambda>x. \<not> blank x) r) # words (dropWhile (\<lambda>x. \<not> blank x) r))"
  by pat_completeness auto
termination
proof (relation "measure length")
  fix s c r
  assume "dropWhile blank s = c # r"
  then have "length (c # r) \<le> length s" by (metis length_dropWhile_le)
  then show "(dropWhile (\<lambda>x. \<not> blank x) r, s) \<in> measure length"
    using length_dropWhile_le [of "\<lambda>x. \<not> blank x" r] by simp
qed simp

declare words.simps [simp del]

lemma words_Nil: "words [] = []"
  by (simp add: words.simps)

lemma words_blank: "blank c \<Longrightarrow> words (c # s) = words s"
  by (subst (1 2) words.simps) simp

lemma words_word: "\<not> blank c \<Longrightarrow> words (c # s) = (c # takeWhile (\<lambda>x. \<not> blank x) s) # words (dropWhile (\<lambda>x. \<not> blank x) s)"
  by (subst words.simps) simp

lemma strchr_blank: "strchr [CHR '' '', CHR 0x0D, CHR 0x09, CHR 0x0A, CHR 0x0B] b \<noteq> None \<longleftrightarrow> blank b"
  by (auto simp: blank_def)

lemma nl_blank [simp]: "blank (CHR 0x0A)"
  by (simp add: blank_def)

lemma ucast_32_64 [simp]: "ucast (ucast (x :: u32) :: u64) = x"
  by (rule bit_word_eqI) (simp add: bit_unsigned_iff)

lemma wc_byte_eq:
  "wc_byte b s =
     \<lparr>wc_l = wc_l s + (if b = CHR 0x0A then 1 else 0),
      wc_w = wc_w s + (if blank b \<or> inword s then 0 else 1),
      wc_c = wc_c s + 1, inword = (\<not> blank b)\<rparr>"
  unfolding wc_byte_def strchr_blank by (cases s) (auto simp: Let_def)

text \<open>What is left to count after a part of the text: inside a word, the rest of it does not count.\<close>

lemma wc_fold:
  "fold wc_byte d s =
     \<lparr>wc_l = wc_l s + of_nat (length (filter ((=) (CHR 0x0A)) d)),
      wc_w = wc_w s + of_nat (length (words (if inword s then dropWhile (\<lambda>x. \<not> blank x) d else d))),
      wc_c = wc_c s + of_nat (length d),
      inword = (if d = [] then inword s else \<not> blank (last d))\<rparr>"
proof (induction d arbitrary: s)
  case Nil
  then show ?case by (simp add: words_Nil)
next
  case (Cons b d)
  show ?case
    unfolding fold_simps Cons.IH
    by (cases "blank b"; cases "inword s")
      (auto simp: wc_byte_eq words_blank words_word words_Nil algebra_simps)
qed

lemma wc_loop:
  assumes R: "reads S fd inp out"
  shows "length (inp w) < fuel \<Longrightarrow>
    \<exists>w'. loop fuel (wc_turn S fd) s w = Ret (fold wc_byte (inp w) s) w' \<and> inp w' = [] \<and> out w' = out w"
proof (induction fuel arbitrary: s w)
  case (Suc fuel)
  obtain d w1 where d: "sys_read S fd 512 w = (Some d, w1)" "inp w = d @ inp w1" "out w1 = out w"
      "inp w \<noteq> [] \<Longrightarrow> d \<noteq> []"
    using R by (rule readsE [where n = 512 and w = w]) (meson zero_less_numeral)
  show ?case
  proof (cases "d = []")
    case True
    then have e: "inp w = []" using d(4) by blast
    then have "inp w1 = []" using d(2) by simp
    with d(1,3) e True show ?thesis by (simp add: wc_turn_def km_simps)
  next
    case False
    then have "length (inp w1) < fuel" using Suc.prems d(2) by (cases d) auto
    then show ?thesis
      using Suc.IH [of w1 "fold wc_byte d s"] d False by (simp add: wc_turn_def km_simps)
  qed
qed simp

text \<open>
  C40: \<^verbatim>\<open>wc\<close> counts lines, words and bytes: however \<^verbatim>\<open>read\<close> cuts the input up, \<^verbatim>\<open>wc\<close> prints the number of
  its newlines, of its maximal runs of non-blank characters and of its bytes, as C integers (modulo
  2 to the 32).
\<close>

theorem wc_counts:
  assumes "reads S fd inp out" "writes S 1 inp out" "length (inp w) < fuel"
  shows "\<exists>w'. wc fuel S fd name w = Ret () w' \<and> out w' = out w @
    int_text (of_nat (length (filter ((=) (CHR 0x0A)) (inp w)))) 10 True @ '' '' @
    int_text (of_nat (length (words (inp w)))) 10 True @ '' '' @
    int_text (of_nat (length (inp w))) 10 True @ '' '' @ name @ ''\<newline>''"
proof -
  obtain w1 where "loop fuel (wc_turn S fd) \<lparr>wc_l = 0, wc_w = 0, wc_c = 0, inword = False\<rparr> w =
      Ret (fold wc_byte (inp w) \<lparr>wc_l = 0, wc_w = 0, wc_c = 0, inword = False\<rparr>) w1" "out w1 = out w"
    using wc_loop [OF assms(1,3)] by blast
  moreover have "fmt_text ''%d %d %d %s\<newline>'' [AWord (ucast (l :: u32)), AWord (ucast (n :: u32)), AWord (ucast (c :: u32)),
      AStr (Some name)] = int_text l 10 True @ '' '' @ int_text n 10 True @ '' '' @ int_text c 10 True @
      '' '' @ name @ ''\<newline>''" for l n c
    by (simp add: arg_word_def arg_str_def)
  ultimately show ?thesis
    using vprintf_emits [OF assms(2), of "''%d %d %d %s\<newline>''"]
    by (simp add: wc_def bind_def wc_fold printf_def vprintf_def emits_def del: vprintf_loop.simps fmt_text.simps)
      metis
qed

theorem wc_counts_witness:
  "\<exists>w'. wc 9 stdio 0 ''f'' (''to  be\<newline>'', []) = Ret () w' \<and> snd w' = ''1 2 7 f\<newline>''"
proof -
  have "int_text 1 10 True = ''1''" "int_text 2 10 True = ''2''" "int_text 7 10 True = ''7''"
    "length (words ''to  be\<newline>'') = 2" by code_simp+
  then show ?thesis
    using wc_counts [OF stdio_reads stdio_writes, of "(''to  be\<newline>'', [])" 9 0 "''f''"] by simp
qed

end
