(* ===== verification/Sh.thy ===== *)
theory Sh
  imports Ulib "HOL-Library.Sublist"
begin

text \<open>
  sh.c: the parser of the shell and the commands it runs. A pointer into the command line is
  modelled by the rest of the line from there, so a token is a pair of such rests, \<^verbatim>\<open>q\<close> and \<^verbatim>\<open>eq\<close>, and
  the parser state \<^verbatim>\<open>*ps\<close> is what is left to parse. A command tree is parametric in what stands for
  a word: the parser builds it with pointer pairs, and it is run with the strings that the pointers
  give after \<open>nulterminate\<close> has ended them in the buffer. A panic of the parser is the value \<open>Err\<close>.

  The recursive descent takes fuel. \<open>parsecmd\<close> gives it four units per character of the line, which
  is shown to be enough for every line.
\<close>

section \<open>Commands\<close>

datatype 'p cmd = Exec "'p list" | Redir "'p cmd" 'p nat int | Pipe "'p cmd" "'p cmd"
  | List "'p cmd" "'p cmd" | Back "'p cmd"

type_synonym ptr = string
type_synonym word_ptrs = "ptr \<times> ptr"

definition MAXARGS :: nat where "MAXARGS = 10"

definition O_READ :: nat where "O_READ = 0"
definition O_TRUNCATE :: nat where "O_TRUNCATE = 0x001 + 0x200 + 0x400"
definition O_APPEND :: nat where "O_APPEND = 0x001 + 0x200"

section \<open>Tokens\<close>

definition white :: "char \<Rightarrow> bool" where
  "white c \<longleftrightarrow> strchr [CHR '' '', CHR 0x09, CHR 0x0D, CHR 0x0A, CHR 0x0B] c \<noteq> None"

definition symbol :: "char \<Rightarrow> bool" where
  "symbol c \<longleftrightarrow> strchr ''<|>&;()'' c \<noteq> None"

definition skip :: "ptr \<Rightarrow> ptr" where
  "skip s = dropWhile white s"

text \<open>\<^verbatim>\<open>gettoken\<close>: the token, \<^verbatim>\<open>*q\<close>, \<^verbatim>\<open>*eq\<close> and the new \<^verbatim>\<open>*ps\<close>.\<close>

definition gettoken :: "ptr \<Rightarrow> char \<times> ptr \<times> ptr \<times> ptr" where
  "gettoken ps =
     (let s = skip ps
      in case s of
           [] \<Rightarrow> (CHR 0x00, s, s, s)
         | c # r \<Rightarrow>
             if c \<in> {CHR ''|'', CHR ''('', CHR '')'', CHR '';'', CHR ''&'', CHR ''<''}
             then (c, s, r, skip r)
             else if c = CHR ''>''
             then if chr_at r = CHR ''>'' then (CHR ''+'', s, tl r, skip (tl r)) else (CHR ''>'', s, r, skip r)
             else let e = dropWhile (\<lambda>c. \<not> white c \<and> \<not> symbol c) s in (CHR ''a'', s, e, skip e))"

definition peek :: "ptr \<Rightarrow> string \<Rightarrow> bool \<times> ptr" where
  "peek ps toks = (let s = skip ps in (s \<noteq> [] \<and> strchr toks (chr_at s) \<noteq> None, s))"

abbreviation after_token :: "ptr \<Rightarrow> ptr" where
  "after_token ps \<equiv> snd (snd (snd (gettoken ps)))"

section \<open>The parser\<close>

datatype 'a pres = Ok 'a ptr | Err string | NoFuel

definition pbind :: "'a pres \<Rightarrow> ('a \<Rightarrow> ptr \<Rightarrow> 'b pres) \<Rightarrow> 'b pres" where
  "pbind r f = (case r of Ok a s \<Rightarrow> f a s | Err e \<Rightarrow> Err e | NoFuel \<Rightarrow> NoFuel)"

lemma pbind_simps [simp]: "pbind (Ok a s) f = f a s" "pbind (Err e) f = Err e" "pbind NoFuel f = NoFuel"
  by (simp_all add: pbind_def)

lemma skip_length: "length (skip s) \<le> length s"
  by (simp add: skip_def length_dropWhile_le)

lemma skip_skip [simp]: "skip (skip s) = skip s"
  by (simp add: skip_def)

lemma skip_Nil [simp]: "skip [] = []"
  by (simp add: skip_def)

lemma gettoken_end: "fst (gettoken ps) = CHR 0x00 \<longleftrightarrow> skip ps = []"
  by (cases "skip ps") (auto simp: gettoken_def Let_def)

lemma gettoken_length:
  assumes "skip ps \<noteq> []"
  shows "length (after_token ps) < length ps"
proof -
  obtain c r where cr: "skip ps = c # r" using assms by (cases "skip ps") auto
  have le: "length r < length ps" using skip_length [of ps] cr by simp
  have w: "\<not> white c" using cr unfolding skip_def by (metis hd_dropWhile list.discI list.sel(1))
  have "length (skip (dropWhile P r)) \<le> length r" "length (skip r) \<le> length r"
      "length (skip (tl r)) \<le> length r" for P
    using skip_length [of "dropWhile P r"] length_dropWhile_le [of P r] skip_length [of r]
      skip_length [of "tl r"] by auto
  note * = this [THEN le_less_trans, OF le]
  show ?thesis
    using cr w * by (auto simp: gettoken_def symbol_def Let_def)
qed

lemma gettoken_shrinks:
  assumes "gettoken ps = (tok, q, e, s)"
  shows "length s \<le> length ps" "skip ps \<noteq> [] \<Longrightarrow> length s < length ps" "tok \<noteq> CHR 0x00 \<Longrightarrow> length s < length ps"
proof -
  show l: "skip ps \<noteq> [] \<Longrightarrow> length s < length ps" using gettoken_length [of ps] assms by simp
  then show "length s \<le> length ps" using assms by (cases "skip ps = []") (auto simp: gettoken_def)
  show "tok \<noteq> CHR 0x00 \<Longrightarrow> length s < length ps" using l gettoken_end [of ps] assms by simp
qed

text \<open>\<^verbatim>\<open>redircmd\<close> for the three kinds of redirection.\<close>

definition redir :: "char \<Rightarrow> 'p cmd \<Rightarrow> 'p \<Rightarrow> 'p cmd" where
  "redir tok c f =
     (if tok = CHR ''<'' then Redir c f O_READ 0
      else if tok = CHR ''>'' then Redir c f O_TRUNCATE 1
      else if tok = CHR ''+'' then Redir c f O_APPEND 1
      else c)"

lemma peek_eq: "peek ps toks = (b, s) \<longleftrightarrow> s = skip ps \<and> b = (s \<noteq> [] \<and> strchr toks (hd s) \<noteq> None)"
  by (cases "skip ps") (auto simp: peek_def chr_at_def Let_def)

lemma redir_shrinks:
  assumes "peek ps toks = (True, s)" "gettoken s = (tok, q1, e1, s1)" "gettoken s1 = (a, q, e, s2)"
  shows "length s2 < length ps"
proof -
  have "skip s \<noteq> []" "length s \<le> length ps" using assms(1) by (auto simp: peek_eq skip_length)
  then show ?thesis using gettoken_shrinks [OF assms(2)] gettoken_shrinks(1) [OF assms(3)] by simp
qed

function parseredirs :: "word_ptrs cmd \<Rightarrow> ptr \<Rightarrow> word_ptrs cmd pres" where
  "parseredirs c ps =
     (case peek ps ''<>'' of
        (False, s) \<Rightarrow> Ok c s
      | (True, s) \<Rightarrow>
          (case gettoken s of (tok, _, _, s1) \<Rightarrow>
           case gettoken s1 of (a, q, e, s2) \<Rightarrow>
             if a \<noteq> CHR ''a'' then Err ''missing file for redirection''
             else parseredirs (redir tok c (q, e)) s2))"
  by pat_completeness auto
termination
  by (relation "measure (\<lambda>(c, ps). length ps)") (auto intro!: redir_shrinks [OF sym sym sym])

declare parseredirs.simps [simp del]

lemma parseredirs_length: "parseredirs c ps = Ok c' s \<Longrightarrow> length s \<le> length ps"
proof (induction c ps rule: parseredirs.induct)
  case (1 c ps)
  show ?case
  proof (cases "peek ps ''<>''")
    case (Pair b s0)
    show ?thesis
    proof (cases b)
      case False
      then show ?thesis using 1(2) Pair by (subst (asm) parseredirs.simps) (auto simp: peek_eq skip_length)
    next
      case True
      obtain tok q1 e1 s1 where g1: "gettoken s0 = (tok, q1, e1, s1)" by (cases "gettoken s0")
      obtain a q e s2 where g2: "gettoken s1 = (a, q, e, s2)" by (cases "gettoken s1")
      have "length s \<le> length s2"
        using 1 Pair True g1 g2 by (subst (asm) (2) parseredirs.simps) (auto split: if_splits)
      then show ?thesis using redir_shrinks [of ps "''<>''" s0] Pair True g1 g2 by force
    qed
  qed
qed

text \<open>
  The words of a command go into the \<^verbatim>\<open>execcmd\<close> object, which the redirections parsed so far already
  refer to.
\<close>

fun add_arg :: "'p \<Rightarrow> 'p cmd \<Rightarrow> 'p cmd" where
  "add_arg a (Exec argv) = Exec (argv @ [a])"
| "add_arg a (Redir c f mode fd) = Redir (add_arg a c) f mode fd"
| "add_arg a c = c"

text \<open>The loop of \<^verbatim>\<open>parseexec\<close>.\<close>

function parseargs :: "word_ptrs cmd \<Rightarrow> nat \<Rightarrow> ptr \<Rightarrow> word_ptrs cmd pres" where
  "parseargs c argc ps =
     (case peek ps ''|)&;'' of
        (True, s) \<Rightarrow> Ok c s
      | (False, s) \<Rightarrow>
          (case gettoken s of (tok, q, e, s1) \<Rightarrow>
             if tok = CHR 0x00 then Ok c s1
             else if tok \<noteq> CHR ''a'' then Err ''syntax''
             else if argc + 1 \<ge> MAXARGS then Err ''too many args''
             else case parseredirs (add_arg (q, e) c) s1 of
                Ok c' s2 \<Rightarrow> parseargs c' (argc + 1) s2
              | Err m \<Rightarrow> Err m
              | NoFuel \<Rightarrow> NoFuel))"
  by pat_completeness auto
termination
  by (relation "measure (\<lambda>(c, argc, ps). MAXARGS - argc)") auto

declare parseargs.simps [simp del]

text \<open>The \<^verbatim>\<open>&\<close> loop of \<^verbatim>\<open>parseline\<close>.\<close>

lemma amp_shrinks: "peek ps toks = (True, s) \<Longrightarrow> length (after_token s) < length ps"
proof -
  assume "peek ps toks = (True, s)"
  then have "skip s \<noteq> []" "length s \<le> length ps" by (auto simp: peek_eq skip_length)
  then show ?thesis using gettoken_length [of s] by simp
qed

function parseback :: "word_ptrs cmd \<Rightarrow> ptr \<Rightarrow> word_ptrs cmd \<times> ptr" where
  "parseback c ps =
     (case peek ps ''&'' of
        (True, s) \<Rightarrow> parseback (Back c) (after_token s)
      | (False, s) \<Rightarrow> (c, s))"
  by pat_completeness auto
termination
  by (relation "measure (\<lambda>(c, ps). length ps)") (auto intro!: amp_shrinks [OF sym])

declare parseback.simps [simp del]

fun parseline :: "nat \<Rightarrow> ptr \<Rightarrow> word_ptrs cmd pres"
  and parsepipe :: "nat \<Rightarrow> ptr \<Rightarrow> word_ptrs cmd pres"
  and parseexec :: "nat \<Rightarrow> ptr \<Rightarrow> word_ptrs cmd pres"
  and parseblock :: "nat \<Rightarrow> ptr \<Rightarrow> word_ptrs cmd pres" where
  "parseline 0 ps = NoFuel"
| "parseline (Suc n) ps =
     pbind (parsepipe n ps) (\<lambda>c s.
       case parseback c s of (c, s) \<Rightarrow>
       case peek s '';'' of
         (True, s) \<Rightarrow> pbind (parseline n (after_token s)) (\<lambda>r s. Ok (List c r) s)
       | (False, s) \<Rightarrow> Ok c s)"
| "parsepipe 0 ps = NoFuel"
| "parsepipe (Suc n) ps =
     pbind (parseexec n ps) (\<lambda>c s.
       case peek s ''|'' of
         (True, s) \<Rightarrow> pbind (parsepipe n (after_token s)) (\<lambda>r s. Ok (Pipe c r) s)
       | (False, s) \<Rightarrow> Ok c s)"
| "parseexec 0 ps = NoFuel"
| "parseexec (Suc n) ps =
     (case peek ps ''('' of
        (True, s) \<Rightarrow> parseblock n s
      | (False, s) \<Rightarrow> pbind (parseredirs (Exec []) s) (\<lambda>c s. parseargs c 0 s))"
| "parseblock 0 ps = NoFuel"
| "parseblock (Suc n) ps =
     (case peek ps ''('' of
        (False, s) \<Rightarrow> Err ''parseblock''
      | (True, s) \<Rightarrow>
          pbind (parseline n (after_token s)) (\<lambda>c s.
            case peek s '')'' of
              (False, s) \<Rightarrow> Err ''syntax - missing )''
            | (True, s) \<Rightarrow> parseredirs c (after_token s)))"

definition parsecmd :: "string \<Rightarrow> word_ptrs cmd pres" where
  "parsecmd s =
     pbind (parseline (4 * length s + 4) s) (\<lambda>c s.
       case peek s [] of (_, s) \<Rightarrow>
         if s \<noteq> [] then Err (''leftovers: '' @ s @ ''\<newline>syntax'') else Ok c s)"

text \<open>
  \<^verbatim>\<open>nulterminate\<close> stores a NUL at the end of every word. A pointer \<open>p\<close> is at offset
  \<open>length buf - length p\<close> of the buffer; the store at the very end hits the terminator, which
  is a NUL already.
\<close>

definition poke :: "ptr \<Rightarrow> string \<Rightarrow> string" where
  "poke p buf = buf[length buf - length p := CHR 0x00]"

fun nulterminate :: "word_ptrs cmd \<Rightarrow> string \<Rightarrow> string" where
  "nulterminate (Exec argv) buf = fold (\<lambda>(q, e). poke e) argv buf"
| "nulterminate (Redir c (q, e) mode fd) buf = poke e (nulterminate c buf)"
| "nulterminate (Pipe l r) buf = nulterminate r (nulterminate l buf)"
| "nulterminate (List l r) buf = nulterminate r (nulterminate l buf)"
| "nulterminate (Back c) buf = nulterminate c buf"

text \<open>The C string at a pointer, and the command with the strings its pointers give.\<close>

definition cstring_at :: "string \<Rightarrow> ptr \<Rightarrow> string" where
  "cstring_at buf p = takeWhile (\<lambda>c. c \<noteq> CHR 0x00) (drop (length buf - length p) buf)"

definition strings :: "string \<Rightarrow> word_ptrs cmd \<Rightarrow> string cmd" where
  "strings buf c = map_cmd (\<lambda>(q, e). cstring_at buf q) c"

section \<open>Running commands\<close>

definition shpanic :: "'w sys \<Rightarrow> string \<Rightarrow> ('a, 'w) km" where
  "shpanic S msg = seq (fprintf S 2 ''%s\<newline>'' [AStr (Some msg)]) (exit 1)"

definition fork1 :: "'w sys \<Rightarrow> (int, 'w) km" where
  "fork1 S = bind (call (sys_fork S)) (\<lambda>pid. if pid = -1 then shpanic S ''fork'' else ret pid)"

fun runcmd :: "'w sys \<Rightarrow> string cmd \<Rightarrow> (unit, 'w) km" where
  "runcmd S (Exec argv) =
     (if argv = [] then exit 1
      else seq (exec S (hd argv) argv)
        (seq (fprintf S 2 ''exec %s failed\<newline>'' [AStr (Some (hd argv))]) (exit 0)))"
| "runcmd S (Redir c f mode fd) =
     seq (call (sys_close S fd))
     (bind (call (sys_open S f mode)) (\<lambda>r.
       if r < 0 then seq (fprintf S 2 ''open %s failed\<newline>'' [AStr (Some f)]) (exit 1)
       else runcmd S c))"
| "runcmd S (List l r) =
     bind (fork1 S) (\<lambda>pid.
       seq (if pid = 0 then runcmd S l else ret ())
       (seq (call (sys_wait S)) (runcmd S r)))"
| "runcmd S (Pipe l r) =
     bind (call (sys_pipe S)) (\<lambda>p.
       case p of
         None \<Rightarrow> shpanic S ''pipe''
       | Some (p0, p1) \<Rightarrow>
           bind (fork1 S) (\<lambda>pid.
           seq (if pid = 0
                then seq (call (sys_close S 1)) (seq (call (sys_dup S p1)) (seq (call (sys_close S p0))
                  (seq (call (sys_close S p1)) (runcmd S l))))
                else ret ())
           (bind (fork1 S) (\<lambda>pid.
           seq (if pid = 0
                then seq (call (sys_close S 0)) (seq (call (sys_dup S p0)) (seq (call (sys_close S p0))
                  (seq (call (sys_close S p1)) (runcmd S r))))
                else ret ())
           (seq (call (sys_close S p0)) (seq (call (sys_close S p1))
           (seq (call (sys_wait S)) (seq (call (sys_wait S)) (exit 0)))))))))"
| "runcmd S (Back c) =
     bind (fork1 S) (\<lambda>pid. seq (if pid = 0 then runcmd S c else ret ()) (exit 0))"

definition getcmd :: "'w sys \<Rightarrow> (string option, 'w) km" where
  "getcmd S =
     seq (uwrite S 2 ''$ '')
     (bind (ugets S 100) (\<lambda>b.
       let buf = takeWhile (\<lambda>c. c \<noteq> CHR 0x00) b
       in if buf = [] then ret None else ret (Some buf)))"

text \<open>What the child of \<^verbatim>\<open>main\<close> does with a command line.\<close>

definition runline :: "'w sys \<Rightarrow> string \<Rightarrow> (unit, 'w) km" where
  "runline S buf =
     (case parsecmd buf of
        Ok c _ \<Rightarrow> runcmd S (strings (nulterminate c buf) c)
      | Err msg \<Rightarrow> shpanic S msg
      | NoFuel \<Rightarrow> (\<lambda>w. Stop Hang w))"

definition console_turn :: "'w sys \<Rightarrow> unit \<Rightarrow> (unit + unit, 'w) km" where
  "console_turn S _ =
     bind (call (sys_open S ''console'' 2)) (\<lambda>fd.
       if fd \<ge> 0 then
         if fd \<ge> 3 then seq (call (sys_close S fd)) (ret (Inr ())) else ret (Inl ())
       else ret (Inr ()))"

definition main_turn :: "'w sys \<Rightarrow> unit \<Rightarrow> (unit + unit, 'w) km" where
  "main_turn S _ =
     bind (getcmd S) (\<lambda>r.
       case r of
         None \<Rightarrow> ret (Inr ())
       | Some buf \<Rightarrow>
           if take 3 buf = ''cd ''
           then let dir = drop 3 (butlast buf)
             in bind (call (sys_chdir S dir)) (\<lambda>r.
               seq (if r < 0 then fprintf S 2 ''cannot cd %s\<newline>'' [AStr (Some dir)] else ret ())
                 (ret (Inl ())))
           else bind (fork1 S) (\<lambda>pid.
             seq (if pid = 0 then runline S buf else ret ())
             (seq (call (sys_wait S)) (ret (Inl ())))))"

definition sh_main :: "nat \<Rightarrow> 'w sys \<Rightarrow> (unit, 'w) km" where
  "sh_main fuel S =
     seq (loop fuel (console_turn S) ())
     (seq (loop fuel (main_turn S) ()) (exit 0))"

section \<open>The parser ends on every line\<close>

lemma parseredirs_total: "parseredirs c ps \<noteq> NoFuel"
  by (induction c ps rule: parseredirs.induct) (subst parseredirs.simps, auto split: prod.splits bool.splits)

lemma parseargs_total: "parseargs c argc ps \<noteq> NoFuel"
  by (induction c argc ps rule: parseargs.induct)
    (subst parseargs.simps, auto simp: parseredirs_total split: prod.splits bool.splits pres.splits)

lemma parseargs_length: "parseargs c argc ps = Ok c' s \<Longrightarrow> length s \<le> length ps"
proof (induction c argc ps rule: parseargs.induct)
  case (1 c argc ps)
  obtain b s0 where p: "peek ps ''|)&;'' = (b, s0)" by fastforce
  obtain tok q e s1 where g: "gettoken s0 = (tok, q, e, s1)" by (cases "gettoken s0")
  have l: "length s0 \<le> length ps" "length s1 \<le> length s0"
    using p g gettoken_shrinks(1) [OF g] by (auto simp: peek_eq skip_length)
  have "length s \<le> length s1" if "\<not> b"
    using 1 p g that parseredirs_length
    by (subst (asm) (2) parseargs.simps) (fastforce split: if_splits pres.splits)
  moreover have "s = s0" if "b"
    using 1(2) p that by (subst (asm) parseargs.simps) simp
  ultimately show ?case using l by fastforce
qed

lemma peek_length: "peek ps toks = (b, s) \<Longrightarrow> length s \<le> length ps"
  by (auto simp: peek_eq skip_length)

lemma after_token_length: "length (after_token s) \<le> length s"
  using gettoken_shrinks(1) [of s] by (cases "gettoken s") auto

lemma parseback_length: "length (snd (parseback c ps)) \<le> length ps"
proof (induction c ps rule: parseback.induct)
  case (1 c ps)
  obtain b s where p: "peek ps ''&'' = (b, s)" by fastforce
  show ?case
  proof (cases b)
    case True
    then have "parseback c ps = parseback (Back c) (after_token s)"
      using p by (subst parseback.simps) simp
    then show ?thesis using 1 [of b s] amp_shrinks [of ps "''&''" s] p True by (simp add: p)
  next
    case False
    then show ?thesis using p by (subst parseback.simps) (simp add: peek_length)
  qed
qed

lemma pbind_Ok: "pbind r f = Ok c s \<longleftrightarrow> (\<exists>a t. r = Ok a t \<and> f a t = Ok c s)"
  by (cases r) auto

lemma pbind_NoFuel: "pbind r f = NoFuel \<longleftrightarrow> r = NoFuel \<or> (\<exists>a t. r = Ok a t \<and> f a t = NoFuel)"
  by (cases r) auto

lemma parseback_shorter: "parseback c ps = (c', s) \<Longrightarrow> length s \<le> length ps"
  using parseback_length [of c ps] by simp

lemma after_token_peek: "peek ps toks = (b, s) \<Longrightarrow> length (after_token s) \<le> length ps"
  using peek_length after_token_length by (meson le_trans)

lemmas shorter = parseback_shorter peek_length parseredirs_length parseargs_length after_token_peek

lemma parseline_Suc:
  "parsepipe n ps = Ok c1 s1 \<Longrightarrow> parseback c1 s1 = (c2, s2) \<Longrightarrow> peek s2 '';'' = (b, s3) \<Longrightarrow>
   parseline (Suc n) ps =
     (if b then pbind (parseline n (after_token s3)) (\<lambda>r s. Ok (List c2 r) s) else Ok c2 s3)"
  by simp

lemma parsepipe_Suc:
  "parseexec n ps = Ok c1 s1 \<Longrightarrow> peek s1 ''|'' = (b, s2) \<Longrightarrow>
   parsepipe (Suc n) ps =
     (if b then pbind (parsepipe n (after_token s2)) (\<lambda>r s. Ok (Pipe c1 r) s) else Ok c1 s2)"
  by simp

lemma parseexec_Suc:
  "peek ps ''('' = (b, s) \<Longrightarrow>
   parseexec (Suc n) ps =
     (if b then parseblock n s else pbind (parseredirs (Exec []) s) (\<lambda>c s. parseargs c 0 s))"
  by simp

lemma parseblock_Suc:
  "peek ps ''('' = (b, s) \<Longrightarrow>
   parseblock (Suc n) ps =
     (if b then pbind (parseline n (after_token s)) (\<lambda>c s.
        if fst (peek s '')'') then parseredirs c (after_token (snd (peek s '')''))) else Err ''syntax - missing )'')
      else Err ''parseblock'')"
  by (simp add: case_prod_unfold bool.case_eq_if)

lemma parse_length:
  shows "parseline n ps = Ok c s \<Longrightarrow> length s \<le> length ps"
    and "parsepipe n ps = Ok c s \<Longrightarrow> length s \<le> length ps"
    and "parseexec n ps = Ok c s \<Longrightarrow> length s \<le> length ps"
    and "parseblock n ps = Ok c s \<Longrightarrow> length s \<le> length ps"
proof (induction n arbitrary: ps c s)
  case (Suc n)
  {
    case 1
    then obtain c1 s1 where *: "parsepipe n ps = Ok c1 s1" by (auto simp: pbind_Ok)
    obtain c2 s2 b s3 where **: "parseback c1 s1 = (c2, s2)" "peek s2 '';'' = (b, s3)" by fastforce
    have r: "b \<Longrightarrow> \<exists>r. parseline n (after_token s3) = Ok r s" "\<not> b \<Longrightarrow> s = s3"
      using 1 unfolding parseline_Suc [OF * **] by (auto simp: pbind_Ok)
    have "length s3 \<le> length ps" "length (after_token s3) \<le> length ps"
      using shorter(1) [OF **(1)] shorter(2,5) [OF **(2)] Suc.IH(2) [OF *] by linarith+
    then show ?case using r Suc.IH(1) by (cases b) (auto intro: le_trans)
  next
    case 2
    then obtain c1 s1 where *: "parseexec n ps = Ok c1 s1" by (auto simp: pbind_Ok)
    obtain b s2 where **: "peek s1 ''|'' = (b, s2)" by fastforce
    have r: "b \<Longrightarrow> \<exists>r. parsepipe n (after_token s2) = Ok r s" "\<not> b \<Longrightarrow> s = s2"
      using 2 unfolding parsepipe_Suc [OF * **] by (auto simp: pbind_Ok)
    have "length s2 \<le> length ps" "length (after_token s2) \<le> length ps"
      using shorter(2,5) [OF **] Suc.IH(3) [OF *] by linarith+
    then show ?case using r Suc.IH(2) by (cases b) (auto intro: le_trans)
  next
    case 3
    obtain b s1 where *: "peek ps ''('' = (b, s1)" by fastforce
    have "length s \<le> length s1"
    proof (cases b)
      case True
      then show ?thesis using 3 Suc.IH(4) [of s1] unfolding parseexec_Suc [OF *] by simp
    next
      case False
      then obtain c2 s2 where "parseredirs (Exec []) s1 = Ok c2 s2" "parseargs c2 0 s2 = Ok c s"
        using 3 unfolding parseexec_Suc [OF *] by (auto simp: pbind_Ok)
      then show ?thesis using shorter(3,4) by (meson le_trans)
    qed
    then show ?case using shorter(2) [OF *] by simp
  next
    case 4
    obtain b s1 where *: "peek ps ''('' = (b, s1)" by fastforce
    then obtain c2 s2 where r: "parseline n (after_token s1) = Ok c2 s2"
        "parseredirs c2 (after_token (snd (peek s2 '')''))) = Ok c s"
      using 4 unfolding parseblock_Suc [OF *] by (auto simp: pbind_Ok split: if_splits)
    show ?case
      using Suc.IH(1) [OF r(1)] shorter(3) [OF r(2)] shorter(5) [of s2 "'')''"] shorter(5) [OF *]
      by (cases "peek s2 '')''") auto
  }
qed simp_all

lemma parse_total:
  shows "4 * length ps + 4 \<le> n \<Longrightarrow> parseline n ps \<noteq> NoFuel"
    and "4 * length ps + 3 \<le> n \<Longrightarrow> parsepipe n ps \<noteq> NoFuel"
    and "4 * length ps + 2 \<le> n \<Longrightarrow> parseexec n ps \<noteq> NoFuel"
    and "4 * length ps + 1 \<le> n \<Longrightarrow> parseblock n ps \<noteq> NoFuel"
proof (induction n arbitrary: ps)
  case (Suc n)
  {
    case 1
    have "parsepipe n ps \<noteq> NoFuel" using 1 Suc.IH(2) by simp
    moreover have "parseline (Suc n) ps \<noteq> NoFuel" if *: "parsepipe n ps = Ok c1 s1" for c1 s1
    proof -
      obtain c2 s2 b s3 where **: "parseback c1 s1 = (c2, s2)" "peek s2 '';'' = (b, s3)" by fastforce
      have "length (after_token s3) < length ps" if b
        using that parse_length(2) [OF *] shorter(1) [OF **(1)] amp_shrinks [of s2 "'';''" s3] **(2) by simp
      then show ?thesis
        using 1 Suc.IH(1) [of "after_token s3"] unfolding parseline_Suc [OF * **]
        by (auto simp: pbind_NoFuel)
    qed
    ultimately show ?case by (cases "parsepipe n ps") auto
  next
    case 2
    have "parseexec n ps \<noteq> NoFuel" using 2 Suc.IH(3) by simp
    moreover have "parsepipe (Suc n) ps \<noteq> NoFuel" if *: "parseexec n ps = Ok c1 s1" for c1 s1
    proof -
      obtain b s2 where **: "peek s1 ''|'' = (b, s2)" by fastforce
      have "length (after_token s2) < length ps" if b
        using that parse_length(3) [OF *] amp_shrinks [of s1 "''|''" s2] ** by simp
      then show ?thesis
        using 2 Suc.IH(2) [of "after_token s2"] unfolding parsepipe_Suc [OF * **]
        by (auto simp: pbind_NoFuel)
    qed
    ultimately show ?case by (cases "parseexec n ps") auto
  next
    case 3
    obtain b s where *: "peek ps ''('' = (b, s)" by fastforce
    show ?case
      using 3 Suc.IH(4) [of s] peek_length [OF *] parseredirs_total parseargs_total
      unfolding parseexec_Suc [OF *] by (auto simp: pbind_NoFuel)
  next
    case 4
    obtain b s where *: "peek ps ''('' = (b, s)" by fastforce
    show ?case
      using 4 Suc.IH(1) [of "after_token s"] amp_shrinks [of ps "''(''" s] * parseredirs_total
      unfolding parseblock_Suc [OF *] by (auto simp: pbind_NoFuel)
  }
qed simp_all

text \<open>
  C32: The parser of the shell comes to an end on every command line: it builds a command or
  reports a syntax error, and its recursion is never deeper than four calls per character.
\<close>

theorem parsecmd_terminates: "parsecmd s \<noteq> NoFuel"
  using parse_total(1) [of s "4 * length s + 4"]
  by (auto simp: parsecmd_def pbind_NoFuel split: if_splits prod.splits)

section \<open>Words survive their termination\<close>

definition wordchar :: "char \<Rightarrow> bool" where
  "wordchar c \<longleftrightarrow> \<not> white c \<and> \<not> symbol c"

definition word_of :: "word_ptrs \<Rightarrow> string" where
  "word_of p = take (length (fst p) - length (snd p)) (fst p)"

text \<open>\<open>good s p\<close>: the pair \<open>p\<close> delimits a whole word of the line \<open>s\<close>.\<close>

definition good :: "string \<Rightarrow> word_ptrs \<Rightarrow> bool" where
  "good s p \<longleftrightarrow> (\<exists>u w. s = u @ w @ snd p \<and> fst p = w @ snd p \<and> list_all wordchar w \<and> w \<noteq> [] \<and>
     (snd p \<noteq> [] \<longrightarrow> \<not> wordchar (hd (snd p))))"

lemma suffix_skip: "suffix t s \<Longrightarrow> suffix (skip t) s"
  unfolding skip_def by (rule suffix_order.trans [OF suffix_dropWhile])

lemma suffix_tail: "suffix t s \<Longrightarrow> suffix (tl t) s"
  by (rule suffix_order.trans [OF suffix_tl])

lemma skip_nonblank: "skip ps = c # r \<Longrightarrow> \<not> white c"
  unfolding skip_def by (metis hd_dropWhile list.discI list.sel(1))

lemma symbol_iff:
  "symbol c \<longleftrightarrow> c \<in> {CHR ''<'', CHR ''|'', CHR ''>'', CHR ''&'', CHR '';'', CHR ''('', CHR '')''}"
  by (auto simp: symbol_def)

lemma wordchar_fun: "(\<lambda>c. \<not> white c \<and> \<not> symbol c) = wordchar"
  by (simp add: wordchar_def fun_eq_iff)

text \<open>The word token of \<^verbatim>\<open>gettoken\<close> is the longest run of word characters.\<close>

lemma gettoken_word:
  assumes "gettoken ps = (CHR ''a'', q, e, r)"
  shows "q = skip ps" "e = dropWhile wordchar q" "r = skip e" "q \<noteq> []" "wordchar (hd q)"
proof -
  obtain c t where s: "skip ps = c # t" using assms by (cases "skip ps") (auto simp: gettoken_def)
  have ns: "\<not> symbol c"
    using assms unfolding gettoken_def s Let_def by (auto simp: symbol_iff split: if_splits)
  then have "gettoken ps = (CHR ''a'', c # t, dropWhile wordchar (c # t), skip (dropWhile wordchar (c # t)))"
    unfolding gettoken_def wordchar_fun s Let_def by (simp add: symbol_iff)
  then show "q = skip ps" "e = dropWhile wordchar q" "r = skip e" "q \<noteq> []" "wordchar (hd q)"
    using assms s ns skip_nonblank [OF s] by (auto simp: wordchar_def)
qed

lemma good_dropWhile:
  assumes "suffix q s" "q \<noteq> []" "wordchar (hd q)"
  shows "good s (q, dropWhile wordchar q)"
proof -
  have q: "q = takeWhile wordchar q @ dropWhile wordchar q" by simp
  obtain u where "s = u @ q" using assms(1) by (auto simp: suffix_def)
  then have "s = u @ takeWhile wordchar q @ dropWhile wordchar q" by simp
  moreover have "takeWhile wordchar q \<noteq> []" using assms(2,3) by (cases q) auto
  ultimately show ?thesis
    unfolding good_def
    by (intro exI [of _ u] exI [of _ "takeWhile wordchar q"])
      (auto simp: list_all_iff hd_dropWhile dest: set_takeWhileD)
qed

lemma gettoken_good:
  assumes "suffix ps s" "gettoken ps = (CHR ''a'', q, e, r)"
  shows "good s (q, e)"
  using good_dropWhile [of q s] gettoken_word [OF assms(2)] suffix_skip [OF assms(1)] by simp

lemma after_token_suffix: "suffix ps s \<Longrightarrow> suffix (after_token ps) s"
proof -
  assume "suffix ps s"
  then have *: "suffix (skip ps) s" by (rule suffix_skip)
  show ?thesis
  proof (cases "skip ps")
    case (Cons c r)
    have 1: "suffix r s" using * Cons suffix_tail by fastforce
    have 2: "suffix (dropWhile P r) s" for P using suffix_order.trans [OF suffix_dropWhile 1] .
    show ?thesis
      using Cons * 1 2 suffix_tail [OF 1]
      by (auto simp: gettoken_def Let_def suffix_skip)
  qed (simp add: gettoken_def)
qed

lemma gettoken_suffix: "suffix ps s \<Longrightarrow> gettoken ps = (tok, q, e, r) \<Longrightarrow> suffix r s"
  using after_token_suffix [of ps s] by simp

lemma peek_suffix: "suffix ps s \<Longrightarrow> peek ps toks = (b, r) \<Longrightarrow> suffix r s"
  by (auto simp: peek_eq suffix_skip)

text \<open>Every word the parser puts into a command is a whole word of the line.\<close>

definition goodcmd :: "string \<Rightarrow> word_ptrs cmd \<Rightarrow> ptr \<Rightarrow> bool" where
  "goodcmd s c ps \<longleftrightarrow> (\<forall>p \<in> set_cmd c. good s p) \<and> suffix ps s"

lemma goodcmd_redir: "goodcmd s c ps \<Longrightarrow> good s f \<Longrightarrow> suffix r s \<Longrightarrow> goodcmd s (redir tok c f) r"
  by (auto simp: goodcmd_def redir_def)

lemma set_add_arg: "set_cmd (add_arg a c) \<subseteq> insert a (set_cmd c)"
  by (induction a c rule: add_arg.induct) auto

lemma parseredirs_good: "parseredirs c ps = Ok c' r \<Longrightarrow> goodcmd s c ps \<Longrightarrow> goodcmd s c' r"
proof (induction c ps rule: parseredirs.induct)
  case (1 c ps)
  obtain b s0 where p: "peek ps ''<>'' = (b, s0)" by fastforce
  obtain tok q1 e1 s1 where g1: "gettoken s0 = (tok, q1, e1, s1)" by (cases "gettoken s0")
  obtain a q e s2 where g2: "gettoken s1 = (a, q, e, s2)" by (cases "gettoken s1")
  have s: "suffix s0 s" "suffix s1 s" "suffix s2 s"
    using 1(3) peek_suffix [OF _ p] gettoken_suffix [OF _ g1] gettoken_suffix [OF _ g2]
    by (auto simp: goodcmd_def)
  show ?case
  proof (cases "b \<and> a = CHR ''a''")
    case True
    then have "goodcmd s (redir tok c (q, e)) s2"
      using goodcmd_redir [OF 1(3)] gettoken_good [OF s(2)] g2 s by blast
    with 1 True p g1 g2 show ?thesis by (subst (asm) (2) parseredirs.simps) auto
  next
    case False
    then show ?thesis
      using 1(2,3) p g1 g2 s by (subst (asm) parseredirs.simps) (auto simp: goodcmd_def split: bool.splits if_splits)
  qed
qed

lemma parseargs_good: "parseargs c argc ps = Ok c' r \<Longrightarrow> goodcmd s c ps \<Longrightarrow> goodcmd s c' r"
proof (induction c argc ps rule: parseargs.induct)
  case (1 c argc ps)
  obtain b s0 where p: "peek ps ''|)&;'' = (b, s0)" by fastforce
  obtain tok q e s1 where g: "gettoken s0 = (tok, q, e, s1)" by (cases "gettoken s0")
  have s: "suffix s0 s" "suffix s1 s"
    using 1(3) peek_suffix [OF _ p] gettoken_suffix [OF _ g] by (auto simp: goodcmd_def)
  show ?case
  proof (cases "\<not> b \<and> tok = CHR ''a''")
    case True
    then have "good s (q, e)" using gettoken_good [OF s(1)] g by simp
    then have a: "goodcmd s (add_arg (q, e) c) s1"
      using 1(3) s(2) set_add_arg [of "(q, e)" c] by (auto simp: goodcmd_def)
    have "\<exists>c2 s2. argc + 1 < MAXARGS \<and> parseredirs (add_arg (q, e) c) s1 = Ok c2 s2 \<and>
        parseargs c2 (argc + 1) s2 = Ok c' r"
      using 1(2) True p g by (subst (asm) parseargs.simps) (auto split: if_splits pres.splits)
    then show ?thesis
      using 1(1) True p g parseredirs_good [OF _ a] by fastforce
  next
    case False
    then show ?thesis
      using 1(2,3) p g s by (subst (asm) parseargs.simps) (auto simp: goodcmd_def split: bool.splits if_splits)
  qed
qed

lemma parseback_good: "goodcmd s c ps \<Longrightarrow> parseback c ps = (c', r) \<Longrightarrow> goodcmd s c' r"
proof (induction c ps rule: parseback.induct)
  case (1 c ps)
  obtain b s0 where p: "peek ps ''&'' = (b, s0)" by fastforce
  have s: "suffix s0 s" "suffix (after_token s0) s"
    using 1(2) peek_suffix [OF _ p] after_token_suffix by (auto simp: goodcmd_def)
  show ?case
  proof (cases b)
    case True
    moreover have "goodcmd s (Back c) (after_token s0)" using 1(2) s by (simp add: goodcmd_def)
    ultimately show ?thesis using 1(1,3) p by (subst (asm) (2) parseback.simps) auto
  next
    case False
    then show ?thesis using 1(2,3) p s by (subst (asm) parseback.simps) (auto simp: goodcmd_def)
  qed
qed

lemma parse_good:
  shows "parseline n ps = Ok c r \<Longrightarrow> suffix ps s \<Longrightarrow> goodcmd s c r"
    and "parsepipe n ps = Ok c r \<Longrightarrow> suffix ps s \<Longrightarrow> goodcmd s c r"
    and "parseexec n ps = Ok c r \<Longrightarrow> suffix ps s \<Longrightarrow> goodcmd s c r"
    and "parseblock n ps = Ok c r \<Longrightarrow> suffix ps s \<Longrightarrow> goodcmd s c r"
proof (induction n arbitrary: ps c r)
  case (Suc n)
  {
    case 1
    then obtain c1 s1 where *: "parsepipe n ps = Ok c1 s1" by (auto simp: pbind_Ok)
    obtain c2 s2 b s3 where **: "parseback c1 s1 = (c2, s2)" "peek s2 '';'' = (b, s3)" by fastforce
    have "goodcmd s c2 s2" using Suc.IH(2) [OF *] 1(2) parseback_good [OF _ **(1)] by blast
    then have g: "goodcmd s c2 s3" "suffix (after_token s3) s"
      using peek_suffix [OF _ **(2)] after_token_suffix by (auto simp: goodcmd_def)
    show ?case
      using 1(1) g Suc.IH(1) [of "after_token s3"] unfolding parseline_Suc [OF * **]
      by (auto simp: pbind_Ok goodcmd_def split: if_splits)
  next
    case 2
    then obtain c1 s1 where *: "parseexec n ps = Ok c1 s1" by (auto simp: pbind_Ok)
    obtain b s2 where **: "peek s1 ''|'' = (b, s2)" by fastforce
    have g: "goodcmd s c1 s2" "suffix (after_token s2) s"
      using Suc.IH(3) [OF * 2(2)] peek_suffix [OF _ **] after_token_suffix by (auto simp: goodcmd_def)
    show ?case
      using 2(1) g Suc.IH(2) [of "after_token s2"] unfolding parsepipe_Suc [OF * **]
      by (auto simp: pbind_Ok goodcmd_def split: if_splits)
  next
    case 3
    obtain b s1 where *: "peek ps ''('' = (b, s1)" by fastforce
    have s: "suffix s1 s" using peek_suffix [OF 3(2) *] .
    then have "goodcmd s (Exec []) s1" by (simp add: goodcmd_def)
    then show ?case
      using 3(1) Suc.IH(4) [of s1] s parseredirs_good parseargs_good unfolding parseexec_Suc [OF *]
      by (fastforce simp: pbind_Ok split: if_splits)
  next
    case 4
    obtain b s1 where *: "peek ps ''('' = (b, s1)" by fastforce
    have s: "suffix (after_token s1) s" using peek_suffix [OF 4(2) *] by (rule after_token_suffix)
    obtain c2 s2 where r: "parseline n (after_token s1) = Ok c2 s2"
        "parseredirs c2 (after_token (snd (peek s2 '')''))) = Ok c r"
      using 4(1) unfolding parseblock_Suc [OF *] by (auto simp: pbind_Ok split: if_splits)
    have "goodcmd s c2 (after_token (snd (peek s2 '')'')))"
      using Suc.IH(1) [OF r(1) s] peek_suffix [of s2 s "'')''"] after_token_suffix
      by (cases "peek s2 '')''") (auto simp: goodcmd_def)
    then show ?case using parseredirs_good [OF r(2)] by blast
  }
qed simp_all

text \<open>
  \<open>kept s buf\<close>: the buffer still has the line \<open>s\<close>, but for NULs in place of characters that are in no
  word.
\<close>

definition kept :: "string \<Rightarrow> string \<Rightarrow> bool" where
  "kept s buf \<longleftrightarrow> length buf = length s \<and>
     (\<forall>i < length s. buf ! i = s ! i \<or> buf ! i = CHR 0x00 \<and> \<not> wordchar (s ! i))"

definition nul_at :: "string \<Rightarrow> ptr \<Rightarrow> bool" where
  "nul_at buf p \<longleftrightarrow> (p \<noteq> [] \<longrightarrow> buf ! (length buf - length p) = CHR 0x00)"

lemma good_end: "good s (q, e) \<Longrightarrow> e \<noteq> [] \<Longrightarrow>
  length e \<le> length s \<and> \<not> wordchar (s ! (length s - length e))"
  by (auto simp: good_def nth_append hd_conv_nth)

lemma poke_kept:
  assumes "good s (q, e)" "kept s buf"
  shows "kept s (poke e buf)" "nul_at (poke e buf) e" "nul_at buf p \<Longrightarrow> nul_at (poke e buf) p"
proof -
  show "kept s (poke e buf)"
  proof (cases "e = []")
    case True
    then show ?thesis using assms(2) by (simp add: poke_def kept_def)
  next
    case False
    have "length s - length e < length s" using good_end [OF assms(1) False] False
      by (metis diff_less length_greater_0_conv list.size(3) less_le_trans)
    then show ?thesis
      using assms(2) good_end [OF assms(1) False] unfolding kept_def poke_def
      by (simp add: nth_list_update)
  qed
  have "length e \<le> length s" using good_end [OF assms(1)] by (cases "e = []") auto
  then show "nul_at (poke e buf) e"
    using assms(2) by (cases e) (auto simp: nul_at_def poke_def kept_def)
  show "nul_at buf p \<Longrightarrow> nul_at (poke e buf) p"
    by (cases "length buf - length e = length buf - length p"; cases "length buf - length e < length buf")
      (auto simp: nul_at_def poke_def list_update_beyond)
qed

text \<open>What a run of \<open>poke\<close> over some words does to the buffer.\<close>

definition ended :: "string \<Rightarrow> word_ptrs set \<Rightarrow> string \<Rightarrow> string \<Rightarrow> bool" where
  "ended s P buf buf' \<longleftrightarrow> kept s buf' \<and> (\<forall>p. nul_at buf p \<longrightarrow> nul_at buf' p) \<and> (\<forall>p \<in> P. nul_at buf' (snd p))"

lemma ended_trans: "ended s P buf buf1 \<Longrightarrow> ended s Q buf1 buf2 \<Longrightarrow> ended s (P \<union> Q) buf buf2"
  unfolding ended_def by blast

lemma ended_poke: "good s (q, e) \<Longrightarrow> kept s buf \<Longrightarrow> ended s {(q, e)} buf (poke e buf)"
  using poke_kept unfolding ended_def by simp

lemma ended_kept: "ended s P buf buf' \<Longrightarrow> kept s buf'"
  by (simp add: ended_def)

lemma ended_fold:
  "\<forall>p \<in> set argv. good s p \<Longrightarrow> kept s buf \<Longrightarrow> ended s (set argv) buf (fold (\<lambda>(q, e). poke e) argv buf)"
proof (induction argv arbitrary: buf)
  case (Cons a argv)
  obtain q e where a: "a = (q, e)" by (cases a)
  have 1: "ended s {(q, e)} buf (poke e buf)" using Cons.prems a by (simp add: ended_poke)
  have "ended s (set argv) (poke e buf) (fold (\<lambda>(q, e). poke e) argv (poke e buf))"
    using Cons.IH Cons.prems ended_kept [OF 1] by simp
  then show ?case using ended_trans [OF 1] a by simp
qed (simp add: ended_def)

lemma nulterminate_kept:
  "\<forall>p \<in> set_cmd c. good s p \<Longrightarrow> kept s buf \<Longrightarrow> ended s (set_cmd c) buf (nulterminate c buf)"
proof (induction c buf rule: nulterminate.induct)
  case (1 argv buf)
  then show ?case using ended_fold [of argv s buf] by simp
next
  case (2 c q e mode fd buf)
  then have c: "ended s (set_cmd c) buf (nulterminate c buf)" by simp
  have "ended s {(q, e)} (nulterminate c buf) (poke e (nulterminate c buf))"
    using 2(2) ended_kept [OF c] by (simp add: ended_poke)
  then show ?case using ended_trans [OF c, of "{(q, e)}"] by simp
next
  case (3 l r buf)
  then have "ended s (set_cmd l) buf (nulterminate l buf)" by simp
  with 3 show ?case using ended_trans ended_kept by fastforce
next
  case (4 l r buf)
  then have "ended s (set_cmd l) buf (nulterminate l buf)" by simp
  with 4 show ?case using ended_trans ended_kept by fastforce
qed simp

lemma cstring_word:
  assumes "good s p" "kept s buf" "nul_at buf (snd p)" "CHR 0x00 \<notin> set s"
  shows "cstring_at buf (fst p) = word_of p"
proof -
  obtain u w where w: "s = u @ w @ snd p" "fst p = w @ snd p" "list_all wordchar w"
    using assms(1) by (auto simp: good_def)
  define r where "r = drop (length u + length w) buf"
  have len: "length buf = length s" using assms(2) by (simp add: kept_def)
  have "drop (length u) buf = w @ r"
  proof (rule nth_equalityI)
    show "length (drop (length u) buf) = length (w @ r)" by (simp add: len w r_def)
    fix i assume i: "i < length (drop (length u) buf)"
    have "buf ! (length u + i) = w ! i" if "i < length w"
    proof -
      have "length u + i < length s" "s ! (length u + i) = w ! i" "wordchar (w ! i)"
        using w that by (auto simp: nth_append list_all_length)
      then show ?thesis using assms(2) by (metis kept_def)
    qed
    then show "drop (length u) buf ! i = (w @ r) ! i"
      using i by (auto simp: nth_append r_def len w add.assoc)
  qed
  moreover have "r = [] \<or> hd r = CHR 0x00"
    using assms(3) by (cases "snd p = []") (auto simp: r_def nul_at_def hd_drop_conv_nth len w)
  moreover have "\<forall>c \<in> set w. c \<noteq> CHR 0x00" using assms(4) w by auto
  ultimately show ?thesis
    by (cases r) (auto simp: cstring_at_def word_of_def len w takeWhile_append2)
qed

lemma parsecmd_line:
  assumes "parsecmd s = Ok c r"
  shows "\<exists>s1. parseline (4 * length s + 4) s = Ok c s1"
proof -
  obtain c1 s1 where *: "parseline (4 * length s + 4) s = Ok c1 s1"
    using assms by (auto simp: parsecmd_def pbind_Ok)
  then show ?thesis using assms by (cases "peek s1 []") (auto simp: parsecmd_def split: if_splits)
qed

lemma nulterminate_reads:
  assumes "parsecmd s = Ok c r" "CHR 0x00 \<notin> set s"
  shows "strings (nulterminate c s) c = map_cmd word_of c"
proof -
  obtain s1 where "parseline (4 * length s + 4) s = Ok c s1"
    using parsecmd_line [OF assms(1)] by blast
  then have g: "\<forall>p \<in> set_cmd c. good s p" using parse_good(1) by (auto simp: goodcmd_def)
  have "kept s s" by (simp add: kept_def)
  note k = nulterminate_kept [OF g this]
  show ?thesis
    unfolding strings_def using g k assms(2)
    by (intro cmd.map_cong0) (auto simp: case_prod_unfold ended_def intro: cstring_word)
qed

text \<open>
  C31: The words of a command are what was typed. When a line parses, every word pointer of
  the command, read as a C string after \<^verbatim>\<open>nulterminate\<close>, gives exactly the characters between the
  pointers that \<^verbatim>\<open>gettoken\<close> set: the NULs that end one word never fall into another, even where a
  word is followed directly by an operator.
\<close>

theorem nulterminate_words:
  assumes "parsecmd s = Ok c r" "CHR 0x00 \<notin> set s"
  shows "strings (nulterminate c s) c = map_cmd word_of c"
  using assms by (rule nulterminate_reads)

theorem nulterminate_words_witness:
  "strings (nulterminate (Redir (Exec [(''ls>x'', ''>x'')]) (''x'', []) O_TRUNCATE 1) ''ls>x'')
     (Redir (Exec [(''ls>x'', ''>x'')]) (''x'', []) O_TRUNCATE 1) = Redir (Exec [''ls'']) ''x'' O_TRUNCATE 1"
proof -
  have "parsecmd ''ls>x'' = Ok (Redir (Exec [(''ls>x'', ''>x'')]) (''x'', []) O_TRUNCATE 1) []"
    by code_simp
  from nulterminate_words [OF this] show ?thesis by (simp add: word_of_def)
qed

section \<open>Running a command never returns\<close>

definition ends :: "('a, 'w) km \<Rightarrow> bool" where
  "ends m \<longleftrightarrow> (\<forall>w. \<exists>w'. m w = Stop Replaced w' \<or> (\<exists>n. m w = Stop (Exited n) w'))"

definition calm :: "('a, 'w) km \<Rightarrow> bool" where
  "calm m \<longleftrightarrow> (\<forall>w. (\<exists>a w'. m w = Ret a w') \<or> (\<exists>w'. m w = Stop Replaced w' \<or> (\<exists>n. m w = Stop (Exited n) w')))"

lemma ends_seq: "calm m \<Longrightarrow> ends n \<Longrightarrow> ends (seq m n)"
  unfolding ends_def calm_def seq_def by (metis outcome.simps(5) outcome.simps(6))

lemma ends_bind: "calm m \<Longrightarrow> (\<And>a. ends (f a)) \<Longrightarrow> ends (bind m f)"
  unfolding ends_def calm_def bind_def by (metis outcome.simps(5) outcome.simps(6))

lemma calm_seq: "calm m \<Longrightarrow> calm n \<Longrightarrow> calm (seq m n)"
  unfolding calm_def seq_def by (metis outcome.simps(5) outcome.simps(6))

lemma calm_bind: "calm m \<Longrightarrow> (\<And>a. calm (f a)) \<Longrightarrow> calm (bind m f)"
  unfolding calm_def bind_def by (metis outcome.simps(5) outcome.simps(6))

lemma ends_calm: "ends m \<Longrightarrow> calm m"
  unfolding ends_def calm_def by blast

lemma ends_exit: "ends (exit n)"
  by (auto simp: ends_def exit_def)

lemma calm_call: "calm (call f)"
  by (auto simp: calm_def call_def split: prod.splits)

lemma calm_exec: "calm (exec S p v)"
  by (auto simp: calm_def exec_def split: prod.splits option.splits)

lemma calm_ret: "calm (ret a)"
  by (simp add: calm_def ret_def)

lemma calm_forall_do: "(\<And>x. calm (f x)) \<Longrightarrow> calm (forall_do xs f)"
  by (induction xs) (auto intro: calm_ret calm_seq)

lemma calm_putc: "calm (putc S fd c)"
  by (auto simp: putc_def uwrite_def intro: calm_seq calm_call calm_ret)

lemma calm_vprintf: "calm (vprintf_loop S fd b fmt ap)"
  by (induction fmt arbitrary: b ap)
    (simp_all add: printint_def printptr_def calm_ret calm_seq calm_putc calm_forall_do)

lemma calm_fprintf: "calm (fprintf S fd fmt ap)"
  by (simp add: fprintf_def vprintf_def calm_vprintf)

lemma ends_shpanic: "ends (shpanic S msg)"
  by (auto simp: shpanic_def intro: ends_seq calm_fprintf ends_exit)

lemma calm_fork1: "calm (fork1 S)"
  by (auto simp: fork1_def intro!: calm_bind calm_call calm_ret ends_calm [OF ends_shpanic])

lemma runcmd_ends: "ends (runcmd S c)"
  by (induction c)
    (auto intro!: ends_seq ends_bind ends_exit ends_shpanic calm_call calm_exec calm_fprintf calm_fork1
      calm_ret calm_seq simp: ends_calm split: option.splits prod.splits)

text \<open>
  C33: \<^verbatim>\<open>runcmd\<close> never returns, as its declaration says: whatever the system calls answer, a run
  of a command ends in \<^verbatim>\<open>exit\<close> or in a program that \<^verbatim>\<open>exec\<close> has loaded; it does not hang.
\<close>

theorem runcmd_never_returns:
  "\<exists>w'. runcmd S c w = Stop Replaced w' \<or> (\<exists>n. runcmd S c w = Stop (Exited n) w')"
  using runcmd_ends [of S c] by (auto simp: ends_def)

section \<open>Larger fuel\<close>

lemma pbind_cong: "r = r' \<Longrightarrow> (\<And>a s. r' = Ok a s \<Longrightarrow> f a s = g a s) \<Longrightarrow> pbind r f = pbind r' g"
  by (cases r') auto

lemma parse_mono_Suc:
  shows "parseline n ps \<noteq> NoFuel \<Longrightarrow> parseline (Suc n) ps = parseline n ps"
    and "parsepipe n ps \<noteq> NoFuel \<Longrightarrow> parsepipe (Suc n) ps = parsepipe n ps"
    and "parseexec n ps \<noteq> NoFuel \<Longrightarrow> parseexec (Suc n) ps = parseexec n ps"
    and "parseblock n ps \<noteq> NoFuel \<Longrightarrow> parseblock (Suc n) ps = parseblock n ps"
proof (induction n arbitrary: ps)
  case (Suc n)
  {
    case 1
    then have p: "parsepipe n ps \<noteq> NoFuel" by (auto simp: pbind_NoFuel)
    show ?case
      using Suc.IH(1) 1 unfolding parseline.simps(2) [of "Suc n"] parseline.simps(2) [of n] Suc.IH(2) [OF p]
      by (intro pbind_cong refl)
        (auto simp: pbind_NoFuel case_prod_unfold bool.case_eq_if intro!: pbind_cong split: if_splits)
  next
    case 2
    then have p: "parseexec n ps \<noteq> NoFuel" by (auto simp: pbind_NoFuel)
    show ?case
      using Suc.IH(2) 2 unfolding parsepipe.simps(2) [of "Suc n"] parsepipe.simps(2) [of n] Suc.IH(3) [OF p]
      by (intro pbind_cong refl)
        (auto simp: pbind_NoFuel case_prod_unfold bool.case_eq_if intro!: pbind_cong split: if_splits)
  next
    case 3
    obtain b s where *: "peek ps ''('' = (b, s)" by fastforce
    show ?case using 3 Suc.IH(4) [of s] unfolding parseexec_Suc [OF *] by (simp split: if_splits)
  next
    case 4
    obtain b s where *: "peek ps ''('' = (b, s)" by fastforce
    show ?case
      using 4 Suc.IH(1) [of "after_token s"] unfolding parseblock_Suc [OF *]
      by (auto simp: pbind_NoFuel split: if_splits)
  }
qed simp_all

lemma parse_mono:
  assumes "n \<le> m"
  shows "parseline n ps = Ok c s \<Longrightarrow> parseline m ps = Ok c s"
    and "parsepipe n ps = Ok c s \<Longrightarrow> parsepipe m ps = Ok c s"
    and "parseexec n ps = Ok c s \<Longrightarrow> parseexec m ps = Ok c s"
proof -
  have "parseline n ps = Ok c s \<Longrightarrow> parseline (n + k) ps = Ok c s"
      "parsepipe n ps = Ok c s \<Longrightarrow> parsepipe (n + k) ps = Ok c s"
      "parseexec n ps = Ok c s \<Longrightarrow> parseexec (n + k) ps = Ok c s" for k
    by (induction k) (simp_all add: parse_mono_Suc del: parseline.simps parsepipe.simps parseexec.simps)
  from this [of "m - n"] show "parseline n ps = Ok c s \<Longrightarrow> parseline m ps = Ok c s"
      "parsepipe n ps = Ok c s \<Longrightarrow> parsepipe m ps = Ok c s"
      "parseexec n ps = Ok c s \<Longrightarrow> parseexec m ps = Ok c s"
    using assms by simp_all
qed

section \<open>Printing and parsing\<close>

text \<open>
  A command as the user may type it: words and redirections with a blank after them, and
  parentheses where the grammar needs them. The level is that of the parser routine that is to read
  the text: 0 for \<^verbatim>\<open>parseline\<close>, 1 for its part before \<^verbatim>\<open>;\<close>, 2 for \<^verbatim>\<open>parsepipe\<close> and 3 for \<^verbatim>\<open>parseexec\<close>.
\<close>

definition paren :: "bool \<Rightarrow> string \<Rightarrow> string" where
  "paren b s = (if b then ''('' @ s @ '')'' else s)"

definition words_text :: "string list \<Rightarrow> string" where
  "words_text ws = concat (map (\<lambda>w. w @ '' '') ws)"

definition redir_text :: "string \<Rightarrow> nat \<Rightarrow> string" where
  "redir_text f mode =
     (if mode = O_READ then ''<'' else if mode = O_TRUNCATE then ''>'' else ''>>'') @ f @ '' ''"

primrec cmd_text :: "nat \<Rightarrow> string cmd \<Rightarrow> string" where
  "cmd_text lv (Exec ws) = words_text ws"
| "cmd_text lv (Redir c f mode fd) = cmd_text 3 c @ redir_text f mode"
| "cmd_text lv (Pipe l r) = paren (lv > 2) (cmd_text 3 l @ ''|'' @ cmd_text 2 r)"
| "cmd_text lv (Back c) = paren (lv > 1) (cmd_text 1 c @ ''&'')"
| "cmd_text lv (List l r) = paren (lv > 0) (cmd_text 1 l @ '';'' @ cmd_text 0 r)"

text \<open>Commands that can be typed: non-empty words of word characters, at most nine, and the three redirections.\<close>

definition okword :: "string \<Rightarrow> bool" where
  "okword w \<longleftrightarrow> w \<noteq> [] \<and> list_all wordchar w"

definition okredir :: "string \<Rightarrow> nat \<Rightarrow> int \<Rightarrow> bool" where
  "okredir f mode fd \<longleftrightarrow> okword f \<and> (mode, fd) \<in> {(O_READ, 0), (O_TRUNCATE, 1), (O_APPEND, 1)}"

primrec typable :: "string cmd \<Rightarrow> bool" where
  "typable (Exec ws) \<longleftrightarrow> list_all okword ws \<and> length ws < MAXARGS"
| "typable (Redir c f mode fd) \<longleftrightarrow> typable c \<and> okredir f mode fd"
| "typable (Pipe l r) \<longleftrightarrow> typable l \<and> typable r"
| "typable (List l r) \<longleftrightarrow> typable l \<and> typable r"
| "typable (Back c) \<longleftrightarrow> typable c"

text \<open>The rest of a line begins, after blanks, with one of the given symbols or is blank.\<close>

definition begins :: "string \<Rightarrow> string \<Rightarrow> bool" where
  "begins syms rest \<longleftrightarrow> (case skip rest of [] \<Rightarrow> True | c # _ \<Rightarrow> c \<in> set syms)"

lemma wordchar_facts:
  assumes "wordchar c"
  shows "\<not> white c" "c \<notin> {CHR ''<'', CHR ''|'', CHR ''>'', CHR ''&'', CHR '';'', CHR ''('', CHR '')''}"
  using assms by (auto simp: wordchar_def symbol_iff)

lemma white_space [simp]: "white (CHR '' '')" and not_white_symbol:
  "c \<in> set ''<|>&;()'' \<Longrightarrow> \<not> white c"
  by (auto simp: white_def)

lemma skip_word: "okword w \<Longrightarrow> skip (w @ r) = w @ r"
  by (cases w) (auto simp: okword_def skip_def wordchar_def)

lemma skip_symbol: "c \<in> set ''<|>&;()'' \<Longrightarrow> skip (c # r) = c # r"
  by (simp add: skip_def not_white_symbol del: set_simps)

lemma skip_space [simp]: "skip (CHR '' '' # r) = skip r"
  by (simp add: skip_def)

lemma strchr_set: "CHR 0x00 \<notin> set t \<Longrightarrow> strchr t c \<noteq> None \<longleftrightarrow> c \<in> set t"
  by (induction t) auto

lemma peek_begins:
  assumes "CHR 0x00 \<notin> set toks"
  shows "peek ps toks = (skip ps \<noteq> [] \<and> hd (skip ps) \<in> set toks, skip ps)"
  using strchr_set [OF assms, of "hd (skip ps)"] by (simp add: peek_eq)

lemma gettoken_word_eq:
  assumes "okword w" "r = [] \<or> \<not> wordchar (hd r)"
  shows "gettoken (w @ r) = (CHR ''a'', w @ r, r, skip r)"
proof -
  obtain c w' where w: "w = c # w'" "wordchar c" "list_all wordchar w'"
    using assms(1) by (cases w) (auto simp: okword_def)
  have "dropWhile wordchar (w @ r) = r"
    using assms w by (cases r) (auto simp: list_all_iff dropWhile_append2)
  then show ?thesis
    using wordchar_facts [OF w(2)] w(1) skip_word [OF assms(1), of r]
    unfolding gettoken_def wordchar_fun by (simp add: Let_def)
qed

lemma after_symbol:
  "c \<in> set ''|&;()<'' \<Longrightarrow> after_token (c # r) = skip r"
  using skip_symbol [of c r] by (auto simp: gettoken_def Let_def)

text \<open>The parser looks at its input only after skipping blanks.\<close>

lemma peek_skip [simp]: "peek (skip ps) toks = peek ps toks"
  by (simp add: peek_def)

lemma parseredirs_skip: "parseredirs c (skip ps) = parseredirs c ps"
  by (subst (1 2) parseredirs.simps) simp

lemma parseargs_skip: "parseargs c n (skip ps) = parseargs c n ps"
  by (subst (1 2) parseargs.simps) simp

lemma parseback_skip: "parseback c (skip ps) = parseback c ps"
  by (subst (1 2) parseback.simps) simp

lemma parse_skip:
  shows "parseblock n (skip ps) = parseblock n ps" "parseexec n (skip ps) = parseexec n ps"
    and "parsepipe n (skip ps) = parsepipe n ps" "parseline n (skip ps) = parseline n ps"
proof -
  show "parseblock n (skip ps) = parseblock n ps" for n by (cases n) simp_all
  show e: "parseexec n (skip ps) = parseexec n ps" for n by (cases n) simp_all
  show p: "parsepipe n (skip ps) = parsepipe n ps" for n by (cases n) (simp_all add: e)
  show "parseline n (skip ps) = parseline n ps" for n by (cases n) (simp_all add: p)
qed

abbreviation read_cmd :: "word_ptrs cmd \<Rightarrow> string cmd" where
  "read_cmd c \<equiv> map_cmd word_of c"

text \<open>A command with its redirections around it, the first one innermost.\<close>

primrec wrap :: "'p cmd \<Rightarrow> ('p \<times> nat \<times> int) list \<Rightarrow> 'p cmd" where
  "wrap c [] = c"
| "wrap c (r # rs) = (case r of (f, mode, fd) \<Rightarrow> wrap (Redir c f mode fd) rs)"

definition redirs_text :: "(string \<times> nat \<times> int) list \<Rightarrow> string" where
  "redirs_text rs = concat (map (\<lambda>(f, mode, fd). redir_text f mode) rs)"

lemma read_redir: "read_cmd (redir tok c p) = redir tok (read_cmd c) (word_of p)"
  by (simp add: redir_def)

lemma word_of_append [simp]: "word_of (w @ r, r) = w"
  by (simp add: word_of_def)

lemma space_not_word: "\<not> wordchar (CHR '' '')"
  by (simp add: wordchar_def)

lemma redir_step:
  assumes "okredir f mode fd"
  shows "\<exists>tok q e s1 p.
    peek (redir_text f mode @ r) ''<>'' = (True, redir_text f mode @ r) \<and>
    gettoken (redir_text f mode @ r) = (tok, q, e, s1) \<and>
    gettoken s1 = (CHR ''a'', fst p, snd p, skip r) \<and> word_of p = f \<and>
    redir tok c f = Redir c f mode fd"
proof -
  have f: "okword f" using assms by (simp add: okredir_def)
  let ?r = "CHR '' '' # r"
  have w: "gettoken (f @ ?r) = (CHR ''a'', f @ ?r, ?r, skip r)"
    using gettoken_word_eq [OF f, of ?r] by (simp add: space_not_word)
  note s = skip_word [OF f, of ?r]
  have h: "f \<noteq> []" "hd f \<noteq> CHR ''>''"
    using f wordchar_facts(2) [of "hd f"] by (auto simp: okword_def list_all_iff)
  consider "mode = O_READ" "fd = 0" | "mode = O_TRUNCATE" "fd = 1" | "mode = O_APPEND" "fd = 1"
    using assms by (auto simp: okredir_def)
  then show ?thesis
  proof cases
    case 1
    then show ?thesis
      using w s by (intro exI [of _ "CHR ''<''"] exI [of _ "_ # _"] exI [of _ "f @ ?r"] exI [of _ "(f @ ?r, ?r)"])
        (auto simp: redir_text_def peek_begins skip_symbol gettoken_def Let_def redir_def)
  next
    case 2
    have "chr_at (f @ ?r) \<noteq> CHR ''>''" using h by (cases f) (auto simp: chr_at_def)
    then show ?thesis
      using 2 w s by (intro exI [of _ "CHR ''>''"] exI [of _ "_ # _"] exI [of _ "f @ ?r"] exI [of _ "(f @ ?r, ?r)"])
        (auto simp: redir_text_def O_READ_def O_TRUNCATE_def peek_begins skip_symbol gettoken_def Let_def redir_def)
  next
    case 3
    then show ?thesis
      using w s by (intro exI [of _ "CHR ''+''"] exI [of _ "_ # _"] exI [of _ "f @ ?r"] exI [of _ "(f @ ?r, ?r)"])
        (auto simp: redir_text_def O_READ_def O_TRUNCATE_def O_APPEND_def peek_begins skip_symbol gettoken_def
          Let_def redir_def chr_at_def)
  qed
qed

lemma parseredirs_stop:
  assumes "skip r = [] \<or> hd (skip r) \<notin> {CHR ''<'', CHR ''>''}"
  shows "parseredirs c r = Ok c (skip r)"
  using assms by (subst parseredirs.simps) (auto simp: peek_begins)

lemma parseredirs_text:
  assumes "skip r = [] \<or> hd (skip r) \<notin> {CHR ''<'', CHR ''>''}"
  shows "list_all (\<lambda>(f, mode, fd). okredir f mode fd) rs \<Longrightarrow>
    \<exists>c'. parseredirs c (redirs_text rs @ r) = Ok c' (skip r) \<and> read_cmd c' = wrap (read_cmd c) rs"
proof (induction rs arbitrary: c)
  case Nil
  then show ?case using parseredirs_stop [OF assms] by (simp add: redirs_text_def)
next
  case (Cons x rs)
  obtain f mode fd where x: "x = (f, mode, fd)" by (cases x)
  let ?r = "redirs_text rs @ r"
  obtain tok q e s1 p where *:
    "peek (redir_text f mode @ ?r) ''<>'' = (True, redir_text f mode @ ?r)"
    "gettoken (redir_text f mode @ ?r) = (tok, q, e, s1)"
    "gettoken s1 = (CHR ''a'', fst p, snd p, skip ?r)" "word_of p = f"
    "redir tok (read_cmd c) f = Redir (read_cmd c) f mode fd"
    using redir_step [of f mode fd ?r "read_cmd c"] Cons.prems x by auto
  have "parseredirs c (redirs_text (x # rs) @ r) = parseredirs (redir tok c p) ?r"
    using *(1-3) x by (subst parseredirs.simps) (simp add: redirs_text_def parseredirs_skip)
  moreover have "read_cmd (redir tok c p) = Redir (read_cmd c) f mode fd"
    using *(4,5) by (simp add: read_redir)
  ultimately show ?case using Cons.IH [of "redir tok c p"] Cons.prems x by simp
qed

lemma parseargs_stop:
  assumes "begins ''|)&;'' r"
  shows "parseargs c n r = Ok c (skip r)"
proof (cases "skip r = []")
  case True
  then show ?thesis by (subst parseargs.simps) (simp add: peek_begins gettoken_def)
next
  case False
  then show ?thesis
    using assms by (subst parseargs.simps) (auto simp: peek_begins begins_def split: list.splits)
qed

lemma begins_no_redir: "begins ''|)&;'' r \<Longrightarrow> skip r = [] \<or> hd (skip r) \<notin> {CHR ''<'', CHR ''>''}"
  by (auto simp: begins_def split: list.splits)

lemma parseargs_text:
  assumes "begins ''|)&;'' r" "list_all (\<lambda>(f, mode, fd). okredir f mode fd) rs"
  shows "list_all okword ws \<Longrightarrow> ws \<noteq> [] \<Longrightarrow> n + length ws < MAXARGS \<Longrightarrow>
    \<exists>c'. parseargs (Exec as) n (words_text ws @ redirs_text rs @ r) = Ok c' (skip r) \<and>
      read_cmd c' = wrap (Exec (map word_of as @ ws)) rs"
proof (induction ws arbitrary: as n)
  case (Cons w ws)
  let ?t = "words_text ws @ redirs_text rs @ r" and ?q = "words_text (w # ws) @ redirs_text rs @ r"
  have w: "okword w" using Cons.prems by simp
  have q: "?q = w @ CHR '' '' # ?t" by (simp add: words_text_def)
  have g: "gettoken ?q = (CHR ''a'', ?q, CHR '' '' # ?t, skip ?t)"
    unfolding q using gettoken_word_eq [OF w, of "CHR '' '' # ?t"] by (simp add: space_not_word)
  have s: "skip ?q = ?q" unfolding q by (rule skip_word [OF w])
  have "hd ?q = hd w" unfolding q using w by (simp add: okword_def)
  moreover have "wordchar (hd w)" using w by (simp add: okword_def list_all_iff)
  ultimately have "peek ?q ''|)&;'' = (False, ?q)"
    using s wordchar_facts(2) [of "hd w"] by (simp add: peek_begins)
  then have step: "parseargs (Exec as) n ?q =
      (case parseredirs (Exec (as @ [(?q, CHR '' '' # ?t)])) ?t of
         Ok c' s2 \<Rightarrow> parseargs c' (n + 1) s2 | Err m \<Rightarrow> Err m | NoFuel \<Rightarrow> NoFuel)"
    using g Cons.prems by (subst parseargs.simps) (simp add: parseredirs_skip)
  have wo: "word_of (?q, CHR '' '' # ?t) = w" unfolding q by (rule word_of_append)
  show ?case
  proof (cases "ws = []")
    case True
    obtain c' where c': "parseredirs (Exec (as @ [(?q, CHR '' '' # ?t)])) ?t = Ok c' (skip r)"
        "read_cmd c' = wrap (Exec (map word_of as @ [w])) rs"
      using parseredirs_text [OF begins_no_redir [OF assms(1)] assms(2), of "Exec (as @ [(?q, CHR '' '' # ?t)])"]
        True wo by (auto simp: words_text_def)
    then show ?thesis
      using step parseargs_stop [OF assms(1)] True by (simp add: parseargs_skip)
  next
    case False
    then have "skip ?t = ?t" "skip ?t \<noteq> []" "wordchar (hd (skip ?t))"
      using Cons.prems(1) skip_word
      by (auto simp: words_text_def neq_Nil_conv okword_def list_all_iff)
    then have "parseredirs (Exec (as @ [(?q, CHR '' '' # ?t)])) ?t = Ok (Exec (as @ [(?q, CHR '' '' # ?t)])) ?t"
      using parseredirs_stop [of ?t] wordchar_facts(2) by fastforce
    then show ?thesis
      using step Cons.IH [of "n + 1" "as @ [(?q, CHR '' '' # ?t)]"] Cons.prems False wo by simp
  qed
qed simp

text \<open>What each parser routine makes of the text of a command, read at its level.\<close>

definition execs :: "string cmd \<Rightarrow> bool" where
  "execs c \<longleftrightarrow> (\<forall>r. begins ''|)&;'' r \<longrightarrow>
     (\<exists>n c'. parseexec n (cmd_text 3 c @ r) = Ok c' (skip r) \<and> read_cmd c' = c))"

definition pipes :: "string cmd \<Rightarrow> bool" where
  "pipes c \<longleftrightarrow> (\<forall>r. begins '')&;'' r \<longrightarrow>
     (\<exists>n c'. parsepipe n (cmd_text 2 c @ r) = Ok c' (skip r) \<and> read_cmd c' = c))"

definition backs :: "string cmd \<Rightarrow> bool" where
  "backs c \<longleftrightarrow> (\<forall>k r. begins '');'' r \<longrightarrow>
     (\<exists>n c1 s1 c'. parsepipe n (cmd_text 1 c @ replicate k (CHR ''&'') @ r) = Ok c1 s1 \<and>
        parseback c1 s1 = (c', skip r) \<and> read_cmd c' = (Back ^^ k) c))"

definition lines :: "string cmd \<Rightarrow> bool" where
  "lines c \<longleftrightarrow> (\<forall>r. begins '')'' r \<longrightarrow>
     (\<exists>n c'. parseline n (cmd_text 0 c @ r) = Ok c' (skip r) \<and> read_cmd c' = c))"

lemma begins_symbol: "c \<in> set ''<|>&;()'' \<Longrightarrow> begins syms (c # r) = (c \<in> set syms)"
  by (simp only: begins_def skip_symbol list.case)

lemma begins_mono: "begins syms r \<Longrightarrow> set syms \<subseteq> set syms' \<Longrightarrow> begins syms' r"
  by (auto simp: begins_def split: list.splits)

lemma peek_no: "begins syms r \<Longrightarrow> set syms \<inter> set toks = {} \<Longrightarrow> CHR 0x00 \<notin> set toks \<Longrightarrow>
  peek (skip r) toks = (False, skip r)"
  by (auto simp: peek_begins begins_def split: list.splits)

lemma peek_yes: "c \<in> set toks \<Longrightarrow> c \<in> set ''<|>&;()'' \<Longrightarrow> CHR 0x00 \<notin> set toks \<Longrightarrow>
  peek (c # r) toks = (True, c # r)"
  using peek_begins [of toks "c # r"] skip_symbol [of c r] by auto

lemma pipes_execs:
  assumes "execs c" "cmd_text 2 c = cmd_text 3 c"
  shows "pipes c"
  unfolding pipes_def
proof (intro allI impI)
  fix r assume r: "begins '')&;'' r"
  then obtain n c' where e: "parseexec n (cmd_text 3 c @ r) = Ok c' (skip r)" "read_cmd c' = c"
    using assms(1) begins_mono [OF r, of "''|)&;''"] by (auto simp: execs_def)
  have "parsepipe (Suc n) (cmd_text 2 c @ r) = Ok c' (skip r)"
    using parsepipe_Suc [OF e(1) peek_no [OF r, of "''|''"]] assms(2) by simp
  then show "\<exists>n c'. parsepipe n (cmd_text 2 c @ r) = Ok c' (skip r) \<and> read_cmd c' = c"
    using e(2) by blast
qed

lemma pipes_Pipe:
  assumes "execs l" "pipes r"
  shows "pipes (Pipe l r)"
  unfolding pipes_def
proof (intro allI impI)
  fix t assume t: "begins '')&;'' t"
  let ?r = "CHR ''|'' # cmd_text 2 r @ t"
  obtain n c1 where 1: "parseexec n (cmd_text 3 l @ ?r) = Ok c1 (skip ?r)" "read_cmd c1 = l"
    using assms(1) begins_symbol [of "CHR ''|''" "''|)&;''"] unfolding execs_def by force
  obtain m c2 where 2: "parsepipe m (cmd_text 2 r @ t) = Ok c2 (skip t)" "read_cmd c2 = r"
    using assms(2) t by (auto simp: pipes_def)
  let ?m = "max n m"
  have 3: "parseexec ?m (cmd_text 3 l @ ?r) = Ok c1 ?r"
    using parse_mono(3) [OF max.cobounded1 1(1)] by (simp add: skip_symbol)
  have "parsepipe (Suc ?m) (cmd_text 3 l @ ?r) = Ok (Pipe c1 c2) (skip t)"
    using parsepipe_Suc [OF 3 peek_yes [of "CHR ''|''" "''|''"]] parse_mono(2) [OF max.cobounded2 2(1)]
    by (simp add: after_symbol parse_skip)
  then show "\<exists>n c'. parsepipe n (cmd_text 2 (Pipe l r) @ t) = Ok c' (skip t) \<and> read_cmd c' = Pipe l r"
    using 1(2) 2(2) by (intro exI [of _ "Suc ?m"] exI [of _ "Pipe c1 c2"])
      (simp add: paren_def del: parsepipe.simps)
qed

lemma parseback_text:
  assumes "begins '');'' r"
  shows "parseback c (skip (replicate k (CHR ''&'') @ r)) = ((Back ^^ k) c, skip r)"
proof (induction k arbitrary: c)
  case 0
  then show ?case
    using peek_no [OF assms, of "''&''"] by (subst parseback.simps) simp
next
  case (Suc k)
  have "parseback c (skip (replicate (Suc k) (CHR ''&'') @ r)) =
      parseback (Back c) (skip (replicate k (CHR ''&'') @ r))"
    by (subst parseback.simps) (simp add: peek_yes skip_symbol after_symbol)
  then show ?case using Suc by (simp add: funpow_swap1)
qed

lemma read_Backs: "read_cmd ((Back ^^ k) c) = (Back ^^ k) (read_cmd c)"
  by (induction k) simp_all

lemma backs_pipes:
  assumes "pipes c" "cmd_text 1 c = cmd_text 2 c"
  shows "backs c"
  unfolding backs_def
proof (intro allI impI)
  fix k r assume r: "begins '');'' r"
  let ?r = "replicate k (CHR ''&'') @ r"
  have "begins '')&;'' ?r"
    using begins_mono [OF r, of "'')&;''"] by (cases k) (auto simp: begins_symbol)
  then obtain n c1 where "parsepipe n (cmd_text 2 c @ ?r) = Ok c1 (skip ?r)" "read_cmd c1 = c"
    using assms(1) by (auto simp: pipes_def)
  then show "\<exists>n c1 s1 c'. parsepipe n (cmd_text 1 c @ ?r) = Ok c1 s1 \<and>
      parseback c1 s1 = (c', skip r) \<and> read_cmd c' = (Back ^^ k) c"
    using parseback_text [OF r, of c1 k] read_Backs [of k c1] assms(2) by metis
qed

lemma backs_Back: "backs c \<Longrightarrow> backs (Back c)"
  unfolding backs_def
proof (intro allI impI)
  fix k r assume c: "\<forall>k r. begins '');'' r \<longrightarrow>
      (\<exists>n c1 s1 c'. parsepipe n (cmd_text 1 c @ replicate k (CHR ''&'') @ r) = Ok c1 s1 \<and>
         parseback c1 s1 = (c', skip r) \<and> read_cmd c' = (Back ^^ k) c)" and r: "begins '');'' r"
  from spec [OF spec [OF c, of "Suc k"], of r] r
  show "\<exists>n c1 s1 c'. parsepipe n (cmd_text 1 (Back c) @ replicate k (CHR ''&'') @ r) = Ok c1 s1 \<and>
      parseback c1 s1 = (c', skip r) \<and> read_cmd c' = (Back ^^ k) (Back c)"
    by (simp add: paren_def funpow_swap1 del: parsepipe.simps)
qed

lemma lines_backs:
  assumes "backs c" "cmd_text 0 c = cmd_text 1 c"
  shows "lines c"
  unfolding lines_def
proof (intro allI impI)
  fix r assume r: "begins '')'' r"
  have "begins '');'' r" using begins_mono [OF r, of "'');''"] by simp
  then obtain n c1 s1 c' where *: "parsepipe n (cmd_text 1 c @ r) = Ok c1 s1"
      "parseback c1 s1 = (c', skip r)" "read_cmd c' = c"
    using assms(1) [unfolded backs_def, rule_format, of r 0] by auto
  have "parseline (Suc n) (cmd_text 0 c @ r) = Ok c' (skip r)"
    using parseline_Suc [OF *(1,2) peek_no [OF r, of "'';''"]] assms(2) by simp
  then show "\<exists>n c'. parseline n (cmd_text 0 c @ r) = Ok c' (skip r) \<and> read_cmd c' = c"
    using *(3) by blast
qed

lemma lines_List:
  assumes "backs l" "lines r"
  shows "lines (List l r)"
  unfolding lines_def
proof (intro allI impI)
  fix t assume t: "begins '')'' t"
  let ?r = "CHR '';'' # cmd_text 0 r @ t"
  have "begins '');'' ?r" using begins_symbol [of "CHR '';''" "'');''"] by simp
  then obtain n c1 s1 c1' where 1: "parsepipe n (cmd_text 1 l @ ?r) = Ok c1 s1"
      "parseback c1 s1 = (c1', skip ?r)" "read_cmd c1' = l"
    using assms(1) [unfolded backs_def, rule_format, of ?r 0] by auto
  obtain m c2 where 2: "parseline m (cmd_text 0 r @ t) = Ok c2 (skip t)" "read_cmd c2 = r"
    using assms(2) t unfolding lines_def by blast
  let ?m = "max n m"
  have p: "peek (skip ?r) '';'' = (True, ?r)" using peek_yes [of "CHR '';''" "'';''"] by simp
  have "parseline (Suc ?m) (cmd_text 1 l @ ?r) = Ok (List c1' c2) (skip t)"
    using parseline_Suc [OF parse_mono(2) [OF max.cobounded1 1(1)] 1(2) p]
      parse_mono(1) [OF max.cobounded2 2(1)]
    by (simp add: after_symbol parse_skip)
  then show "\<exists>n c'. parseline n (cmd_text 0 (List l r) @ t) = Ok c' (skip t) \<and> read_cmd c' = List l r"
    using 1(3) 2(2) by (intro exI [of _ "Suc ?m"] exI [of _ "List c1' c2"])
      (simp add: paren_def del: parseline.simps)
qed

lemma cmd_text_wrap: "cmd_text 3 (wrap c rs) = cmd_text 3 c @ redirs_text rs"
  by (induction rs arbitrary: c) (auto simp: redirs_text_def)

lemma execs_block:
  assumes "lines c" "cmd_text 3 c = paren True (cmd_text 0 c)"
    and rs: "list_all (\<lambda>(f, mode, fd). okredir f mode fd) rs"
  shows "execs (wrap c rs)"
  unfolding execs_def
proof (intro allI impI)
  fix r assume r: "begins ''|)&;'' r"
  let ?r = "redirs_text rs @ r" and ?i = "cmd_text 0 c @ CHR '')'' # redirs_text rs @ r"
  have tx: "cmd_text 3 (wrap c rs) @ r = CHR ''('' # ?i"
    using assms(2) by (simp add: cmd_text_wrap paren_def)
  have "begins '')'' (CHR '')'' # ?r)" using begins_symbol [of "CHR '')''" "'')''"] by simp
  then obtain n c1 where 1: "parseline n ?i = Ok c1 (skip (CHR '')'' # ?r))" "read_cmd c1 = c"
    using assms(1) unfolding lines_def by blast
  obtain c2 where 2: "parseredirs c1 ?r = Ok c2 (skip r)" "read_cmd c2 = wrap c rs"
    using parseredirs_text [OF begins_no_redir [OF r] rs, of c1] 1(2) by auto
  have p: "peek (CHR ''('' # ?i) ''('' = (True, CHR ''('' # ?i)"
      "peek (CHR '')'' # ?r) '')'' = (True, CHR '')'' # ?r)" by (simp_all add: peek_yes)
  have "parseblock (Suc n) (CHR ''('' # ?i) = Ok c2 (skip r)"
    using 1(1) 2(1) p(2) unfolding parseblock_Suc [OF p(1)]
    by (simp add: after_symbol parse_skip skip_symbol parseredirs_skip)
  then have "parseexec (Suc (Suc n)) (CHR ''('' # ?i) = Ok c2 (skip r)"
    unfolding parseexec_Suc [OF p(1)] by simp
  then show "\<exists>n c'. parseexec n (cmd_text 3 (wrap c rs) @ r) = Ok c' (skip r) \<and> read_cmd c' = wrap c rs"
    using 2(2) tx by metis
qed

lemma text_no_paren:
  assumes "begins ''|)&;'' r" "list_all okword ws"
  shows "peek (words_text ws @ redirs_text rs @ r) ''('' = (False, skip (words_text ws @ redirs_text rs @ r))"
    (is "peek ?t _ = _")
proof -
  have "skip ?t = [] \<or> hd (skip ?t) \<noteq> CHR ''(''"
  proof (cases ws)
    case (Cons w ws')
    then have "skip ?t = ?t" "hd ?t = hd w" "wordchar (hd w)"
      using assms(2) skip_word [of w] by (auto simp: words_text_def okword_def list_all_iff)
    then show ?thesis using wordchar_facts(2) [of "hd w"] by auto
  next
    case Nil
    show ?thesis
    proof (cases rs)
      case (Cons x rs')
      obtain f mode fd where x: "x = (f, mode, fd)" by (cases x)
      have "\<exists>c t. redir_text f mode = c # t \<and> c \<in> {CHR ''<'', CHR ''>''}"
        by (simp add: redir_text_def)
      then obtain c u where "?t = c # u" "c \<in> {CHR ''<'', CHR ''>''}"
        using Nil Cons x by (auto simp: words_text_def redirs_text_def)
      then show ?thesis by (auto simp: skip_symbol)
    next
      case Nil
      then show ?thesis
        using assms(1) \<open>ws = []\<close>
        by (auto simp: words_text_def redirs_text_def begins_def split: list.splits)
    qed
  qed
  then show ?thesis by (auto simp: peek_begins)
qed

lemma execs_Exec:
  assumes "list_all okword ws" "length ws < MAXARGS"
    and rs: "list_all (\<lambda>(f, mode, fd). okredir f mode fd) rs"
  shows "execs (wrap (Exec ws) rs)"
  unfolding execs_def
proof (intro allI impI)
  fix r assume r: "begins ''|)&;'' r"
  let ?t = "words_text ws @ redirs_text rs @ r"
  note p = text_no_paren [OF r assms(1), of rs]
  have "\<exists>c'. pbind (parseredirs (Exec []) (skip ?t)) (\<lambda>c s. parseargs c 0 s) = Ok c' (skip r) \<and>
      read_cmd c' = wrap (Exec ws) rs"
  proof (cases "ws = []")
    case True
    then obtain c' where "parseredirs (Exec []) ?t = Ok c' (skip r)" "read_cmd c' = wrap (Exec []) rs"
      using parseredirs_text [OF begins_no_redir [OF r] rs, of "Exec []"] by (auto simp: words_text_def)
    then show ?thesis using parseargs_stop [OF r] True by (simp add: parseredirs_skip parseargs_skip)
  next
    case False
    then have "skip ?t \<noteq> []" "wordchar (hd (skip ?t))"
      using assms(1) skip_word by (auto simp: words_text_def neq_Nil_conv okword_def list_all_iff)
    then have "parseredirs (Exec []) ?t = Ok (Exec []) (skip ?t)"
      using parseredirs_stop [of ?t] wordchar_facts(2) by fastforce
    then show ?thesis
      using parseargs_text [OF r rs assms(1) False, of 0 "[]"] assms(2)
      by (simp add: parseredirs_skip parseargs_skip)
  qed
  then show "\<exists>n c'. parseexec n (cmd_text 3 (wrap (Exec ws) rs) @ r) = Ok c' (skip r) \<and>
      read_cmd c' = wrap (Exec ws) rs"
    using parseexec_Suc [OF p, of 0] by (intro exI [of _ "Suc 0"]) (simp add: cmd_text_wrap)
qed

lemma cmd_reads:
  "typable c \<Longrightarrow>
     (\<forall>rs. list_all (\<lambda>(f, mode, fd). okredir f mode fd) rs \<longrightarrow> execs (wrap c rs)) \<and>
     pipes c \<and> backs c \<and> lines c"
proof (induction c)
  case (Exec ws)
  then have e: "execs (wrap (Exec ws) rs)" if "list_all (\<lambda>(f, mode, fd). okredir f mode fd) rs" for rs
    using that by (simp add: execs_Exec)
  have p: "pipes (Exec ws)" using pipes_execs e [of "[]"] by simp
  then have "backs (Exec ws)" by (rule backs_pipes) simp
  with e p lines_backs show ?case by simp
next
  case (Redir c f mode fd)
  then have e: "execs (wrap (Redir c f mode fd) rs)" if "list_all (\<lambda>(f, mode, fd). okredir f mode fd) rs" for rs
    using that by (auto dest!: spec [of _ "(f, mode, fd) # rs"])
  have p: "pipes (Redir c f mode fd)" using pipes_execs e [of "[]"] by simp
  then have "backs (Redir c f mode fd)" by (rule backs_pipes) simp
  with e p lines_backs show ?case by simp
next
  case (Pipe l r)
  then have p: "pipes (Pipe l r)" using pipes_Pipe [of l r] by (auto dest: spec [of _ "[]"])
  then have b: "backs (Pipe l r)" by (rule backs_pipes) (simp add: paren_def)
  then have "lines (Pipe l r)" by (rule lines_backs) (simp add: paren_def)
  with p b execs_block [of "Pipe l r"] show ?case by (simp add: paren_def)
next
  case (List l r)
  then have l: "lines (List l r)" by (simp add: lines_List)
  then have e: "execs (wrap (List l r) rs)" if "list_all (\<lambda>(f, mode, fd). okredir f mode fd) rs" for rs
    using execs_block [OF l _ that] by (simp add: paren_def)
  have p: "pipes (List l r)" using pipes_execs e [of "[]"] by (simp add: paren_def)
  then have "backs (List l r)" by (rule backs_pipes) (simp add: paren_def)
  with l e p show ?case by blast
next
  case (Back c)
  then have b: "backs (Back c)" by (simp add: backs_Back)
  then have l: "lines (Back c)" by (rule lines_backs) (simp add: paren_def)
  then have e: "execs (wrap (Back c) rs)" if "list_all (\<lambda>(f, mode, fd). okredir f mode fd) rs" for rs
    using execs_block [OF l _ that] by (simp add: paren_def)
  have "pipes (Back c)" using pipes_execs e [of "[]"] by (simp add: paren_def)
  with l e b show ?case by blast
qed

lemma parseline_fuel:
  assumes "parseline n s = Ok c r"
  shows "parseline (4 * length s + 4) s = Ok c r"
proof (cases "n \<le> 4 * length s + 4")
  case True
  then show ?thesis using assms by (rule parse_mono(1))
next
  case False
  have "parseline (4 * length s + 4 + k) s = parseline (4 * length s + 4) s" for k
  proof (induction k)
    case (Suc k)
    then show ?case using parse_mono_Suc(1) [of "4 * length s + 4 + k" s] parse_total(1) [of s "4 * length s + 4"]
      by (simp del: parseline.simps)
  qed simp
  from this [of "n - (4 * length s + 4)"] False assms show ?thesis by simp
qed

text \<open>
  C4: The parser reads back every command that can be typed. Print any command tree over word
  characters, with up to nine words to a program, with the three redirections and with parentheses
  where the grammar needs them; then \<^verbatim>\<open>parsecmd\<close> succeeds, and the command that \<^verbatim>\<open>main\<close> runs, with its
  strings as \<^verbatim>\<open>nulterminate\<close> leaves them in the buffer, is that tree.
\<close>

theorem parse_print:
  assumes "typable c" "CHR 0x00 \<notin> set (cmd_text 0 c)"
  shows "\<exists>p. parsecmd (cmd_text 0 c) = Ok p [] \<and> strings (nulterminate p (cmd_text 0 c)) p = c"
proof -
  have "lines c" using cmd_reads [OF assms(1)] by simp
  moreover have "begins '')'' []" by (simp add: begins_def)
  ultimately obtain n p where p: "parseline n (cmd_text 0 c) = Ok p []" "read_cmd p = c"
    unfolding lines_def by (metis append_Nil2 skip_Nil)
  have "parsecmd (cmd_text 0 c) = Ok p []"
    using parseline_fuel [OF p(1)] by (simp add: parsecmd_def peek_def)
  with nulterminate_reads [OF this assms(2)] p(2) show ?thesis by simp
qed

theorem parse_print_witness:
  "\<exists>p. parsecmd ''(ls -l >>f ;wc &)<g |sh '' = Ok p [] \<and>
     strings (nulterminate p ''(ls -l >>f ;wc &)<g |sh '') p =
       Pipe (Redir (List (Redir (Exec [''ls'', ''-l'']) ''f'' O_APPEND 1) (Back (Exec [''wc'']))) ''g'' O_READ 0)
         (Exec [''sh''])"
proof -
  let ?c = "Pipe (Redir (List (Redir (Exec [''ls'', ''-l'']) ''f'' O_APPEND 1) (Back (Exec [''wc'']))) ''g'' O_READ 0)
         (Exec [''sh''])"
  have t: "cmd_text 0 ?c = ''(ls -l >>f ;wc &)<g |sh ''" by code_simp
  have "typable ?c" by code_simp
  from parse_print [OF this] show ?thesis unfolding t by simp
qed

end
