(* ===== verification/Spec2Isabelle.thy ===== *)
theory Spec2Isabelle
  imports Harts Wakeup Vm_props Boot Pipe_props Bio_cache Log_crash Fs_ops Asm Grep Tools Sh
begin

text \<open>
  xv6 for RISC-V: the kernel. To be completed.
\<close>

end
